(* ===== verification/Prelude.thy ===== *)
theory Prelude
  imports Main "HOL-Library.Word"
begin

text \<open>
  Shared vocabulary of the development: the machine integer types of the Rust sources, the result
  type of fallible code (an error value or a panic), and the generic facts on lists, ranges and
  words that the component theories use.
\<close>

section \<open>Machine integers\<close>

type_synonym u8 = "8 word"
type_synonym u16 = "16 word"
type_synonym u32 = "32 word"
type_synonym u64 = "64 word"
type_synonym i64 = "64 word"
type_synonym bytes = "u8 list"

text \<open>
  The shipped profiles of the workspace (\<^verbatim>\<open>Cargo.toml\<close>, \<^verbatim>\<open>[profile.release]\<close>) do not
  enable overflow checks, so \<open>+\<close>, \<open>-\<close> and \<open>*\<close> on fixed-width integers wrap around, which is
  what \<open>'a word\<close> does. \<open>usize\<close> values that are lengths or indices of existing slices are \<open>nat\<close>.
\<close>

section \<open>Fallible code\<close>

text \<open>
  A Rust function that can return \<open>Err e\<close> or panic is a function into \<open>'e fault + 'a\<close>.
\<close>

datatype 'e fault = Err 'e | Panic

type_synonym ('a, 'e) rust = "'e fault + 'a"

definition rbind :: "'x + 'a \<Rightarrow> ('a \<Rightarrow> 'x + 'b) \<Rightarrow> 'x + 'b" where
  "rbind m f = (case m of Inl x \<Rightarrow> Inl x | Inr a \<Rightarrow> f a)"

lemma rbind_simps [simp]:
  "rbind (Inl x) f = Inl x"
  "rbind (Inr a) f = f a"
  by (simp_all add: rbind_def)

lemma rbind_eq_Inr: "rbind m f = Inr b \<longleftrightarrow> (\<exists>a. m = Inr a \<and> f a = Inr b)"
  by (cases m) auto

definition no_panic :: "('a, 'e) rust \<Rightarrow> bool" where
  "no_panic r \<longleftrightarrow> r \<noteq> Inl Panic"

lemma no_panic_simps [simp]: "no_panic (Inr a)" "no_panic (Inl (Err e))" "\<not> no_panic (Inl Panic)"
  by (simp_all add: no_panic_def)

lemma no_panic_rbind: "no_panic m \<Longrightarrow> (\<And>a. m = Inr a \<Longrightarrow> no_panic (f a)) \<Longrightarrow> no_panic (rbind m f)"
  by (cases m) (auto simp: no_panic_def)

text \<open>A loop over a list that stops at the first error or panic.\<close>

primrec rfold :: "('s \<Rightarrow> 'a \<Rightarrow> ('s, 'e) rust) \<Rightarrow> 's \<Rightarrow> 'a list \<Rightarrow> ('s, 'e) rust" where
  "rfold f s [] = Inr s"
| "rfold f s (x # xs) = rbind (f s x) (\<lambda>s'. rfold f s' xs)"

lemma rfold_append: "rfold f s (xs @ ys) = rbind (rfold f s xs) (\<lambda>s'. rfold f s' ys)"
proof (induction xs arbitrary: s)
  case (Cons x xs)
  then show ?case by (cases "f s x") simp_all
qed simp

text \<open>A loop whose invariant \<open>P\<close> speaks about the elements already visited.\<close>

lemma rfold_invariant:
  assumes "P [] s"
    and "\<And>done x todo s. xs = done @ x # todo \<Longrightarrow> P done s \<Longrightarrow> \<exists>s'. f s x = Inr s' \<and> P (done @ [x]) s'"
  shows "\<exists>s'. rfold f s xs = Inr s' \<and> P xs s'"
proof -
  have "\<exists>s'. rfold f s ys = Inr s' \<and> P ys s'" if "xs = ys @ zs" for ys zs
    using that
  proof (induction ys arbitrary: zs rule: rev_induct)
    case Nil
    then show ?case using assms(1) by simp
  next
    case (snoc y ys)
    then obtain s' where "rfold f s ys = Inr s'" "P ys s'" by auto
    with assms(2) [of ys y zs s'] snoc.prems show ?case by (auto simp: rfold_append)
  qed
  from this [of xs "[]"] show ?thesis by simp
qed

lemma rfold_pure: "rfold (\<lambda>s x. Inr (g s x)) s xs = Inr (foldl g s xs)"
  by (induction xs arbitrary: s) simp_all

lemma rfold_cong:
  "(\<And>s x. x \<in> set xs \<Longrightarrow> f s x = g s x) \<Longrightarrow> rfold f s xs = rfold g s xs"
  by (induction xs arbitrary: s) simp_all

section \<open>Words read as natural numbers\<close>

text \<open>
  The collection \<open>wnat\<close> pushes \<^const>\<open>unat\<close> through the operations of the sources; it is used
  with side conditions that exclude a wrap-around.
\<close>

named_theorems wnat

lemma unat_ucast [wnat]: "unat (ucast (a :: 'a::len word) :: 'b::len word) = unat a mod 2 ^ LENGTH('b)"
  by transfer (simp add: nat_mod_distrib take_bit_eq_mod nat_power_eq)

lemma unat_ucast_up [simp]:
  "unat (ucast (a :: u32) :: u64) = unat a" "unat (ucast (b :: u16) :: u32) = unat b"
  "unat (ucast (c :: u8) :: u32) = unat c" "unat (ucast (c :: u8) :: u64) = unat c"
proof -
  have "unat a < 2 ^ LENGTH(32)" "unat b < 2 ^ LENGTH(16)" "unat c < 2 ^ LENGTH(8)"
    by (rule unsigned_less)+
  then show "unat (ucast a :: u64) = unat a" "unat (ucast b :: u32) = unat b"
    "unat (ucast c :: u32) = unat c" "unat (ucast c :: u64) = unat c"
    by (simp_all add: unat_ucast)
qed

lemma ucast_u32_u64_eq_0 [simp]: "(ucast (a :: u32) :: u64) = 0 \<longleftrightarrow> a = 0"
  using unat_0_iff [of "ucast a :: u64"] unat_0_iff [of a] by simp

lemma unat_min [wnat]: "unat (min a b :: 'a::len word) = min (unat a) (unat b)"
  by (simp add: min_def word_le_nat_alt)

lemma unat_max [wnat]: "unat (max a b :: 'a::len word) = max (unat a) (unat b)"
  by (simp add: max_def word_le_nat_alt)

lemma unat_add_small [wnat]:
  "unat a + unat b < 2 ^ LENGTH('a) \<Longrightarrow> unat (a + b :: 'a::len word) = unat a + unat b"
  by (simp add: unat_word_ariths)

lemma unat_mult_small [wnat]:
  "unat a * unat b < 2 ^ LENGTH('a) \<Longrightarrow> unat (a * b :: 'a::len word) = unat a * unat b"
  by (simp add: unat_word_ariths)

lemma unat_diff_small [wnat]:
  "unat b \<le> unat a \<Longrightarrow> unat (a - b :: 'a::len word) = unat a - unat b"
  by (simp add: unat_sub word_le_nat_alt)

lemma unat_of_nat_small [wnat]: "n < 2 ^ LENGTH('a) \<Longrightarrow> unat (of_nat n :: 'a::len word) = n"
  by (simp add: unat_of_nat)

declare unat_div [wnat] unat_mod [wnat]

lemma unat_bound32: "unat (x :: u32) < 4294967296"
proof -
  have "unat x < 2 ^ LENGTH(32)" by (rule unsigned_less)
  then show ?thesis by simp
qed

lemma unat_bound64: "unat (x :: u64) < 18446744073709551616"
proof -
  have "unat x < 2 ^ LENGTH(64)" by (rule unsigned_less)
  then show ?thesis by simp
qed

lemma unat_small_u32: "n < 4294967296 \<Longrightarrow> unat (of_nat n :: u32) = n"
  by (simp add: unat_of_nat)

lemma le_nat_u32: "(a \<le> (b::u32)) = (unat a \<le> unat b)"
  by (rule word_le_nat_alt)

section \<open>Rounding-up division\<close>

text \<open>Rust's \<^verbatim>\<open>div_ceil\<close> on unsigned integers (the divisor is not zero), and its value as a number.\<close>

definition div_ceil :: "'a::len word \<Rightarrow> 'a word \<Rightarrow> 'a word" where
  "div_ceil a b = (let d = a div b; r = a mod b in if r > 0 then d + 1 else d)"

definition nceil :: "nat \<Rightarrow> nat \<Rightarrow> nat" where
  "nceil a b = (if a mod b = 0 then a div b else Suc (a div b))"

lemma nceil_le_iff: "0 < b \<Longrightarrow> nceil a b \<le> k \<longleftrightarrow> a \<le> k * b"
proof -
  assume b: "0 < b"
  show ?thesis
  proof (cases "a mod b = 0")
    case True
    then have "a div b * b = a" by (simp add: mod_eq_0_iff_dvd)
    then have "a \<le> k * b \<longleftrightarrow> a div b * b \<le> k * b" by simp
    then show ?thesis using True b by (simp add: nceil_def)
  next
    case False
    have "a \<noteq> k * b" using False by auto
    then have "a \<le> k * b \<longleftrightarrow> a < k * b" by auto
    also have "\<dots> \<longleftrightarrow> a div b < k" using b by (simp add: div_less_iff_less_mult)
    finally show ?thesis using False by (simp add: nceil_def Suc_le_eq)
  qed
qed

lemma less_nceil_iff: "0 < b \<Longrightarrow> k < nceil a b \<longleftrightarrow> k * b < a"
  using nceil_le_iff [of b a k] by linarith

lemma nceil_pos [simp]: "0 < b \<Longrightarrow> 0 < nceil a b \<longleftrightarrow> 0 < a"
  using less_nceil_iff [of b 0 a] by simp

lemma nceil_0 [simp]: "nceil 0 b = 0"
  by (simp add: nceil_def)

lemma nceil_mono: "0 < b \<Longrightarrow> a \<le> a' \<Longrightarrow> nceil a b \<le> nceil a' b"
  using nceil_le_iff [of b a "nceil a' b"] nceil_le_iff [of b a' "nceil a' b"] by simp

lemma nceil_le: "0 < b \<Longrightarrow> nceil a b \<le> a"
  by (simp add: nceil_le_iff)

lemma nceil_Suc_div: "0 < a \<Longrightarrow> 0 < b \<Longrightarrow> nceil a b = Suc ((a - 1) div b)"
proof -
  assume a: "0 < a" and b: "0 < b"
  have "nceil a b \<le> k \<longleftrightarrow> Suc ((a - 1) div b) \<le> k" for k
  proof -
    have "Suc ((a - 1) div b) \<le> k \<longleftrightarrow> a - 1 < k * b"
      using b by (simp add: Suc_le_eq div_less_iff_less_mult)
    then show ?thesis using a b by (auto simp: nceil_le_iff)
  qed
  then show ?thesis by (meson le_antisym order_refl)
qed

lemma nceil_step: "0 < b \<Longrightarrow> 0 < a \<Longrightarrow> nceil a b = Suc (nceil (a - b) b)"
proof -
  assume b: "0 < b" and a: "0 < a"
  have "nceil a b \<le> k \<longleftrightarrow> Suc (nceil (a - b) b) \<le> k" for k
    using a b by (cases k) (auto simp: nceil_le_iff)
  then show ?thesis by (meson le_antisym order_refl)
qed

lemma unat_div_ceil [wnat]:
  assumes "b \<noteq> (0 :: 'a::len word)"
  shows "unat (div_ceil a b) = nceil (unat a) (unat b)"
proof -
  have b: "0 < unat b" using assms by (simp add: unat_gt_0)
  have r: "(0 < a mod b) = (unat a mod unat b \<noteq> 0)"
    using unat_0_iff [of "a mod b"] by (simp add: word_gt_0 unat_mod)
  have "nceil (unat a) (unat b) \<le> unat a" using b by (rule nceil_le)
  also have "\<dots> < 2 ^ LENGTH('a)" by (rule unsigned_less)
  finally have "nceil (unat a) (unat b) < 2 ^ LENGTH('a)" .
  then show ?thesis
    using r by (auto simp: div_ceil_def nceil_def Let_def unat_div unat_word_ariths(1))
qed

end
