(* ===== verification/Bit_Slices.thy ===== *)
theory Bit_Slices
  imports Prelude
begin

text \<open>
  Bit fields. \<^verbatim>\<open>BS\<close> and \<^verbatim>\<open>BF\<close> of \<^verbatim>\<open>crates/librtbit/src/type_aliases.rs\<close> are slices and boxes of
  bits; their value is the list of their bits in index order, and the operations below are the
  slice operations the sources call on them (indexing and \<^verbatim>\<open>set\<close> panic out of range, \<^verbatim>\<open>get\<close> with a
  range returns \<^verbatim>\<open>None\<close> there). The locale \<open>chunk_layout\<close> is the contract under which a bit field
  with one bit per chunk can be updated piece by piece.
\<close>

type_synonym bits = "bool list"

text \<open>A bit field over \<open>n\<close> zero bytes.\<close>

definition zero_bytes :: "nat \<Rightarrow> bits" where
  "zero_bytes n = replicate (8 * n) False"

definition get_range :: "bits \<Rightarrow> nat \<times> nat \<Rightarrow> bits option" where
  "get_range bs r =
     (if fst r \<le> snd r \<and> snd r \<le> length bs then Some (take (snd r - fst r) (drop (fst r) bs)) else None)"

definition fill_range :: "bits \<Rightarrow> nat \<times> nat \<Rightarrow> bool \<Rightarrow> bits option" where
  "fill_range bs r v =
     (if fst r \<le> snd r \<and> snd r \<le> length bs
      then Some (take (fst r) bs @ replicate (snd r - fst r) v @ drop (snd r) bs) else None)"

definition set_bit_checked :: "bits \<Rightarrow> nat \<Rightarrow> bool \<Rightarrow> 'e fault + bits" where
  "set_bit_checked bs i v = (if i < length bs then Inr (bs[i := v]) else Inl Panic)"

definition get_bit_checked :: "bits \<Rightarrow> nat \<Rightarrow> 'e fault + bool" where
  "get_bit_checked bs i = (if i < length bs then Inr (bs ! i) else Inl Panic)"

definition iter_ones :: "bits \<Rightarrow> nat list" where
  "iter_ones bs = filter (\<lambda>i. bs ! i) [0..<length bs]"

definition all_ones :: "bits \<Rightarrow> bool" where
  "all_ones bs \<longleftrightarrow> (\<forall>b \<in> set bs. b)"

lemma length_zero_bytes [simp]: "length (zero_bytes n) = 8 * n"
  by (simp add: zero_bytes_def)

lemma nth_zero_bytes [simp]: "i < 8 * n \<Longrightarrow> zero_bytes n ! i = False"
  by (simp add: zero_bytes_def)

lemma set_iter_ones [simp]: "set (iter_ones bs) = {i. i < length bs \<and> bs ! i}"
  by (auto simp: iter_ones_def)

lemma fill_range_Some:
  "fst r \<le> snd r \<Longrightarrow> snd r \<le> length bs \<Longrightarrow>
   \<exists>bs'. fill_range bs r v = Some bs' \<and> length bs' = length bs \<and>
     (\<forall>i < length bs. bs' ! i = (if fst r \<le> i \<and> i < snd r then v else bs ! i))"
  by (auto simp: fill_range_def nth_append min_def)

text \<open>All bits of a range are set.\<close>

definition range_ones :: "bits \<Rightarrow> nat \<times> nat \<Rightarrow> bool" where
  "range_ones bs r \<longleftrightarrow> (\<forall>i \<in> {fst r..<snd r}. bs ! i)"

lemma nth_update_bit: "bs[i := v] ! k = (if i = k \<and> i < length bs then v else bs ! k)"
  by (cases "i < length bs") (simp_all add: nth_list_update list_update_beyond)

lemma range_ones_set: "range_ones bs r \<Longrightarrow> range_ones (bs[x := True]) r"
  by (simp add: range_ones_def nth_update_bit)

lemma get_range_all:
  assumes "fst r \<le> snd r" "snd r \<le> length bs"
  shows "\<exists>b. get_range bs r = Some b \<and> length b = snd r - fst r \<and> (all_ones b \<longleftrightarrow> range_ones bs r)"
proof -
  let ?n = "snd r - fst r"
  have "set (take ?n (drop (fst r) bs)) = (!) (drop (fst r) bs) ` {0..<?n}"
    using assms by (subst nth_image) simp_all
  also have "\<dots> = (\<lambda>j. bs ! (fst r + j)) ` {0..<?n}"
    using assms by (intro image_cong) simp_all
  also have "\<dots> = (!) bs ` ((+) (fst r) ` {0..<?n})" by (simp only: image_image)
  also have "(+) (fst r) ` {0..<?n} = {fst r..<snd r}" using assms by simp
  finally have "set (take ?n (drop (fst r) bs)) = (!) bs ` {fst r..<snd r}" .
  then show ?thesis using assms by (simp add: get_range_def all_ones_def range_ones_def)
qed

section \<open>One bit per chunk, grouped by piece\<close>

text \<open>
  What the chunk tracker relies on: the chunk ranges of the pieces are non-empty, in order,
  disjoint, inside the bit field, and together all of it.
\<close>

locale chunk_layout =
  fixes ok :: "'l \<Rightarrow> bool"
    and pieces :: "'l \<Rightarrow> nat"
    and range :: "'l \<Rightarrow> nat \<Rightarrow> nat \<times> nat"
    and total :: "'l \<Rightarrow> nat"
  assumes nonempty: "ok l \<Longrightarrow> k < pieces l \<Longrightarrow> fst (range l k) < snd (range l k)"
    and inside: "ok l \<Longrightarrow> k < pieces l \<Longrightarrow> snd (range l k) \<le> total l"
    and ordered: "ok l \<Longrightarrow> j < k \<Longrightarrow> k < pieces l \<Longrightarrow> snd (range l j) \<le> fst (range l k)"
    and covered: "ok l \<Longrightarrow> x < total l \<Longrightarrow> \<exists>k < pieces l. fst (range l k) \<le> x \<and> x < snd (range l k)"
begin

lemma disjoint:
  assumes "ok l" "j < pieces l" "k < pieces l" "j \<noteq> k"
    and "fst (range l j) \<le> x" "x < snd (range l j)"
  shows "\<not> (fst (range l k) \<le> x \<and> x < snd (range l k))"
proof (cases "j < k")
  case True
  then show ?thesis using ordered [of l j k] assms by auto
next
  case False
  then show ?thesis using ordered [of l k j] assms by auto
qed

lemma fill_piece:
  assumes ok: "ok l" and k: "k < pieces l" and len: "total l \<le> length bs"
  shows "\<exists>bs'. fill_range bs (range l k) v = Some bs' \<and> length bs' = length bs \<and>
    (\<forall>x. fst (range l k) \<le> x \<and> x < snd (range l k) \<longrightarrow> bs' ! x = v) \<and>
    (\<forall>j < pieces l. j \<noteq> k \<longrightarrow> (\<forall>x. fst (range l j) \<le> x \<and> x < snd (range l j) \<longrightarrow> bs' ! x = bs ! x))"
proof -
  have r: "fst (range l k) \<le> snd (range l k)" "snd (range l k) \<le> length bs"
    using nonempty [OF ok k] inside [OF ok k] len by simp_all
  from fill_range_Some [OF this] obtain bs' where bs': "fill_range bs (range l k) v = Some bs'"
    "length bs' = length bs"
    "\<forall>i < length bs. bs' ! i = (if fst (range l k) \<le> i \<and> i < snd (range l k) then v else bs ! i)"
    by blast
  have "bs' ! x = v" if "fst (range l k) \<le> x" "x < snd (range l k)" for x
    using bs'(3) that r by auto
  moreover have "bs' ! x = bs ! x"
    if "j < pieces l" "j \<noteq> k" "fst (range l j) \<le> x" "x < snd (range l j)" for j x
    using disjoint [OF ok that(1) k that(2-4)] bs'(3) inside [OF ok that(1)] len that by auto
  ultimately show ?thesis using bs'(1,2) by blast
qed

lemma complete_get:
  assumes ok: "ok l" and k: "k < pieces l" and len: "total l \<le> length bs"
  shows "\<exists>b. get_range bs (range l k) = Some b \<and> length b = snd (range l k) - fst (range l k) \<and>
    (all_ones b \<longleftrightarrow> range_ones bs (range l k))"
  using get_range_all [of "range l k" bs] nonempty [OF ok k] inside [OF ok k] len by simp

lemma complete_set_other:
  assumes ok: "ok l" and "j < pieces l" "k < pieces l" "j \<noteq> k"
    and x: "fst (range l k) \<le> x" "x < snd (range l k)"
  shows "range_ones (bs[x := v]) (range l j) \<longleftrightarrow> range_ones bs (range l j)"
  using disjoint [OF ok assms(3,2) _ x] assms(4) by (auto simp: range_ones_def nth_list_update)

end

end
