(* ===== verification/Lengths.thy ===== *)
theory Lengths
  imports Bit_Slices
begin

text \<open>
  The piece and chunk arithmetic of a torrent: \<^verbatim>\<open>crates/librtbit-core/src/lengths.rs\<close> and
  \<^verbatim>\<open>constants.rs\<close>. The fields keep their Rust widths; every operation of \<^verbatim>\<open>impl Lengths\<close> that
  computes a number is a definition of this theory, and the lemmas relate it to the ideal
  geometry: a torrent of \<open>T\<close> bytes cut into pieces of \<open>P\<close> bytes, a piece cut into chunks of
  16384 bytes.
\<close>

section \<open>Data\<close>

definition CHUNK_SIZE :: u32 where
  "CHUNK_SIZE = 16384"

datatype valid_piece_index = ValidPieceIndex (vpi_get: u32)

definition get_usize :: "valid_piece_index \<Rightarrow> nat" where
  "get_usize i = unat (vpi_get i)"

record piece_info =
  pi_piece_index :: valid_piece_index
  pi_len :: u32

record chunk_info =
  ci_piece_index :: valid_piece_index
  ci_chunk_index :: u32
  ci_absolute_index :: u32
  ci_size :: u32
  ci_offset :: u32

record lengths =
  ln_total_length :: u64
  ln_piece_length :: u32
  ln_last_piece_id :: u32
  ln_last_piece_length :: u32
  ln_chunks_per_piece :: u32

record current_piece =
  cp_id :: valid_piece_index
  cp_piece_remaining :: u32
  cp_piece_offset :: u32

datatype core_error =
    BadTorrentMultiFileEmpty | BadTorrentFileNoName | BadTorrentBothSingleAndMultiFile | BadTorrentPathTraversal
  | BadTorrentSeparatorInName | BadTorrentZeroLength | InvalidPieceIndex u32 | BadTorrentNoFiles
  | BadTorrentDuplicateFilenames | V2OnlyNotSupported

section \<open>Operations\<close>

definition last_element_size :: "'a::len word \<Rightarrow> 'a word \<Rightarrow> 'a word" where
  "last_element_size total_len piece_len =
     (let rem = total_len mod piece_len in if rem = 0 then piece_len else rem)"

text \<open>
  \<^verbatim>\<open>Lengths::new\<close>: a zero total length is an error; a zero piece length makes \<^verbatim>\<open>div_ceil\<close>
  panic; the number of pieces is truncated to 32 bits.
\<close>

definition Lengths_new :: "u64 \<Rightarrow> u32 \<Rightarrow> (lengths, core_error) rust" where
  "Lengths_new total_len piece_len =
     (if total_len = 0 then Inl (Err BadTorrentZeroLength)
      else if piece_len = 0 then Inl Panic
      else
        let total_pieces = ucast (div_ceil total_len (ucast piece_len)) :: u32
        in Inr \<lparr> ln_total_length = total_len,
                 ln_piece_length = piece_len,
                 ln_last_piece_id = total_pieces - 1,
                 ln_last_piece_length = ucast (last_element_size total_len (ucast piece_len)),
                 ln_chunks_per_piece = ucast (div_ceil (ucast piece_len :: u64) (ucast CHUNK_SIZE)) \<rparr>)"

definition total_pieces :: "lengths \<Rightarrow> u32" where
  "total_pieces l = ln_last_piece_id l + 1"

definition last_piece_id :: "lengths \<Rightarrow> valid_piece_index" where
  "last_piece_id l = ValidPieceIndex (ln_last_piece_id l)"

definition piece_bitfield_bytes :: "lengths \<Rightarrow> nat" where
  "piece_bitfield_bytes l = unat (div_ceil (total_pieces l) 8)"

definition validate_piece_index :: "lengths \<Rightarrow> u32 \<Rightarrow> valid_piece_index option" where
  "validate_piece_index l index =
     (if index > ln_last_piece_id l then None else Some (ValidPieceIndex index))"

definition try_validate_piece_index :: "lengths \<Rightarrow> u32 \<Rightarrow> (valid_piece_index, core_error) rust" where
  "try_validate_piece_index l index =
     (case validate_piece_index l index of
        None \<Rightarrow> Inl (Err (InvalidPieceIndex index))
      | Some i \<Rightarrow> Inr i)"

definition default_piece_length :: "lengths \<Rightarrow> u32" where
  "default_piece_length l = ln_piece_length l"

definition default_chunks_per_piece :: "lengths \<Rightarrow> u32" where
  "default_chunks_per_piece l = ln_chunks_per_piece l"

definition piece_length :: "lengths \<Rightarrow> valid_piece_index \<Rightarrow> u32" where
  "piece_length l i =
     (if vpi_get i = ln_last_piece_id l then ln_last_piece_length l else ln_piece_length l)"

definition chunks_per_piece :: "lengths \<Rightarrow> valid_piece_index \<Rightarrow> u32" where
  "chunks_per_piece l i =
     (if vpi_get i = ln_last_piece_id l then div_ceil (ln_last_piece_length l) CHUNK_SIZE
      else ln_chunks_per_piece l)"

definition total_chunks :: "lengths \<Rightarrow> u32" where
  "total_chunks l =
     ln_last_piece_id l * default_chunks_per_piece l + chunks_per_piece l (last_piece_id l)"

definition chunk_bitfield_bytes :: "lengths \<Rightarrow> nat" where
  "chunk_bitfield_bytes l = unat (div_ceil (total_chunks l) 8)"

definition piece_offset :: "lengths \<Rightarrow> valid_piece_index \<Rightarrow> u64" where
  "piece_offset l i = ucast (vpi_get i) * ucast (ln_piece_length l)"

definition chunk_absolute_offset :: "lengths \<Rightarrow> chunk_info \<Rightarrow> u64" where
  "chunk_absolute_offset l ci = piece_offset l (ci_piece_index ci) + ucast (ci_offset ci)"

definition iter_piece_infos :: "lengths \<Rightarrow> piece_info list" where
  "iter_piece_infos l =
     map (\<lambda>k. let idx = of_nat k :: u32 in
               \<lparr> pi_piece_index = ValidPieceIndex idx,
                 pi_len = (if idx = ln_last_piece_id l then ln_last_piece_length l
                           else ln_piece_length l) \<rparr>)
         [0..<unat (total_pieces l)]"

text \<open>The half-open range of piece numbers that \<^verbatim>\<open>iter_pieces_within_offset\<close> returns.\<close>

definition iter_pieces_within_offset :: "lengths \<Rightarrow> u64 \<Rightarrow> u64 \<Rightarrow> (u32 \<times> u32, unit) rust" where
  "iter_pieces_within_offset l offset_bytes len =
     (let offset_bytes = min offset_bytes (ln_total_length l);
          end_bytes = min (offset_bytes + len) (ln_total_length l);
          pl = ucast (ln_piece_length l) :: u64
      in if pl = 0 then Inl Panic
         else
           let start_piece_id = ucast (offset_bytes div pl) :: u32;
               end_piece_id =
                 (if end_bytes = offset_bytes then start_piece_id
                  else ucast (div_ceil end_bytes pl))
           in Inr (start_piece_id, end_piece_id))"

text \<open>
  The closure of \<^verbatim>\<open>iter_chunk_infos\<close> keeps \<open>offset\<close> and \<open>remaining\<close> and stops when nothing remains.
\<close>

function chunk_infos_scan ::
  "valid_piece_index \<Rightarrow> u32 \<Rightarrow> u32 \<Rightarrow> u32 \<Rightarrow> u32 \<Rightarrow> chunk_info list" where
  "chunk_infos_scan index absolute_offset idx offset remaining =
     (if remaining = 0 then []
      else
        let s = min remaining CHUNK_SIZE
        in \<lparr> ci_piece_index = index, ci_chunk_index = idx,
             ci_absolute_index = absolute_offset + idx, ci_size = s, ci_offset = offset \<rparr>
           # chunk_infos_scan index absolute_offset (idx + 1) (offset + s) (remaining - s))"
  by pat_completeness auto
termination
proof (relation "measure (\<lambda>(_, _, _, _, remaining). unat remaining)")
  fix remaining x index :: u32 and i :: valid_piece_index and a b c :: u32
  assume r: "remaining \<noteq> 0" and x: "x = min remaining CHUNK_SIZE"
  have "0 < unat remaining" using r by (simp add: unat_gt_0)
  moreover have "unat x = min (unat remaining) 16384"
    using x by (simp add: unat_min CHUNK_SIZE_def)
  ultimately have "unat (remaining - x) < unat remaining"
    by (simp add: unat_diff_small)
  then show "((i, b, c + 1, a + x, remaining - x), (i, b, c, a, remaining))
      \<in> measure (\<lambda>(_, _, _, _, remaining). unat remaining)"
    by simp
qed simp

declare chunk_infos_scan.simps [simp del]

definition iter_chunk_infos :: "lengths \<Rightarrow> valid_piece_index \<Rightarrow> chunk_info list" where
  "iter_chunk_infos l index =
     chunk_infos_scan index (vpi_get index * ln_chunks_per_piece l) 0 0 (piece_length l index)"

definition chunk_offset_in_piece :: "lengths \<Rightarrow> valid_piece_index \<Rightarrow> u32 \<Rightarrow> u32 option" where
  "chunk_offset_in_piece l i chunk_index =
     (if chunk_index \<ge> chunks_per_piece l i then None else Some (chunk_index * CHUNK_SIZE))"

definition chunk_size :: "lengths \<Rightarrow> valid_piece_index \<Rightarrow> u32 \<Rightarrow> u32 option" where
  "chunk_size l i chunk_index =
     (let pl = piece_length l i;
          last_chunk_id = div_ceil pl CHUNK_SIZE - 1
      in if chunk_index < last_chunk_id then Some CHUNK_SIZE
         else if chunk_index = last_chunk_id then Some (last_element_size pl CHUNK_SIZE)
         else None)"

definition chunk_info_from_received_data ::
  "lengths \<Rightarrow> valid_piece_index \<Rightarrow> u32 \<Rightarrow> u32 \<Rightarrow> chunk_info option" where
  "chunk_info_from_received_data l i begin csize =
     (let index = begin div CHUNK_SIZE
      in case chunk_size l i index of
           None \<Rightarrow> None
         | Some expected_chunk_size \<Rightarrow>
             (case chunk_offset_in_piece l i index of
                None \<Rightarrow> None
              | Some offset \<Rightarrow>
                  if offset \<noteq> begin then None
                  else if expected_chunk_size \<noteq> csize then None
                  else Some \<lparr> ci_piece_index = i, ci_chunk_index = index,
                              ci_absolute_index = ln_chunks_per_piece l * vpi_get i + index,
                              ci_size = csize, ci_offset = offset \<rparr>))"

definition chunk_range :: "lengths \<Rightarrow> valid_piece_index \<Rightarrow> nat \<times> nat" where
  "chunk_range l i =
     (let start = vpi_get i * ln_chunks_per_piece l;
          end = start + chunks_per_piece l i
      in (unat start, unat end))"

text \<open>
  \<^verbatim>\<open>size_of_piece_in_file\<close>: \<^verbatim>\<open>saturating_sub\<close> gives 0 where the two ranges do not meet.
\<close>

definition size_of_piece_in_file :: "lengths \<Rightarrow> u32 \<Rightarrow> u64 \<Rightarrow> u64 \<Rightarrow> u64" where
  "size_of_piece_in_file l piece_id file_offset file_len =
     (let piece_off = ucast piece_id * ucast (default_piece_length l) :: u64;
          piece_end = piece_off + ucast (default_piece_length l);
          file_end = file_offset + file_len;
          offset = max file_offset piece_off;
          end = min file_end piece_end
      in if end < offset then 0 else end - offset)"

text \<open>\<^verbatim>\<open>u32::try_from\<close> on a \<^verbatim>\<open>u64\<close>.\<close>

definition u32_try_from :: "u64 \<Rightarrow> u32 option" where
  "u32_try_from x = (if unat x < 2 ^ 32 then Some (ucast x) else None)"

definition compute_current_piece ::
  "lengths \<Rightarrow> u64 \<Rightarrow> u64 \<Rightarrow> (current_piece option, unit) rust" where
  "compute_current_piece l file_pos file_torrent_abs_offset =
     (let dpl = ucast (default_piece_length l) :: u64;
          abs_pos = file_torrent_abs_offset + file_pos
      in if dpl = 0 then Inl Panic
         else Inr
           (case u32_try_from (abs_pos div dpl) of
              None \<Rightarrow> None
            | Some pid \<Rightarrow>
                (case validate_piece_index l pid of
                   None \<Rightarrow> None
                 | Some i \<Rightarrow>
                     (case u32_try_from (abs_pos div dpl) of
                        None \<Rightarrow> None
                      | Some poff \<Rightarrow>
                          (case u32_try_from (ucast (piece_length l i) - abs_pos mod dpl) of
                             None \<Rightarrow> None
                           | Some rem \<Rightarrow>
                               Some \<lparr> cp_id = i, cp_piece_remaining = rem,
                                      cp_piece_offset = poff \<rparr>)))))"

section \<open>Ideal geometry\<close>

definition wf_lengths :: "lengths \<Rightarrow> bool" where
  "wf_lengths l \<longleftrightarrow>
     (let T = unat (ln_total_length l); P = unat (ln_piece_length l); n = nceil T P
      in 0 < T \<and> 0 < P
         \<and> Suc (unat (ln_last_piece_id l)) = n
         \<and> unat (ln_last_piece_length l) = T - (n - 1) * P
         \<and> unat (ln_chunks_per_piece l) = nceil P 16384
         \<and> n * nceil P 16384 < 2 ^ 32)"

definition valid_index :: "lengths \<Rightarrow> valid_piece_index \<Rightarrow> bool" where
  "valid_index l i \<longleftrightarrow> vpi_get i \<le> ln_last_piece_id l"

definition piece_bytes :: "lengths \<Rightarrow> nat \<Rightarrow> nat" where
  "piece_bytes l k = min (unat (ln_piece_length l)) (unat (ln_total_length l) - k * unat (ln_piece_length l))"

definition piece_count :: "lengths \<Rightarrow> nat" where
  "piece_count l = nceil (unat (ln_total_length l)) (unat (ln_piece_length l))"

definition piece_chunks :: "lengths \<Rightarrow> nat \<Rightarrow> nat" where
  "piece_chunks l k = nceil (piece_bytes l k) 16384"

lemma CHUNK_SIZE_nat [simp]: "unat CHUNK_SIZE = 16384" "CHUNK_SIZE \<noteq> 0"
  by (simp_all add: CHUNK_SIZE_def)

lemma last_element_nat:
  assumes "(p :: 'a::len word) \<noteq> 0" and "t \<noteq> 0"
  shows "unat (last_element_size t p) = unat t - (nceil (unat t) (unat p) - 1) * unat p"
proof -
  have p: "0 < unat p" and t: "0 < unat t" using assms by (simp_all add: unat_gt_0)
  let ?q = "unat t div unat p" and ?r = "unat t mod unat p"
  have eq: "unat t = ?q * unat p + ?r" by simp
  show ?thesis
  proof (cases "?r = 0")
    case True
    then have "t mod p = 0" using unat_0_iff [of "t mod p"] by (simp add: unat_mod)
    moreover have "0 < ?q" using True t eq by (cases ?q) auto
    moreover from this have "unat p \<le> unat t" using p by (simp add: div_greater_zero_iff)
    ultimately show ?thesis
      using True eq by (simp add: last_element_size_def nceil_def diff_mult_distrib)
  next
    case False
    then have "t mod p \<noteq> 0" using unat_0_iff [of "t mod p"] by (simp add: unat_mod)
    then show ?thesis using False by (simp add: last_element_size_def nceil_def unat_mod minus_div_mult_eq_mod)
  qed
qed

lemma wf_lengthsD:
  assumes "wf_lengths l"
  shows "0 < unat (ln_total_length l)" "0 < unat (ln_piece_length l)"
    "ln_piece_length l \<noteq> 0"
    "Suc (unat (ln_last_piece_id l)) = piece_count l"
    "unat (ln_last_piece_length l) = unat (ln_total_length l) - (piece_count l - 1) * unat (ln_piece_length l)"
    "unat (ln_chunks_per_piece l) = nceil (unat (ln_piece_length l)) 16384"
    "piece_count l * nceil (unat (ln_piece_length l)) 16384 < 4294967296"
  using assms by (auto simp: wf_lengths_def piece_count_def Let_def)

lemma piece_count_bounds:
  assumes "wf_lengths l"
  shows "0 < piece_count l" "piece_count l < 4294967296"
proof -
  note wf = wf_lengthsD [OF assms]
  show "0 < piece_count l" using wf(4) by simp
  have "1 \<le> nceil (unat (ln_piece_length l)) 16384" using wf(2) by (simp add: Suc_le_eq)
  then have "piece_count l * 1 \<le> piece_count l * nceil (unat (ln_piece_length l)) 16384"
    by (rule mult_le_mono2)
  then show "piece_count l < 4294967296" using wf(7) by linarith
qed

lemma less_piece_count: "wf_lengths l \<Longrightarrow> k < piece_count l \<longleftrightarrow> k * unat (ln_piece_length l) < unat (ln_total_length l)"
  unfolding piece_count_def by (rule less_nceil_iff) (rule wf_lengthsD)

lemma valid_index_nat: "wf_lengths l \<Longrightarrow> valid_index l i \<longleftrightarrow> unat (vpi_get i) < piece_count l"
  using wf_lengthsD(4) [of l] by (auto simp: valid_index_def le_nat_u32)

lemma piece_length_nat:
  assumes wf: "wf_lengths l" and i: "valid_index l i"
  shows "unat (piece_length l i) = piece_bytes l (unat (vpi_get i))"
proof (cases "vpi_get i = ln_last_piece_id l")
  case True
  note w = wf_lengthsD [OF wf]
  let ?P = "unat (ln_piece_length l)" and ?T = "unat (ln_total_length l)"
  have n: "unat (ln_last_piece_id l) = piece_count l - 1" using w(4) by simp
  have "\<not> piece_count l * ?P < ?T" using less_piece_count [OF wf, of "piece_count l"] by simp
  moreover have "piece_count l * ?P = (piece_count l - 1) * ?P + ?P"
    using piece_count_bounds(1) [OF wf] by (cases "piece_count l") auto
  ultimately have "?T - (piece_count l - 1) * ?P \<le> ?P" by simp
  then show ?thesis using True w(5) n by (simp add: piece_length_def piece_bytes_def)
next
  case False
  note w = wf_lengthsD [OF wf]
  let ?P = "unat (ln_piece_length l)" and ?T = "unat (ln_total_length l)" and ?k = "unat (vpi_get i)"
  have "?k \<noteq> unat (ln_last_piece_id l)" using False by (simp add: word_unat_eq_iff)
  then have "Suc ?k < piece_count l" using i w(4) valid_index_nat [OF wf] by auto
  then have "Suc ?k * ?P < ?T" using less_piece_count [OF wf] by blast
  then have "?P \<le> ?T - ?k * ?P" by simp
  then show ?thesis using False by (simp add: piece_length_def piece_bytes_def)
qed

lemma chunks_per_piece_nat:
  assumes wf: "wf_lengths l" and i: "valid_index l i"
  shows "unat (chunks_per_piece l i) = piece_chunks l (unat (vpi_get i))"
proof (cases "vpi_get i = ln_last_piece_id l")
  case True
  then have "unat (ln_last_piece_length l) = piece_bytes l (unat (vpi_get i))"
    using piece_length_nat [OF assms] by (simp add: piece_length_def)
  then show ?thesis using True by (simp add: chunks_per_piece_def unat_div_ceil piece_chunks_def)
next
  case False
  then have "unat (ln_piece_length l) = piece_bytes l (unat (vpi_get i))"
    using piece_length_nat [OF assms] by (simp add: piece_length_def)
  then show ?thesis
    using False wf_lengthsD(6) [OF wf] by (simp add: chunks_per_piece_def piece_chunks_def)
qed

lemma piece_bytes_le: "piece_bytes l k \<le> unat (ln_piece_length l)"
  by (simp add: piece_bytes_def)

lemma piece_bytes_pos: "wf_lengths l \<Longrightarrow> k < piece_count l \<Longrightarrow> 0 < piece_bytes l k"
  using wf_lengthsD(2) [of l] by (simp add: piece_bytes_def less_piece_count)

lemma piece_chunks_le:
  "wf_lengths l \<Longrightarrow> piece_chunks l k \<le> unat (ln_chunks_per_piece l)"
  by (simp add: wf_lengthsD(6) piece_chunks_def nceil_mono piece_bytes_le)

lemma piece_chunks_pos: "wf_lengths l \<Longrightarrow> k < piece_count l \<Longrightarrow> 0 < piece_chunks l k"
  by (simp add: piece_chunks_def piece_bytes_pos)

lemma chunk_end_bound:
  assumes wf: "wf_lengths l" and k: "k < piece_count l"
  shows "k * unat (ln_chunks_per_piece l) + piece_chunks l k < 4294967296"
proof -
  let ?C = "unat (ln_chunks_per_piece l)"
  have "k * ?C + piece_chunks l k \<le> k * ?C + ?C" using piece_chunks_le [OF wf] by simp
  also have "\<dots> = Suc k * ?C" by simp
  also have "\<dots> \<le> piece_count l * ?C" using k by (intro mult_le_mono1) simp
  also have "\<dots> < 4294967296" using wf_lengthsD(6,7) [OF wf] by simp
  finally show ?thesis .
qed

lemma chunk_range_nat:
  assumes wf: "wf_lengths l" and i: "valid_index l i"
  shows "chunk_range l i =
    (unat (vpi_get i) * unat (ln_chunks_per_piece l),
     unat (vpi_get i) * unat (ln_chunks_per_piece l) + piece_chunks l (unat (vpi_get i)))"
proof -
  let ?k = "unat (vpi_get i)" and ?C = "unat (ln_chunks_per_piece l)"
  have k: "?k < piece_count l" using i wf by (simp add: valid_index_nat)
  have b: "?k * ?C + piece_chunks l ?k < 2 ^ LENGTH(32)"
    using chunk_end_bound [OF wf k] by simp
  then have s: "unat (vpi_get i * ln_chunks_per_piece l) = ?k * ?C"
    by (intro unat_mult_small) simp
  moreover have "unat (vpi_get i * ln_chunks_per_piece l + chunks_per_piece l i)
      = ?k * ?C + piece_chunks l ?k"
    using b by (subst unat_add_small) (simp_all add: s chunks_per_piece_nat [OF wf i])
  ultimately show ?thesis by (simp add: chunk_range_def Let_def)
qed

lemma total_pieces_nat: "wf_lengths l \<Longrightarrow> unat (total_pieces l) = piece_count l"
  using wf_lengthsD(4) [of l] piece_count_bounds(2) [of l]
  by (simp add: total_pieces_def unat_add_small)

lemma total_chunks_nat:
  assumes wf: "wf_lengths l"
  shows "unat (total_chunks l) =
    (piece_count l - 1) * unat (ln_chunks_per_piece l) + piece_chunks l (piece_count l - 1)"
proof -
  have i: "valid_index l (last_piece_id l)" by (simp add: valid_index_def last_piece_id_def)
  have "unat (total_chunks l) = snd (chunk_range l (last_piece_id l))"
    by (simp add: total_chunks_def chunk_range_def last_piece_id_def default_chunks_per_piece_def Let_def)
  also have "unat (vpi_get (last_piece_id l)) = piece_count l - 1"
    using wf_lengthsD(4) [OF wf] by (simp add: last_piece_id_def)
  ultimately show ?thesis by (simp add: chunk_range_nat [OF wf i])
qed

lemma piece_offset_nat:
  assumes wf: "wf_lengths l" and i: "valid_index l i"
  shows "unat (piece_offset l i) = unat (vpi_get i) * unat (ln_piece_length l)"
proof -
  let ?k = "unat (vpi_get i)"
  have "?k * unat (ln_piece_length l) < unat (ln_total_length l)"
    using i wf by (simp add: valid_index_nat less_piece_count)
  also have "\<dots> < 18446744073709551616" by (rule unat_bound64)
  finally show ?thesis
    by (simp add: piece_offset_def unat_mult_small)
qed

lemma Lengths_new_wf:
  assumes new: "Lengths_new t p = Inr l"
    and fits: "nceil (unat t) (unat p) * nceil (unat p) 16384 < 2 ^ 32"
  shows "wf_lengths l" and "ln_total_length l = t" and "ln_piece_length l = p"
proof -
  from new have t: "t \<noteq> 0" and p: "p \<noteq> 0" by (auto simp: Lengths_new_def split: if_splits)
  let ?n = "nceil (unat t) (unat p)"
  from new t p have l: "l = \<lparr> ln_total_length = t, ln_piece_length = p,
      ln_last_piece_id = ucast (div_ceil t (ucast p)) - 1,
      ln_last_piece_length = ucast (last_element_size t (ucast p)),
      ln_chunks_per_piece = ucast (div_ceil (ucast p :: u64) (ucast CHUNK_SIZE)) \<rparr>"
    by (simp add: Lengths_new_def Let_def)
  then show "ln_total_length l = t" "ln_piece_length l = p" by simp_all
  have tp: "0 < unat t" "0 < unat p" using t p by (simp_all add: unat_gt_0)
  have up: "unat (ucast p :: u64) = unat p" by simp
  have up0: "(ucast p :: u64) \<noteq> 0" using p by simp
  have n0: "0 < ?n" using tp by simp
  have "1 \<le> nceil (unat p) 16384" using tp by (simp add: Suc_le_eq)
  then have "?n * 1 \<le> ?n * nceil (unat p) 16384" by (rule mult_le_mono2)
  then have n: "?n < 2 ^ 32" using fits by linarith
  then have "unat (ucast (div_ceil t (ucast p)) :: u32) = ?n"
    by (simp add: unat_ucast [of "div_ceil t (ucast p)"] unat_div_ceil [OF up0])
  then have id: "Suc (unat (ln_last_piece_id l)) = ?n"
    using l n0 by (simp add: unat_diff_small)
  have lastlen: "unat (last_element_size t (ucast p)) = unat t - (?n - 1) * unat p"
    using last_element_nat [OF up0 t] by (simp add: up)
  also have "\<dots> \<le> unat p"
  proof -
    have "unat t \<le> ?n * unat p" using nceil_le_iff [of "unat p" "unat t" ?n] tp by simp
    also have "\<dots> = (?n - 1) * unat p + unat p" using n0 by (cases ?n) auto
    finally show ?thesis by simp
  qed
  finally have "unat (ln_last_piece_length l) = unat t - (?n - 1) * unat p"
    using l lastlen unat_bound32 [of p] by (simp add: unat_ucast)
  moreover have "unat (ln_chunks_per_piece l) = nceil (unat p) 16384"
  proof -
    have c: "unat (ucast CHUNK_SIZE :: u64) = 16384" by simp
    have c0: "(ucast CHUNK_SIZE :: u64) \<noteq> 0" by simp
    have "nceil (unat p) 16384 < 2 ^ 32"
      using nceil_le [of 16384 "unat p"] unat_bound32 [of p] by simp
    then show ?thesis
      using l by (simp add: unat_ucast [of "div_ceil (ucast p) (ucast CHUNK_SIZE)"] unat_div_ceil [OF c0] c)
  qed
  ultimately show "wf_lengths l" using id tp fits l by (simp add: wf_lengths_def Let_def)
qed

lemma Lengths_new_total:
  "t \<noteq> 0 \<Longrightarrow> p \<noteq> 0 \<Longrightarrow> \<exists>l. Lengths_new t p = Inr l"
  by (simp add: Lengths_new_def Let_def)

section \<open>Chunks of a piece\<close>

definition chunk_at :: "lengths \<Rightarrow> valid_piece_index \<Rightarrow> nat \<Rightarrow> chunk_info" where
  "chunk_at l i c =
     \<lparr> ci_piece_index = i, ci_chunk_index = of_nat c,
       ci_absolute_index = vpi_get i * ln_chunks_per_piece l + of_nat c,
       ci_size = of_nat (min 16384 (piece_bytes l (unat (vpi_get i)) - c * 16384)),
       ci_offset = of_nat (c * 16384) \<rparr>"

lemma chunk_infos_scan_closed:
  "R < 4294967296 \<Longrightarrow>
   chunk_infos_scan i a (of_nat c) (of_nat (c * 16384)) (of_nat R) =
     map (\<lambda>j. \<lparr> ci_piece_index = i, ci_chunk_index = of_nat (c + j),
                 ci_absolute_index = a + of_nat (c + j),
                 ci_size = of_nat (min 16384 (R - j * 16384)),
                 ci_offset = of_nat ((c + j) * 16384) \<rparr>)
         [0..<nceil R 16384]"
proof (induction R arbitrary: c rule: less_induct)
  case (less R)
  show ?case
  proof (cases "R = 0")
    case True
    then show ?thesis by (simp add: chunk_infos_scan.simps)
  next
    case False
    let ?R' = "R - 16384"
    let ?s = "min 16384 R"
    have uR: "unat (of_nat R :: u32) = R" using less.prems by (simp add: unat_small_u32)
    then have R0: "(of_nat R :: u32) \<noteq> 0" using False by (metis unat_0)
    have s: "min (of_nat R :: u32) CHUNK_SIZE = of_nat ?s"
      using uR by (intro iffD2 [OF word_unat_eq_iff]) (simp add: unat_min unat_small_u32 min.commute)
    have sub: "(of_nat R :: u32) - of_nat ?s = of_nat ?R'"
    proof -
      have "R = ?R' + ?s" by simp
      then have "(of_nat R :: u32) = of_nat ?R' + of_nat ?s" by (metis of_nat_add)
      then show ?thesis by simp
    qed
    have off: "(of_nat (c * 16384) :: u32) + of_nat ?s = of_nat (Suc c * 16384)" if "16384 \<le> R"
      using that by (simp add: algebra_simps)
    have step: "chunk_infos_scan i a (of_nat c) (of_nat (c * 16384)) (of_nat R) =
      \<lparr> ci_piece_index = i, ci_chunk_index = of_nat c, ci_absolute_index = a + of_nat c,
        ci_size = of_nat ?s, ci_offset = of_nat (c * 16384) \<rparr>
      # chunk_infos_scan i a (of_nat (Suc c)) (of_nat (c * 16384) + of_nat ?s) (of_nat ?R')"
      using R0 by (subst chunk_infos_scan.simps) (simp add: s sub Let_def add.commute)
    have rest: "chunk_infos_scan i a (of_nat (Suc c)) (of_nat (c * 16384) + of_nat ?s) (of_nat ?R')
      = map (\<lambda>j. \<lparr> ci_piece_index = i, ci_chunk_index = of_nat (Suc c + j),
                 ci_absolute_index = a + of_nat (Suc c + j),
                 ci_size = of_nat (min 16384 (?R' - j * 16384)),
                 ci_offset = of_nat ((Suc c + j) * 16384) \<rparr>)
         [0..<nceil ?R' 16384]"
    proof (cases "16384 \<le> R")
      case True
      then show ?thesis using less.IH [of ?R' "Suc c"] less.prems False by (simp only: off [OF True])
    next
      case small: False
      then have "?R' = 0" by simp
      then show ?thesis by (simp add: chunk_infos_scan.simps)
    qed
    have "nceil R 16384 = Suc (nceil ?R' 16384)" using False by (simp add: nceil_step)
    then have upt: "[0..<nceil R 16384] = 0 # map Suc [0..<nceil ?R' 16384]"
      by (simp add: upt_conv_Cons map_Suc_upt del: upt_Suc)
    show ?thesis
      unfolding step rest upt by (simp add: o_def min.commute algebra_simps)
  qed
qed

lemma iter_chunk_infos_closed:
  assumes wf: "wf_lengths l" and i: "valid_index l i"
  shows "iter_chunk_infos l i = map (chunk_at l i) [0..<piece_chunks l (unat (vpi_get i))]"
proof -
  have "piece_length l i = of_nat (piece_bytes l (unat (vpi_get i)))"
    unfolding piece_length_nat [OF assms, symmetric] by simp
  moreover have "piece_bytes l (unat (vpi_get i)) < 4294967296"
    using piece_length_nat [OF assms] unat_bound32 [of "piece_length l i"] by simp
  ultimately show ?thesis
    using chunk_infos_scan_closed [of _ i "vpi_get i * ln_chunks_per_piece l" 0]
    by (simp add: iter_chunk_infos_def piece_chunks_def chunk_at_def)
qed

text \<open>The numbers a chunk of a valid piece carries, none of which wraps.\<close>

lemma chunk_at_nat:
  assumes wf: "wf_lengths l" and i: "valid_index l i" and c: "c < piece_chunks l (unat (vpi_get i))"
  shows "unat (ci_chunk_index (chunk_at l i c)) = c"
    "unat (ci_absolute_index (chunk_at l i c)) = unat (vpi_get i) * unat (ln_chunks_per_piece l) + c"
    "unat (ci_size (chunk_at l i c)) = min 16384 (piece_bytes l (unat (vpi_get i)) - c * 16384)"
    "unat (ci_offset (chunk_at l i c)) = c * 16384"
    "c * 16384 < piece_bytes l (unat (vpi_get i))"
proof -
  let ?k = "unat (vpi_get i)" and ?C = "unat (ln_chunks_per_piece l)"
  have k: "?k < piece_count l" using i wf by (simp add: valid_index_nat)
  have e: "?k * ?C + piece_chunks l ?k < 4294967296" by (rule chunk_end_bound [OF wf k])
  show cb: "c * 16384 < piece_bytes l ?k" using c by (simp add: piece_chunks_def less_nceil_iff)
  have pb: "piece_bytes l ?k < 4294967296"
    using piece_bytes_le [of l ?k] unat_bound32 [of "ln_piece_length l"] by linarith
  show u: "unat (ci_chunk_index (chunk_at l i c)) = c"
    using c e by (simp add: chunk_at_def unat_small_u32)
  have "unat (vpi_get i * ln_chunks_per_piece l) = ?k * ?C"
    using chunk_range_nat [OF wf i] by (simp add: chunk_range_def Let_def)
  then show "unat (ci_absolute_index (chunk_at l i c)) = ?k * ?C + c"
    using c e u by (simp add: chunk_at_def unat_add_small)
  show "unat (ci_size (chunk_at l i c)) = min 16384 (piece_bytes l ?k - c * 16384)"
    by (simp add: chunk_at_def unat_small_u32)
  show "unat (ci_offset (chunk_at l i c)) = c * 16384"
    using cb pb by (simp add: chunk_at_def unat_small_u32 del: of_nat_mult)
qed

lemma chunk_size_nat:
  assumes wf: "wf_lengths l" and i: "valid_index l i"
  shows "chunk_size l i c =
    (if unat c < piece_chunks l (unat (vpi_get i))
     then Some (of_nat (min 16384 (piece_bytes l (unat (vpi_get i)) - unat c * 16384))) else None)"
proof -
  let ?B = "piece_bytes l (unat (vpi_get i))" and ?n = "piece_chunks l (unat (vpi_get i))"
  have k: "unat (vpi_get i) < piece_count l" using i wf by (simp add: valid_index_nat)
  have B: "unat (piece_length l i) = ?B" by (rule piece_length_nat [OF assms])
  have n0: "0 < ?n" by (rule piece_chunks_pos [OF wf k])
  have n: "unat (div_ceil (piece_length l i) CHUNK_SIZE) = ?n"
    by (simp add: unat_div_ceil B piece_chunks_def)
  then have last: "unat (div_ceil (piece_length l i) CHUNK_SIZE - 1) = ?n - 1"
    using n0 by (simp add: unat_diff_small)
  have pl0: "piece_length l i \<noteq> 0" using B piece_bytes_pos [OF wf k] by auto
  have lst: "unat (last_element_size (piece_length l i) CHUNK_SIZE) = ?B - (?n - 1) * 16384"
    using last_element_nat [OF CHUNK_SIZE_nat(2) pl0] by (simp add: B piece_chunks_def)
  have le: "?B \<le> ?n * 16384" using nceil_le_iff [of 16384 ?B ?n] by (simp add: piece_chunks_def)
  consider "unat c < ?n - 1" | "unat c = ?n - 1" | "?n \<le> unat c" by linarith
  then show ?thesis
  proof cases
    case 1
    have "\<not> nceil ?B 16384 \<le> Suc (unat c)" using 1 by (simp add: piece_chunks_def)
    then have "16384 \<le> ?B - unat c * 16384" by (simp add: nceil_le_iff)
    then show ?thesis
      using 1 last by (simp add: chunk_size_def Let_def word_less_nat_alt CHUNK_SIZE_def min_absorb1)
  next
    case 2
    have "?B - (?n - 1) * 16384 \<le> 16384" using le n0 by (cases ?n) auto
    moreover have "of_nat (?B - (?n - 1) * 16384) = last_element_size (piece_length l i) CHUNK_SIZE"
      unfolding lst [symmetric] by simp
    moreover have "c = div_ceil (piece_length l i) CHUNK_SIZE - 1"
      using 2 last by (simp add: word_unat_eq_iff)
    ultimately show ?thesis using 2 n0 by (simp add: chunk_size_def Let_def min_absorb2)
  next
    case 3
    then have "\<not> c < div_ceil (piece_length l i) CHUNK_SIZE - 1"
      "c \<noteq> div_ceil (piece_length l i) CHUNK_SIZE - 1"
      using last n0 by (auto simp: word_less_nat_alt)
    then show ?thesis using 3 by (simp add: chunk_size_def Let_def)
  qed
qed

lemma received_data_iff:
  assumes wf: "wf_lengths l" and i: "valid_index l i"
  shows "chunk_info_from_received_data l i b s = Some c \<longleftrightarrow>
    c \<in> set (iter_chunk_infos l i) \<and> ci_offset c = b \<and> ci_size c = s"
proof -
  let ?B = "piece_bytes l (unat (vpi_get i))" and ?n = "piece_chunks l (unat (vpi_get i))"
  let ?x = "b div CHUNK_SIZE"
  have x: "unat ?x = unat b div 16384" by (simp add: unat_div)
  have off: "chunk_offset_in_piece l i ?x = (if unat ?x < ?n then Some (?x * CHUNK_SIZE) else None)"
    by (simp add: chunk_offset_in_piece_def le_nat_u32 chunks_per_piece_nat [OF assms])
  have mul: "unat (?x * CHUNK_SIZE) = unat b div 16384 * 16384"
    using unat_bound32 [of b] by (subst unat_mult_small) (auto simp: x intro: le_less_trans [OF div_times_less_eq_dividend])
  have L: "chunk_info_from_received_data l i b s = Some c \<longleftrightarrow>
     unat ?x < ?n \<and> ?x * CHUNK_SIZE = b \<and> of_nat (min 16384 (?B - unat ?x * 16384)) = s \<and>
     c = \<lparr> ci_piece_index = i, ci_chunk_index = ?x,
           ci_absolute_index = ln_chunks_per_piece l * vpi_get i + ?x, ci_size = s, ci_offset = b \<rparr>"
    by (auto simp: chunk_info_from_received_data_def Let_def chunk_size_nat [OF assms] off)
  have at: "c = chunk_at l i (unat ?x)" if "?x * CHUNK_SIZE = b"
    "of_nat (min 16384 (?B - unat ?x * 16384)) = s"
    "c = \<lparr> ci_piece_index = i, ci_chunk_index = ?x,
           ci_absolute_index = ln_chunks_per_piece l * vpi_get i + ?x, ci_size = s, ci_offset = b \<rparr>"
  proof -
    have "(of_nat (unat ?x * 16384) :: u32) = b"
      using that(1) by (simp add: CHUNK_SIZE_def)
    then show ?thesis using that(2,3) by (simp add: chunk_at_def mult.commute del: of_nat_mult)
  qed
  show ?thesis
  proof
    assume "chunk_info_from_received_data l i b s = Some c"
    note R = this [unfolded L]
    from R have "c = chunk_at l i (unat ?x)" using at by blast
    then have "c \<in> set (iter_chunk_infos l i)"
      using R by (auto simp: iter_chunk_infos_closed [OF assms])
    moreover have "ci_offset c = b \<and> ci_size c = s" using R by auto
    ultimately show "c \<in> set (iter_chunk_infos l i) \<and> ci_offset c = b \<and> ci_size c = s" by blast
  next
    assume "c \<in> set (iter_chunk_infos l i) \<and> ci_offset c = b \<and> ci_size c = s"
    then obtain j where j: "j < ?n" and c: "c = chunk_at l i j" and b: "b = ci_offset (chunk_at l i j)"
      and s: "s = ci_size (chunk_at l i j)"
      by (auto simp: iter_chunk_infos_closed [OF assms])
    have ub: "unat b = j * 16384" using b chunk_at_nat(4) [OF assms j] by simp
    then have ux: "unat ?x = j" by (simp add: x)
    have "?x * CHUNK_SIZE = b" using mul ub by (simp add: word_unat_eq_iff)
    moreover have "?x = of_nat j" unfolding ux [symmetric] by simp
    ultimately show "chunk_info_from_received_data l i b s = Some c"
      using j c s b ux unfolding L by (auto simp: chunk_at_def mult.commute)
  qed
qed

section \<open>Pieces tile the torrent\<close>

lemma piece_bytes_sum:
  "(\<Sum>j<k. piece_bytes l j) = min (k * unat (ln_piece_length l)) (unat (ln_total_length l))"
proof (induction k)
  case 0
  then show ?case by simp
next
  case (Suc k)
  show ?case
    unfolding sum.lessThan_Suc Suc piece_bytes_def [of l k] mult_Suc by linarith
qed

lemma piece_bytes_total:
  assumes "wf_lengths l"
  shows "(\<Sum>j<piece_count l. piece_bytes l j) = unat (ln_total_length l)"
proof -
  have "\<not> piece_count l * unat (ln_piece_length l) < unat (ln_total_length l)"
    using less_piece_count [OF assms, of "piece_count l"] by simp
  then show ?thesis by (simp add: piece_bytes_sum)
qed

lemma iter_piece_infos_nth:
  assumes wf: "wf_lengths l" and k: "k < piece_count l"
  shows "iter_piece_infos l ! k =
      \<lparr> pi_piece_index = ValidPieceIndex (of_nat k),
        pi_len = piece_length l (ValidPieceIndex (of_nat k)) \<rparr>"
    and "length (iter_piece_infos l) = piece_count l"
    and "valid_index l (ValidPieceIndex (of_nat k))"
    and "unat (of_nat k :: u32) = k"
proof -
  show "iter_piece_infos l ! k =
      \<lparr> pi_piece_index = ValidPieceIndex (of_nat k),
        pi_len = piece_length l (ValidPieceIndex (of_nat k)) \<rparr>"
    using k by (simp add: iter_piece_infos_def total_pieces_nat [OF wf] piece_length_def Let_def)
  show "length (iter_piece_infos l) = piece_count l"
    by (simp add: iter_piece_infos_def total_pieces_nat [OF wf])
  show "unat (of_nat k :: u32) = k"
    using k piece_count_bounds(2) [OF wf] by (simp add: unat_small_u32)
  then show "valid_index l (ValidPieceIndex (of_nat k))"
    using k by (simp add: valid_index_nat [OF wf])
qed

section \<open>Byte ranges and pieces\<close>

lemma iter_pieces_within_offset_nat:
  assumes wf: "wf_lengths l" and ovf: "unat off + unat len < 2 ^ 64"
  shows "\<exists>s e. iter_pieces_within_offset l off len = Inr (s, e) \<and>
    (\<forall>k. unat s \<le> k \<and> k < unat e \<longleftrightarrow>
      (\<exists>b. unat off \<le> b \<and> b < unat off + unat len \<and> b < unat (ln_total_length l) \<and>
           b div unat (ln_piece_length l) = k))"
proof -
  note w = wf_lengthsD [OF wf]
  let ?T = "unat (ln_total_length l)" and ?P = "unat (ln_piece_length l)"
  let ?o = "min off (ln_total_length l)"
  let ?e = "min (?o + len) (ln_total_length l)"
  have o: "unat ?o = min (unat off) ?T" by (simp add: unat_min)
  have "unat ?o + unat len < 2 ^ LENGTH(64)" using ovf o by simp
  then have "unat (?o + len) = unat ?o + unat len" by (rule unat_add_small)
  then have e: "unat ?e = min (min (unat off) ?T + unat len) ?T" by (simp only: unat_min o)
  have P0: "(ucast (ln_piece_length l) :: u64) \<noteq> 0" using w(3) by simp
  have n: "nceil ?T ?P < 4294967296" using piece_count_bounds(2) [OF wf] by (simp add: piece_count_def)
  have ns: "?T div ?P \<le> nceil ?T ?P" by (simp add: nceil_def)
  have "unat ?o div ?P \<le> ?T div ?P" by (rule div_le_mono) (simp add: o)
  then have s: "unat (ucast (?o div ucast (ln_piece_length l)) :: u32) = unat ?o div ?P"
    using n ns by (simp add: unat_ucast unat_div)
  have "nceil (unat ?e) ?P \<le> nceil ?T ?P" by (rule nceil_mono [OF w(2)]) (simp add: e)
  then have t: "unat (ucast (div_ceil ?e (ucast (ln_piece_length l))) :: u32) = nceil (unat ?e) ?P"
    using n by (simp add: unat_ucast [of "div_ceil ?e (ucast (ln_piece_length l))"] unat_div_ceil [OF P0])
  let ?s = "ucast (?o div ucast (ln_piece_length l)) :: u32"
  let ?t = "if ?e = ?o then ?s else ucast (div_ceil ?e (ucast (ln_piece_length l)))"
  have "iter_pieces_within_offset l off len = Inr (?s, ?t)"
    using P0 by (simp add: iter_pieces_within_offset_def Let_def)
  moreover have "unat ?s \<le> k \<and> k < unat ?t \<longleftrightarrow>
      (\<exists>b. unat off \<le> b \<and> b < unat off + unat len \<and> b < ?T \<and> b div ?P = k)" for k
  proof (cases "?e = ?o")
    case True
    then have "min (min (unat off) ?T + unat len) ?T = min (unat off) ?T" using o e by simp
    then have "\<not> (unat off \<le> b \<and> b < unat off + unat len \<and> b < ?T)" for b by linarith
    then show ?thesis using True by auto
  next
    case False
    then have "unat ?e \<noteq> unat ?o" by (simp add: word_unat_eq_iff)
    then have lt: "unat ?o < unat ?e" using o e by linarith
    then have oo: "unat ?o = unat off" using o e by linarith
    have ee: "unat ?e = min (unat off + unat len) ?T" using o e oo by simp
    have "unat ?s \<le> k \<and> k < unat ?t \<longleftrightarrow> unat off div ?P \<le> k \<and> k * ?P < unat ?e"
      using False s t less_nceil_iff [OF w(2), of k "unat ?e"] oo by simp
    also have "\<dots> \<longleftrightarrow> (\<exists>b. unat off \<le> b \<and> b < unat ?e \<and> b div ?P = k)"
    proof
      assume a: "unat off div ?P \<le> k \<and> k * ?P < unat ?e"
      have "max (unat off) (k * ?P) div ?P = k"
      proof (cases "unat off \<le> k * ?P")
        case True
        then show ?thesis using w(2) by (simp add: max_def)
      next
        case False
        then have "k \<le> unat off div ?P" using w(2) by (simp add: less_eq_div_iff_mult_less_eq)
        then show ?thesis using a False by (simp add: max_def)
      qed
      then show "\<exists>b. unat off \<le> b \<and> b < unat ?e \<and> b div ?P = k"
        using a lt oo by (intro exI [of _ "max (unat off) (k * ?P)"]) auto
    next
      assume "\<exists>b. unat off \<le> b \<and> b < unat ?e \<and> b div ?P = k"
      then obtain b where b: "unat off \<le> b" "b < unat ?e" "b div ?P = k" by blast
      then show "unat off div ?P \<le> k \<and> k * ?P < unat ?e"
        using div_le_mono [OF b(1), of ?P] div_times_less_eq_dividend [of b ?P] by auto
    qed
    finally show ?thesis unfolding ee by auto
  qed
  ultimately show ?thesis by blast
qed

text \<open>The overlap of piece \<open>k\<close> with the bytes \<open>[a, e)\<close>, as a number.\<close>

definition piece_overlap :: "lengths \<Rightarrow> nat \<Rightarrow> nat \<Rightarrow> nat \<Rightarrow> nat" where
  "piece_overlap l k a e =
     min e (Suc k * unat (ln_piece_length l)) - max a (k * unat (ln_piece_length l))"

lemma size_of_piece_in_file_nat:
  assumes "unat off + unat len < 2 ^ 64"
  shows "unat (size_of_piece_in_file l p off len) =
    piece_overlap l (unat p) (unat off) (unat off + unat len)"
proof -
  let ?P = "unat (ln_piece_length l)"
  have P: "?P \<le> 4294967295" and p: "unat p \<le> 4294967295"
    using unat_bound32 [of "ln_piece_length l"] unat_bound32 [of p] by simp_all
  have "unat p * ?P \<le> 4294967295 * 4294967295" by (rule mult_le_mono [OF p P])
  then have m: "unat p * ?P + ?P < 2 ^ LENGTH(64)" using P by simp
  then have po: "unat (ucast p * ucast (ln_piece_length l) :: u64) = unat p * ?P"
    by (simp add: unat_mult_small)
  then have pe: "unat (ucast p * ucast (ln_piece_length l) + ucast (ln_piece_length l) :: u64) = Suc (unat p) * ?P"
    using m by (simp add: unat_add_small)
  have fe: "unat (off + len) = unat off + unat len" using assms by (simp add: unat_add_small)
  let ?a = "max off (ucast p * ucast (ln_piece_length l))"
  let ?e = "min (off + len) (ucast p * ucast (ln_piece_length l) + ucast (ln_piece_length l))"
  have a: "unat ?a = max (unat off) (unat p * ?P)" by (simp only: unat_max po)
  have e: "unat ?e = min (unat off + unat len) (Suc (unat p) * ?P)" by (simp only: unat_min pe fe)
  show ?thesis
  proof (cases "?e < ?a")
    case True
    then have "unat ?e < unat ?a" by (simp add: word_less_nat_alt)
    then have "piece_overlap l (unat p) (unat off) (unat off + unat len) = 0"
      unfolding piece_overlap_def using a e by simp
    then show ?thesis
      using True by (simp add: size_of_piece_in_file_def default_piece_length_def Let_def)
  next
    case False
    then have "unat ?a \<le> unat ?e" by (simp add: word_less_nat_alt)
    then have "unat (?e - ?a) = unat ?e - unat ?a" by (rule unat_diff_small)
    also have "\<dots> = piece_overlap l (unat p) (unat off) (unat off + unat len)"
      unfolding piece_overlap_def a e ..
    finally show ?thesis
      using False by (simp add: size_of_piece_in_file_def default_piece_length_def Let_def)
  qed
qed

lemma piece_overlap_sum:
  "a \<le> e \<Longrightarrow> (\<Sum>j<k. piece_overlap l j a e) =
     min e (k * unat (ln_piece_length l)) - min a (k * unat (ln_piece_length l))"
proof (induction k)
  case 0
  then show ?case by simp
next
  case (Suc k)
  define x where "x = k * unat (ln_piece_length l)"
  have "Suc k * unat (ln_piece_length l) = x + unat (ln_piece_length l)" by (simp add: x_def)
  then show ?case
    using Suc unfolding sum.lessThan_Suc piece_overlap_def x_def [symmetric]
    by (simp add: min_def max_def)
qed

lemma piece_overlap_total:
  assumes wf: "wf_lengths l" and "a \<le> e" and "e \<le> unat (ln_total_length l)"
  shows "(\<Sum>j<piece_count l. piece_overlap l j a e) = e - a"
proof -
  have "\<not> piece_count l * unat (ln_piece_length l) < unat (ln_total_length l)"
    using less_piece_count [OF wf, of "piece_count l"] by simp
  then show ?thesis using assms by (simp add: piece_overlap_sum)
qed

lemma compute_current_piece_nat:
  assumes wf: "wf_lengths l" and pos: "unat base + unat pos < unat (ln_total_length l)"
  shows "\<exists>c. compute_current_piece l pos base = Inr (Some c) \<and>
     valid_index l (cp_id c) \<and>
     unat (vpi_get (cp_id c)) = (unat base + unat pos) div unat (ln_piece_length l) \<and>
     unat (cp_piece_remaining c) =
       piece_bytes l (unat (vpi_get (cp_id c))) - (unat base + unat pos) mod unat (ln_piece_length l) \<and>
     cp_piece_offset c = vpi_get (cp_id c)"
proof -
  note w = wf_lengthsD [OF wf]
  let ?P = "unat (ln_piece_length l)" and ?a = "base + pos" and ?T = "unat (ln_total_length l)"
  let ?dpl = "ucast (ln_piece_length l) :: u64"
  have a: "unat ?a = unat base + unat pos"
    using pos unat_bound64 [of "ln_total_length l"] by (simp add: unat_add_small)
  have q: "unat (?a div ?dpl) = (unat base + unat pos) div ?P" by (simp add: unat_div a)
  have r: "unat (?a mod ?dpl) = (unat base + unat pos) mod ?P" by (simp add: unat_mod a)
  have qP: "(unat base + unat pos) div ?P * ?P \<le> unat base + unat pos"
    by (rule div_times_less_eq_dividend)
  then have "(unat base + unat pos) div ?P * ?P < ?T" using pos by linarith
  then have qn: "(unat base + unat pos) div ?P < piece_count l"
    by (simp only: less_piece_count [OF wf])
  define i where "i = ValidPieceIndex (ucast (?a div ?dpl))"
  have ui: "unat (vpi_get i) = (unat base + unat pos) div ?P"
    using q qn piece_count_bounds(2) [OF wf] by (simp add: i_def unat_ucast)
  then have vi: "valid_index l i" using qn by (simp add: valid_index_nat [OF wf])
  have t1: "u32_try_from (?a div ?dpl) = Some (vpi_get i)"
    using q qn piece_count_bounds(2) [OF wf] by (simp add: u32_try_from_def i_def)
  have t2: "validate_piece_index l (vpi_get i) = Some i"
    using vi by (simp add: validate_piece_index_def valid_index_def not_less)
  let ?x = "ucast (piece_length l i) - ?a mod ?dpl"
  have pb: "unat (piece_length l i) = piece_bytes l (unat (vpi_get i))" by (rule piece_length_nat [OF wf vi])
  have "(unat base + unat pos) mod ?P \<le> piece_bytes l (unat (vpi_get i))"
  proof -
    have "(unat base + unat pos) mod ?P < ?P" using w(2) by simp
    moreover have "(unat base + unat pos) mod ?P = unat base + unat pos - unat (vpi_get i) * ?P"
      by (simp add: ui minus_div_mult_eq_mod)
    ultimately show ?thesis using pos by (simp add: piece_bytes_def)
  qed
  then have x: "unat ?x = piece_bytes l (unat (vpi_get i)) - (unat base + unat pos) mod ?P"
    using pb r by (simp add: unat_diff_small)
  then have "unat ?x < 2 ^ 32"
    using pb unat_bound32 [of "piece_length l i"] by simp
  then have t3: "u32_try_from ?x = Some (ucast ?x)" "unat (ucast ?x :: u32) = unat ?x"
    by (simp_all add: u32_try_from_def unat_ucast)
  have P0: "?dpl \<noteq> 0" using w(3) by simp
  have "compute_current_piece l pos base =
      Inr (Some \<lparr> cp_id = i, cp_piece_remaining = ucast ?x, cp_piece_offset = vpi_get i \<rparr>)"
    using P0 t1 t2 t3(1) by (simp add: compute_current_piece_def default_piece_length_def Let_def)
  then show ?thesis using vi ui t3(2) x by simp
qed

section \<open>The chunk layout contract\<close>

lemma index_of_nat:
  assumes "wf_lengths l" "k < piece_count l"
  shows "valid_index l (ValidPieceIndex (of_nat k))" "unat (of_nat k :: u32) = k"
proof -
  show "unat (of_nat k :: u32) = k"
    using assms(2) piece_count_bounds(2) [OF assms(1)] by (simp add: unat_small_u32)
  then show "valid_index l (ValidPieceIndex (of_nat k))"
    using assms by (simp add: valid_index_nat)
qed

definition range_of :: "lengths \<Rightarrow> nat \<Rightarrow> nat \<times> nat" where
  "range_of l k = chunk_range l (ValidPieceIndex (of_nat k))"

lemma range_of_nat:
  "wf_lengths l \<Longrightarrow> k < piece_count l \<Longrightarrow>
   range_of l k = (k * unat (ln_chunks_per_piece l), k * unat (ln_chunks_per_piece l) + piece_chunks l k)"
  using chunk_range_nat [OF _ index_of_nat(1)] index_of_nat(2) by (simp add: range_of_def)

lemma range_of_index: "range_of l (unat (vpi_get i)) = chunk_range l i"
  by (simp add: range_of_def)

text \<open>Every piece but the last has the full number of chunks.\<close>

lemma piece_chunks_full:
  assumes wf: "wf_lengths l" and k: "Suc k < piece_count l"
  shows "piece_chunks l k = unat (ln_chunks_per_piece l)"
proof -
  have "Suc k * unat (ln_piece_length l) < unat (ln_total_length l)"
    using k less_piece_count [OF wf] by blast
  then have "piece_bytes l k = unat (ln_piece_length l)" by (simp add: piece_bytes_def)
  then show ?thesis by (simp add: piece_chunks_def wf_lengthsD(6) [OF wf])
qed

interpretation lay: chunk_layout wf_lengths piece_count range_of "\<lambda>l. unat (total_chunks l)"
proof
  fix l k
  assume wf: "wf_lengths l" and k: "k < piece_count l"
  let ?C = "unat (ln_chunks_per_piece l)"
  show "fst (range_of l k) < snd (range_of l k)"
    using piece_chunks_pos [OF wf k] by (simp add: range_of_nat [OF wf k])
  show "snd (range_of l k) \<le> unat (total_chunks l)"
  proof (cases "Suc k = piece_count l")
    case True
    then have "k = piece_count l - 1" by simp
    then show ?thesis using range_of_nat [OF wf k] total_chunks_nat [OF wf] by simp
  next
    case False
    have "snd (range_of l k) \<le> k * ?C + ?C"
      using range_of_nat [OF wf k] piece_chunks_le [OF wf] by simp
    also have "\<dots> = Suc k * ?C" by simp
    also have "\<dots> \<le> (piece_count l - 1) * ?C" using False k by (intro mult_le_mono1) simp
    also have "\<dots> \<le> unat (total_chunks l)" by (simp add: total_chunks_nat [OF wf])
    finally show ?thesis .
  qed
next
  fix l j k
  assume wf: "wf_lengths l" and j: "j < k" and k: "k < piece_count l"
  let ?C = "unat (ln_chunks_per_piece l)"
  have "j < piece_count l" using j k by simp
  then have "snd (range_of l j) \<le> Suc j * ?C"
    using range_of_nat [OF wf, of j] piece_chunks_le [OF wf, of j] by simp
  also have "\<dots> \<le> k * ?C" using j by (intro mult_le_mono1) simp
  finally show "snd (range_of l j) \<le> fst (range_of l k)" by (simp add: range_of_nat [OF wf k])
next
  fix l x
  assume wf: "wf_lengths l" and x: "x < unat (total_chunks l)"
  let ?C = "unat (ln_chunks_per_piece l)" and ?n = "piece_count l"
  have C: "0 < ?C" using wf_lengthsD(2,6) [OF wf] by simp
  define k where "k = min (x div ?C) (?n - 1)"
  have k: "k < ?n" using piece_count_bounds(1) [OF wf] by (simp add: k_def)
  have lo: "k * ?C \<le> x"
  proof -
    have "k * ?C \<le> x div ?C * ?C" by (intro mult_le_mono1) (simp add: k_def)
    then show ?thesis using div_times_less_eq_dividend [of x ?C] by linarith
  qed
  have hi: "x < k * ?C + piece_chunks l k"
  proof (cases "Suc k = ?n")
    case True
    then have "k = ?n - 1" by simp
    then show ?thesis using x by (simp add: total_chunks_nat [OF wf])
  next
    case False
    then have "k = x div ?C" using k by (auto simp: k_def)
    then have "x < Suc k * ?C" using C dividend_less_div_times [of ?C x] by simp
    then show ?thesis using False k by (simp add: piece_chunks_full [OF wf])
  qed
  show "\<exists>k < ?n. fst (range_of l k) \<le> x \<and> x < snd (range_of l k)"
    using k lo hi by (intro exI [of _ k]) (simp add: range_of_nat [OF wf])
qed

end
