(* ===== verification/Lengths_Correct.thy ===== *)
theory Lengths_Correct
  imports Lengths
begin

text \<open>
  What the arithmetic of \<^verbatim>\<open>lengths.rs\<close> guarantees to its clients: pieces and chunks tile the torrent,
  received blocks are exactly the chunks of the piece, byte ranges map to the pieces they touch. The
  hypothesis \<open>wf_lengths\<close> holds for every value that \<^verbatim>\<open>Lengths::new\<close> returns for a torrent with fewer
  than \<open>2 ^ 32\<close> chunks.
\<close>

definition sample_lengths :: lengths where
  "sample_lengths = \<lparr> ln_total_length = 40000, ln_piece_length = 32768, ln_last_piece_id = 1,
     ln_last_piece_length = 7232, ln_chunks_per_piece = 2 \<rparr>"

lemma sample_lengths_new: "Lengths_new 40000 32768 = Inr sample_lengths"
  by (simp add: Lengths_new_def sample_lengths_def div_ceil_def last_element_size_def CHUNK_SIZE_def Let_def)

lemma sample_lengths_wf [simp]: "wf_lengths sample_lengths"
  by (simp add: wf_lengths_def sample_lengths_def nceil_def)

lemma sample_valid [simp]: "valid_index sample_lengths (ValidPieceIndex 1)" "valid_index sample_lengths (ValidPieceIndex 0)"
  by (simp_all add: valid_index_def sample_lengths_def)

lemma chunk_sizes_prefix:
  "c \<le> nceil R 16384 \<Longrightarrow> (\<Sum>j<c. min 16384 (R - j * 16384)) = min R (c * 16384)" for R c :: nat
proof (induction c)
  case (Suc c)
  then have "c * 16384 < R" using less_nceil_iff [of 16384 c R] by simp
  then show ?case using Suc by simp
qed simp

lemma iter_chunk_infos_sizes:
  assumes wf: "wf_lengths l" and i: "valid_index l i"
    and c: "c \<le> length (iter_chunk_infos l i)"
  shows "sum_list (map (\<lambda>ci. unat (ci_size ci)) (take c (iter_chunk_infos l i)))
    = min (piece_bytes l (unat (vpi_get i))) (c * 16384)"
proof -
  let ?n = "piece_chunks l (unat (vpi_get i))"
  have n: "c \<le> ?n" using c by (simp add: iter_chunk_infos_closed [OF wf i])
  have "map (\<lambda>ci. unat (ci_size ci)) (take c (iter_chunk_infos l i)) =
      map (\<lambda>j. min 16384 (piece_bytes l (unat (vpi_get i)) - j * 16384)) [0..<c]"
    using n by (simp add: iter_chunk_infos_closed [OF wf i] take_map chunk_at_nat [OF wf i])
  then show ?thesis
    using chunk_sizes_prefix [of c "piece_bytes l (unat (vpi_get i))"] n
    by (simp add: interv_sum_list_conv_sum_set_nat atLeast0LessThan piece_chunks_def)
qed

lemma chunk_at_absolute:
  assumes wf: "wf_lengths l" and i: "valid_index l i" and c: "c < piece_chunks l (unat (vpi_get i))"
  shows "unat (chunk_absolute_offset l (chunk_at l i c)) =
    unat (vpi_get i) * unat (ln_piece_length l) + c * 16384"
proof -
  have o: "unat (ci_offset (chunk_at l i c)) = c * 16384" and b: "c * 16384 < piece_bytes l (unat (vpi_get i))"
    by (rule chunk_at_nat [OF wf i c])+
  have "unat (ln_total_length l) < 2 ^ 64" using unat_bound64 by simp
  then have "unat (vpi_get i) * unat (ln_piece_length l) + c * 16384 < 2 ^ 64"
    using b by (auto simp: piece_bytes_def less_diff_conv)
  then show ?thesis
    using o by (simp add: chunk_absolute_offset_def chunk_at_def [of l i c] unat_word_ariths(1)
        piece_offset_nat [OF wf i] wnat)
qed

text \<open>
  C15: the pieces of a torrent cover its bytes exactly once: their lengths add up to the total length.
  The chunks of each piece in turn cover the piece: their sizes add up to the length of the piece, and
  chunk number \<open>c\<close> starts in the torrent where the pieces before it and the chunks before it end.
\<close>
theorem pieces_and_chunks_tile:
  assumes new: "Lengths_new t p = Inr l"
    and fits: "nceil (unat t) (unat p) * nceil (unat p) 16384 < 2 ^ 32"
  shows "sum_list (map (\<lambda>pi. unat (pi_len pi)) (iter_piece_infos l)) = unat t
    \<and> (\<forall>k < length (iter_piece_infos l).
        let pi = iter_piece_infos l ! k; cs = iter_chunk_infos l (pi_piece_index pi) in
          sum_list (map (\<lambda>ci. unat (ci_size ci)) cs) = unat (pi_len pi)
          \<and> (\<forall>c < length cs. unat (chunk_absolute_offset l (cs ! c)) =
                sum_list (map (\<lambda>pi. unat (pi_len pi)) (take k (iter_piece_infos l)))
                + sum_list (map (\<lambda>ci. unat (ci_size ci)) (take c cs))))"
proof -
  have wf: "wf_lengths l" and t: "ln_total_length l = t" and p: "ln_piece_length l = p"
    using Lengths_new_wf [OF new fits] .
  note nth = iter_piece_infos_nth [OF wf]
  have len: "length (iter_piece_infos l) = piece_count l"
    using nth(2) [of 0] piece_count_bounds [OF wf] by simp
  have lens: "sum_list (map (\<lambda>pi. unat (pi_len pi)) (take k (iter_piece_infos l))) = (\<Sum>j<k. piece_bytes l j)"
    if "k \<le> piece_count l" for k
  proof -
    have "map (\<lambda>pi. unat (pi_len pi)) (take k (iter_piece_infos l)) = map (piece_bytes l) [0..<k]"
      using that len by (intro nth_equalityI) (simp_all add: nth piece_length_nat [OF wf])
    then show ?thesis by (simp add: interv_sum_list_conv_sum_set_nat atLeast0LessThan)
  qed
  have "sum_list (map (\<lambda>pi. unat (pi_len pi)) (iter_piece_infos l)) = unat t"
    using lens [of "piece_count l"] len piece_bytes_total [OF wf] t by simp
  moreover have "let pi = iter_piece_infos l ! k; cs = iter_chunk_infos l (pi_piece_index pi) in
          sum_list (map (\<lambda>ci. unat (ci_size ci)) cs) = unat (pi_len pi)
          \<and> (\<forall>c < length cs. unat (chunk_absolute_offset l (cs ! c)) =
                sum_list (map (\<lambda>pi. unat (pi_len pi)) (take k (iter_piece_infos l)))
                + sum_list (map (\<lambda>ci. unat (ci_size ci)) (take c cs)))"
    if k: "k < length (iter_piece_infos l)" for k
  proof -
    let ?i = "ValidPieceIndex (of_nat k)"
    have k': "k < piece_count l" using k len by simp
    have i: "valid_index l ?i" and ki: "unat (of_nat k :: u32) = k" using nth(3,4) [OF k'] by simp_all
    let ?cs = "iter_chunk_infos l ?i"
    have ncs: "length ?cs = piece_chunks l k" by (simp add: iter_chunk_infos_closed [OF wf i] ki)
    have "sum_list (map (\<lambda>ci. unat (ci_size ci)) ?cs) = piece_bytes l k"
      using iter_chunk_infos_sizes [OF wf i order_refl] ncs
      by (simp add: ki piece_chunks_def nceil_le_iff [symmetric] min_absorb1)
    moreover have "unat (chunk_absolute_offset l (?cs ! c)) =
        (\<Sum>j<k. piece_bytes l j) + sum_list (map (\<lambda>ci. unat (ci_size ci)) (take c ?cs))"
      if c: "c < length ?cs" for c
    proof -
      have c': "c < piece_chunks l k" using c ncs by simp
      have "k * unat (ln_piece_length l) \<le> unat (ln_total_length l)"
        using k' less_piece_count [OF wf, of k] by simp
      moreover have "c * 16384 < piece_bytes l k" using chunk_at_nat(5) [OF wf i] c' by (simp add: ki)
      ultimately show ?thesis
        using chunk_at_absolute [OF wf i] iter_chunk_infos_sizes [OF wf i, of c] c c'
        by (simp add: ki piece_bytes_sum iter_chunk_infos_closed [OF wf i])
    qed
    ultimately show ?thesis
      using nth(1) [OF k'] piece_length_nat [OF wf i] lens [of k] k' by (simp add: ki)
  qed
  ultimately show ?thesis by blast
qed

lemma pieces_and_chunks_tile_witness:
  "sum_list (map (\<lambda>pi. unat (pi_len pi)) (iter_piece_infos sample_lengths)) = 40000"
  using pieces_and_chunks_tile [OF sample_lengths_new] by (simp add: nceil_def)

text \<open>
  C30: a block received from a peer, at offset \<open>b\<close> of piece \<open>i\<close> and with \<open>s\<close> bytes, is accepted exactly
  when it is one of the chunks that \<^verbatim>\<open>iter_chunk_infos\<close> enumerates for requesting, and it is resolved to
  that chunk.
\<close>
theorem received_data_is_requested_chunk:
  assumes "wf_lengths l" and "valid_index l i"
  shows "chunk_info_from_received_data l i b s = Some c \<longleftrightarrow>
    c \<in> set (iter_chunk_infos l i) \<and> ci_offset c = b \<and> ci_size c = s"
  using assms by (rule received_data_iff)

lemma received_data_is_requested_chunk_witness:
  "\<exists>c \<in> set (iter_chunk_infos sample_lengths (ValidPieceIndex 1)). ci_size c = 7232"
proof -
  have "chunk_info_from_received_data sample_lengths (ValidPieceIndex 1) 0 7232 =
      Some \<lparr> ci_piece_index = ValidPieceIndex 1, ci_chunk_index = 0, ci_absolute_index = 2,
             ci_size = 7232, ci_offset = 0 \<rparr>"
    by (simp add: chunk_info_from_received_data_def chunk_size_def chunk_offset_in_piece_def
        chunks_per_piece_def piece_length_def sample_lengths_def div_ceil_def last_element_size_def
        CHUNK_SIZE_def Let_def)
  then show ?thesis
    using received_data_is_requested_chunk [of sample_lengths "ValidPieceIndex 1" 0 7232] by fastforce
qed

text \<open>
  C31: for a byte range that does not overflow, \<^verbatim>\<open>iter_pieces_within_offset\<close> returns exactly the pieces
  that hold a byte of the range, also when the range is empty or reaches past the end of the torrent.
\<close>
theorem pieces_within_offset_exact:
  assumes "wf_lengths l" and "unat off + unat len < 2 ^ 64"
  shows "\<exists>s e. iter_pieces_within_offset l off len = Inr (s, e) \<and>
    (\<forall>k. unat s \<le> k \<and> k < unat e \<longleftrightarrow>
      (\<exists>b. unat off \<le> b \<and> b < unat off + unat len \<and> b < unat (ln_total_length l) \<and>
           b div unat (ln_piece_length l) = k))"
  using assms by (rule iter_pieces_within_offset_nat)

lemma pieces_within_offset_exact_witness:
  "\<exists>s e. iter_pieces_within_offset sample_lengths 32767 2 = Inr (s, e) \<and> unat s \<le> 1 \<and> 1 < unat e"
proof -
  have "\<exists>b. (32767::nat) \<le> b \<and> b < 32769 \<and> b < 40000 \<and> b div 32768 = 1"
    by (rule exI [of _ 32768]) simp
  then show ?thesis
    using pieces_within_offset_exact [of sample_lengths 32767 2]
    by (fastforce simp: sample_lengths_def [THEN arg_cong, of ln_total_length]
        sample_lengths_def [THEN arg_cong, of ln_piece_length])
qed

text \<open>
  C32: the bytes of a file are distributed over the pieces without loss: the parts of the pieces that lie
  in the file, as computed by \<^verbatim>\<open>size_of_piece_in_file\<close>, add up to the length of the file.
\<close>
theorem file_bytes_split_over_pieces:
  assumes wf: "wf_lengths l" and inside: "unat off + unat len \<le> unat (ln_total_length l)"
  shows "(\<Sum>k < unat (total_pieces l). unat (size_of_piece_in_file l (of_nat k) off len)) = unat len"
proof -
  have ovf: "unat off + unat len < 2 ^ 64"
    using inside unat_bound64 [of "ln_total_length l"] by simp
  have "(\<Sum>k < unat (total_pieces l). unat (size_of_piece_in_file l (of_nat k) off len)) =
      (\<Sum>k < piece_count l. piece_overlap l k (unat off) (unat off + unat len))"
    using index_of_nat(2) [OF wf]
    by (intro sum.cong) (simp_all add: total_pieces_nat [OF wf] size_of_piece_in_file_nat [OF ovf])
  then show ?thesis using piece_overlap_total [OF wf _ inside] by simp
qed

lemma file_bytes_split_over_pieces_witness:
  "(\<Sum>k < unat (total_pieces sample_lengths).
      unat (size_of_piece_in_file sample_lengths (of_nat k) 30000 5000)) = 5000"
proof -
  have "unat (30000 :: u64) + unat (5000 :: u64) \<le> unat (ln_total_length sample_lengths)"
    by (simp add: sample_lengths_def)
  from file_bytes_split_over_pieces [OF sample_lengths_wf this] show ?thesis by simp
qed

text \<open>
  For a position inside the torrent, \<^verbatim>\<open>compute_current_piece\<close> finds the piece that holds it and the
  number of bytes of the piece from there on; the field \<^verbatim>\<open>piece_offset\<close> it returns is the number of the
  piece, and not the offset of the position in the piece.
\<close>
lemma current_piece_offset_is_piece_id:
  assumes "wf_lengths l" and "unat base + unat pos < unat (ln_total_length l)"
  shows "\<exists>c. compute_current_piece l pos base = Inr (Some c) \<and>
     valid_index l (cp_id c) \<and>
     unat (vpi_get (cp_id c)) = (unat base + unat pos) div unat (ln_piece_length l) \<and>
     unat (cp_piece_remaining c) =
       piece_bytes l (unat (vpi_get (cp_id c))) - (unat base + unat pos) mod unat (ln_piece_length l) \<and>
     cp_piece_offset c = vpi_get (cp_id c)"
  using assms by (rule compute_current_piece_nat)

lemma current_piece_offset_is_piece_id_witness:
  "\<exists>c. compute_current_piece sample_lengths 33000 0 = Inr (Some c) \<and> cp_piece_offset c = vpi_get (cp_id c)
     \<and> unat (vpi_get (cp_id c)) \<noteq> 33000 mod 32768"
proof -
  have "unat (0 :: u64) + unat (33000 :: u64) < unat (ln_total_length sample_lengths)"
    by (simp add: sample_lengths_def)
  from current_piece_offset_is_piece_id [OF sample_lengths_wf this] show ?thesis
    by (auto simp: sample_lengths_def)
qed

text \<open>
  \<^verbatim>\<open>Lengths::new\<close> rejects an empty torrent, panics on a piece length of zero, and otherwise keeps
  the number of pieces modulo \<open>2 ^ 32\<close>, so that a torrent with more pieces is accepted with a wrong
  piece count.
\<close>
lemma lengths_new_cases:
  "(Lengths_new t p = Inl (Err BadTorrentZeroLength) \<longleftrightarrow> t = 0)
   \<and> (Lengths_new t p = Inl Panic \<longleftrightarrow> t \<noteq> 0 \<and> p = 0)
   \<and> ((\<exists>l. Lengths_new t p = Inr l \<and> total_pieces l = of_nat (nceil (unat t) (unat p))) \<longleftrightarrow> t \<noteq> 0 \<and> p \<noteq> 0)"
proof -
  have "(ucast (div_ceil t (ucast p)) :: u32) = of_nat (nceil (unat t) (unat p))" if "p \<noteq> 0"
  proof -
    have "(ucast p :: u64) \<noteq> 0" using that by (simp add: wnat word_unat_eq_iff)
    then have "unat (div_ceil t (ucast p)) = nceil (unat t) (unat p)"
      by (simp add: unat_div_ceil wnat)
    then show ?thesis by (simp add: word_unat_eq_iff unat_ucast [of "div_ceil t (ucast p)"] unat_of_nat)
  qed
  then show ?thesis by (auto simp: Lengths_new_def total_pieces_def Let_def)
qed

end
