(* ===== verification/Wire_Bytes.thy ===== *)
theory Wire_Bytes
  imports Prelude
begin

text \<open>
  Bytes on the wire: \<^verbatim>\<open>to_be_bytes\<close>, \<^verbatim>\<open>from_be_bytes\<close> and the \<^verbatim>\<open>BE\<close> readers and writers of the sources,
  writes into a borrowed slice (\<^verbatim>\<open>copy_from_slice\<close>, which panics out of range), and the contract
  \<open>byte_reader\<close> of an input that is read from the front.
\<close>

section \<open>Big-endian integers\<close>

fun be_digits :: "nat \<Rightarrow> nat \<Rightarrow> bytes" where
  "be_digits 0 x = []"
| "be_digits (Suc n) x = be_digits n (x div 256) @ [of_nat x]"

definition be_value :: "bytes \<Rightarrow> nat" where
  "be_value bs = foldl (\<lambda>acc b. acc * 256 + unat b) 0 bs"

definition to_be16 :: "u16 \<Rightarrow> bytes" where
  "to_be16 w = be_digits 2 (unat w)"

definition to_be32 :: "u32 \<Rightarrow> bytes" where
  "to_be32 w = be_digits 4 (unat w)"

definition to_be64 :: "u64 \<Rightarrow> bytes" where
  "to_be64 w = be_digits 8 (unat w)"

definition to_be128 :: "128 word \<Rightarrow> bytes" where
  "to_be128 w = be_digits 16 (unat w)"

definition from_be128 :: "bytes \<Rightarrow> 128 word" where
  "from_be128 bs = of_nat (be_value bs)"

definition from_be16 :: "bytes \<Rightarrow> u16" where
  "from_be16 bs = of_nat (be_value bs)"

definition from_be32 :: "bytes \<Rightarrow> u32" where
  "from_be32 bs = of_nat (be_value bs)"

definition from_be64 :: "bytes \<Rightarrow> u64" where
  "from_be64 bs = of_nat (be_value bs)"

lemma be_value_snoc: "be_value (bs @ [b]) = be_value bs * 256 + unat b"
  by (simp add: be_value_def)

lemma length_be_digits [simp]: "length (be_digits n x) = n"
  by (induction n arbitrary: x) simp_all

lemma be_digits_numeral:
  "be_digits (numeral n) x = be_digits (pred_numeral n) (x div 256) @ [of_nat x]"
  by (subst numeral_eq_Suc) (rule be_digits.simps)

lemma unat_byte: "unat (of_nat x :: u8) = x mod 256"
  by (simp add: unat_of_nat)

lemma be_value_digits: "x < 256 ^ n \<Longrightarrow> be_value (be_digits n x) = x"
proof (induction n arbitrary: x)
  case 0
  then show ?case by (simp add: be_value_def)
next
  case (Suc n)
  have "x div 256 < 256 ^ n" using Suc.prems by (simp add: div_less_iff_less_mult mult.commute)
  then have "be_value (be_digits (Suc n) x) = x div 256 * 256 + x mod 256"
    by (simp add: be_value_snoc Suc.IH unat_byte)
  then show ?case by simp
qed

lemma be_value_bound: "be_value bs < 256 ^ length bs"
proof (induction bs rule: rev_induct)
  case Nil
  show ?case by (simp add: be_value_def)
next
  case (snoc b bs)
  have "unat b < 2 ^ LENGTH(8)" by (rule unsigned_less)
  then have "be_value (bs @ [b]) < Suc (be_value bs) * 256" by (simp add: be_value_snoc)
  also have "\<dots> \<le> 256 ^ length bs * 256" using snoc by (intro mult_le_mono1) simp
  finally show ?case by simp
qed

lemma be_digits_value: "be_digits (length bs) (be_value bs) = bs"
proof (induction bs rule: rev_induct)
  case Nil
  show ?case by simp
next
  case (snoc b bs)
  have b: "unat b < 256" using unsigned_less [of b] by simp
  have "unat (of_nat (be_value bs * 256 + unat b) :: u8) = unat b"
    using b unfolding unat_byte by simp
  then have "of_nat (be_value bs * 256 + unat b) = b" by (simp only: word_unat_eq_iff)
  moreover have "(be_value bs * 256 + unat b) div 256 = be_value bs" using b by simp
  ultimately show ?case using snoc by (simp add: be_value_snoc)
qed

lemma length_to_be [simp]:
  "length (to_be16 p) = 2" "length (to_be32 w) = 4" "length (to_be64 x) = 8"
  by (simp_all add: to_be16_def to_be32_def to_be64_def)

lemma from_to_be [simp]:
  "from_be16 (to_be16 p) = p" "from_be32 (to_be32 w) = w" "from_be64 (to_be64 x) = x"
proof -
  have "unat p < 256 ^ 2" "unat w < 256 ^ 4" "unat x < 256 ^ 8"
    using unsigned_less [of p] unsigned_less [of w] unsigned_less [of x] by simp_all
  then show "from_be16 (to_be16 p) = p" "from_be32 (to_be32 w) = w" "from_be64 (to_be64 x) = x"
    by (simp_all add: from_be16_def to_be16_def from_be32_def to_be32_def from_be64_def
        to_be64_def be_value_digits)
qed

lemma to_from_be:
  "length bs = 2 \<Longrightarrow> to_be16 (from_be16 bs) = bs" "length bs = 4 \<Longrightarrow> to_be32 (from_be32 bs) = bs"
  "length bs = 8 \<Longrightarrow> to_be64 (from_be64 bs) = bs"
proof -
  show "to_be16 (from_be16 bs) = bs" if l: "length bs = 2"
    using be_value_bound [of bs] be_digits_value [of bs] l
    by (simp add: to_be16_def from_be16_def unat_of_nat)
  show "to_be32 (from_be32 bs) = bs" if l: "length bs = 4"
    using be_value_bound [of bs] be_digits_value [of bs] l
    by (simp add: to_be32_def from_be32_def unat_of_nat)
  show "to_be64 (from_be64 bs) = bs" if l: "length bs = 8"
    using be_value_bound [of bs] be_digits_value [of bs] l
    by (simp add: to_be64_def from_be64_def unat_of_nat)
qed

lemma to_be_inject [simp]: "to_be32 a = to_be32 b \<longleftrightarrow> a = b"
  by (metis from_to_be(2))

lemma be128 [simp]: "length (to_be128 w) = 16" "from_be128 (to_be128 w) = w"
proof -
  have "unat w < 256 ^ 16" using unsigned_less [of w] by simp
  then show "from_be128 (to_be128 w) = w"
    by (simp add: from_be128_def to_be128_def be_value_digits)
qed (simp add: to_be128_def)

section \<open>Writing into a slice\<close>

text \<open>\<^verbatim>\<open>out[at..at + src.len()].copy_from_slice(src)\<close>.\<close>

definition write_at :: "nat \<Rightarrow> bytes \<Rightarrow> bytes \<Rightarrow> (bytes, 'e) rust" where
  "write_at at src out =
     (if at + length src \<le> length out
      then Inr (take at out @ src @ drop (at + length src) out) else Inl Panic)"

lemma write_at_prefix:
  "length src \<le> length rest \<Longrightarrow> at = length pre \<Longrightarrow>
   write_at at src (pre @ rest) = Inr (pre @ src @ drop (length src) rest)"
  by (simp add: write_at_def)

section \<open>Reading from the front\<close>

text \<open>
  What a decoder relies on: \<open>consume n\<close> returns the next \<open>n\<close> bytes of the input and leaves the
  rest, or reports how many bytes are missing and leaves the input as it was.
\<close>

locale byte_reader =
  fixes view :: "'b \<Rightarrow> bytes"
    and consume :: "nat \<Rightarrow> 'b \<Rightarrow> (nat + bytes) \<times> 'b"
  assumes consume_enough:
      "n \<le> length (view b) \<Longrightarrow>
       fst (consume n b) = Inr (take n (view b)) \<and> view (snd (consume n b)) = drop n (view b)"
    and consume_short: "length (view b) < n \<Longrightarrow> consume n b = (Inl (n - length (view b)), b)"
begin

lemma consume_append:
  assumes "view b = xs @ ys" "length xs = n"
  obtains b' where "consume n b = (Inr xs, b')" "view b' = ys"
proof -
  have "fst (consume n b) = Inr xs" "view (snd (consume n b)) = ys"
    using assms consume_enough [of n b] by simp_all
  then show ?thesis using that [of "snd (consume n b)"] by (metis prod.collapse)
qed

lemma consume_total:
  "fst (consume n b) = (if n \<le> length (view b) then Inr (take n (view b)) else Inl (n - length (view b)))"
  using consume_enough [of n b] consume_short [of b n] by auto

end

end
