(* ===== verification/Paths.thy ===== *)
theory Paths
  imports Wire_Bytes
begin

text \<open>
  The paths of the standard library on Unix, as far as the client uses them: a path is a byte string, its
  components are what is between the separators, and two paths are equal when their components are.
\<close>

type_synonym path_buf = bytes

datatype component = RootDir | CurDir | ParentDir | Normal bytes

abbreviation slash :: u8 where
  "slash \<equiv> 47"

abbreviation dot :: bytes where
  "dot \<equiv> [46]"

abbreviation dot_dot :: bytes where
  "dot_dot \<equiv> [46, 46]"

fun split_path :: "path_buf \<Rightarrow> bytes list" where
  "split_path [] = [[]]"
| "split_path (c # cs) =
     (if c = slash then [] # split_path cs
      else case split_path cs of [] \<Rightarrow> [[c]] | w # ws \<Rightarrow> (c # w) # ws)"

definition is_absolute :: "path_buf \<Rightarrow> bool" where
  "is_absolute p \<longleftrightarrow> p \<noteq> [] \<and> hd p = slash"

definition component_of :: "bytes \<Rightarrow> component" where
  "component_of w = (if w = dot_dot then ParentDir else Normal w)"

text \<open>Empty parts and dots are skipped, a dot at the start of a relative path is kept.\<close>

definition components :: "path_buf \<Rightarrow> component list" where
  "components p =
     (if is_absolute p then [RootDir] else if hd (split_path p) = dot then [CurDir] else [])
     @ map component_of (filter (\<lambda>w. w \<noteq> [] \<and> w \<noteq> dot) (split_path p))"

definition path_push :: "path_buf \<Rightarrow> bytes \<Rightarrow> path_buf" where
  "path_push p part =
     (if is_absolute part then part
      else if p \<noteq> [] \<and> last p \<noteq> slash then p @ slash # part
      else p @ part)"

section \<open>Components of a pushed path\<close>

lemma split_path_nonempty [simp]: "split_path p \<noteq> []"
  by (induction p) (auto split: list.splits)

lemma split_path_join: "split_path (p @ slash # q) = split_path p @ split_path q"
  by (induction p) (auto split: list.splits)

lemma split_path_plain: "slash \<notin> set w \<Longrightarrow> split_path w = [w]"
  by (induction w) auto

lemma hd_split_join: "hd (split_path (p @ slash # q)) = hd (split_path p)"
  by (simp add: split_path_join)

text \<open>The components that a part without separators adds.\<close>

definition pushed :: "bytes \<Rightarrow> component list" where
  "pushed w = (if w = [] \<or> w = dot then [] else [component_of w])"

lemma components_push:
  assumes "slash \<notin> set w"
  shows "components (path_push p w) =
    (if p = [] then (if w = dot then [CurDir] else pushed w) else components p @ pushed w)"
proof (cases "p = []")
  case True
  have "\<not> is_absolute w" using assms by (cases w) (auto simp: is_absolute_def)
  then show ?thesis using True assms by (simp add: path_push_def components_def split_path_plain pushed_def)
next
  case False
  have rel: "\<not> is_absolute w" using assms by (cases w) (auto simp: is_absolute_def)
  have abs: "is_absolute (p @ q) = is_absolute p" for q using False by (simp add: is_absolute_def)
  show ?thesis
  proof (cases "last p = slash")
    case True
    obtain p' where p': "p = p' @ [slash]" using True False by (metis append_butlast_last_id)
    have "split_path (p @ w) = split_path p' @ [w]" "split_path p = split_path p' @ [[]]"
      using split_path_join [of p' w] split_path_join [of p' "[]"] assms by (simp_all add: p' split_path_plain)
    moreover have "hd (split_path (p @ w)) = hd (split_path p)" using calculation by simp
    ultimately show ?thesis
      using True False rel abs [of w] by (cases "w = dot") (auto simp: path_push_def components_def pushed_def)
  next
    case last: False
    then show ?thesis
      using False rel abs [of "slash # w"] assms
      by (simp add: path_push_def components_def pushed_def split_path_join split_path_plain)
  qed
qed

lemma path_push_empty: "slash \<notin> set w \<Longrightarrow> path_push p w = [] \<longleftrightarrow> p = [] \<and> w = []"
  by (cases w) (auto simp: path_push_def is_absolute_def)

text \<open>A path built from parts without separators: it is relative, and it goes up only if a part does.\<close>

definition inside :: "path_buf \<Rightarrow> bool" where
  "inside p \<longleftrightarrow> RootDir \<notin> set (components p) \<and> ParentDir \<notin> set (components p)"

lemma inside_push: "inside p \<Longrightarrow> slash \<notin> set w \<Longrightarrow> w \<noteq> dot_dot \<Longrightarrow> inside (path_push p w)"
  by (auto simp: inside_def components_push pushed_def component_of_def)

lemma inside_foldl_push:
  "inside p \<Longrightarrow> \<forall>w \<in> set ws. slash \<notin> set w \<and> w \<noteq> dot_dot \<Longrightarrow> inside (foldl path_push p ws)"
  by (induction ws arbitrary: p) (auto simp: inside_push)

lemma inside_empty [simp]: "inside []"
  by (simp add: inside_def components_def is_absolute_def)

end
