(* ===== verification/File_Info.thy ===== *)
theory File_Info
  imports Lengths Paths "HOL-Library.Multiset"
begin

text \<open>
  \<^verbatim>\<open>crates/librtbit/src/file_info.rs\<close>: a file of the torrent and the order in which its pieces are
  requested.
\<close>

record file_attrs =
  fa_symlink :: bool
  fa_hidden :: bool
  fa_padding :: bool
  fa_executable :: bool

record file_info =
  fi_relative_filename :: path_buf
  fi_offset_in_torrent :: u64
  fi_piece_range :: "u32 \<times> u32"
  fi_attrs :: file_attrs
  fi_len :: u64

text \<open>The length of a half-open range, 0 when it is empty or reversed.\<close>

definition range_len :: "nat \<times> nat \<Rightarrow> nat" where
  "range_len r = snd r - fst r"

text \<open>\<^verbatim>\<open>overflowing_sub\<close> on \<^verbatim>\<open>usize\<close>, which has 64 bits.\<close>

definition overflowing_sub :: "nat \<Rightarrow> nat \<Rightarrow> nat" where
  "overflowing_sub a b = (if b \<le> a then a - b else a + 2 ^ 64 - b)"

text \<open>The addition \<^verbatim>\<open>r.start + ...\<close> wraps at 64 bits.\<close>

definition iter_piece_priorities :: "nat \<times> nat \<Rightarrow> nat list" where
  "iter_piece_priorities r =
     (let first = [fst r];
          last = [(fst r + overflowing_sub (range_len r) 1) mod 2 ^ 64];
          mid = take (overflowing_sub (range_len r) 2) (drop 1 [fst r..<snd r])
      in take (range_len r) (first @ last @ mid))"

definition piece_range_usize :: "file_info \<Rightarrow> nat \<times> nat" where
  "piece_range_usize fi = (unat (fst (fi_piece_range fi)), unat (snd (fi_piece_range fi)))"

definition fi_iter_piece_priorities :: "file_info \<Rightarrow> nat list" where
  "fi_iter_piece_priorities fi = iter_piece_priorities (piece_range_usize fi)"

lemma upt_first_last:
  "Suc a < b \<Longrightarrow> mset [a..<b] = {#a, b - 1#} + mset [Suc a..<b - 1]"
  by (cases b) (simp_all add: upt_rec [of a])

lemma iter_piece_priorities_eq:
  assumes "snd r < 2 ^ 64"
  shows "iter_piece_priorities r =
    (if snd r \<le> fst r then [] else if snd r = Suc (fst r) then [fst r]
     else fst r # (snd r - 1) # [Suc (fst r)..<snd r - 1])"
proof (cases "Suc (fst r) < snd r")
  case True
  then obtain n where n: "snd r = Suc (Suc (fst r + n))"
    using less_iff_Suc_add by (metis add_Suc)
  have "take n [Suc (fst r)..<snd r] = [Suc (fst r)..<Suc (fst r) + n]"
    using n by (intro take_upt) simp
  moreover have "(fst r + overflowing_sub (range_len r) 1) mod 2 ^ 64 = snd r - 1"
    using n assms by (simp add: overflowing_sub_def range_len_def)
  moreover have "overflowing_sub (range_len r) 2 = n" "range_len r = Suc (Suc n)"
    using n by (simp_all add: overflowing_sub_def range_len_def)
  moreover have "drop 1 [fst r..<snd r] = [Suc (fst r)..<snd r]" by simp
  ultimately show ?thesis using n by (simp add: iter_piece_priorities_def Let_def del: upt_Suc)
next
  case False
  then consider "snd r \<le> fst r" | "snd r = Suc (fst r)" by linarith
  then show ?thesis
    by cases (simp_all add: iter_piece_priorities_def range_len_def Let_def)
qed

lemma iter_piece_priorities_perm:
  assumes "snd r < 2 ^ 64"
  shows "mset (iter_piece_priorities r) = mset [fst r..<snd r]"
  using upt_first_last [of "fst r" "snd r"]
  by (auto simp: iter_piece_priorities_eq [OF assms] add_mset_commute)

lemma fi_iter_piece_priorities_perm:
  "mset (fi_iter_piece_priorities fi) = mset [fst (piece_range_usize fi)..<snd (piece_range_usize fi)]"
  using unat_bound32 [of "snd (fi_piece_range fi)"]
  by (simp add: fi_iter_piece_priorities_def iter_piece_priorities_perm piece_range_usize_def)

lemma set_fi_iter_piece_priorities:
  "set (fi_iter_piece_priorities fi) = {fst (piece_range_usize fi)..<snd (piece_range_usize fi)}"
  using mset_eq_setD [OF fi_iter_piece_priorities_perm [of fi]] by simp

text \<open>
  C40: the pieces of a file are requested in the order first, last, then the rest ascending, and every
  piece of the file occurs exactly once, also for files of no, one or two pieces.
\<close>
theorem piece_priorities_exact:
  "distinct (fi_iter_piece_priorities fi)
   \<and> set (fi_iter_piece_priorities fi) = {fst (piece_range_usize fi)..<snd (piece_range_usize fi)}
   \<and> fi_iter_piece_priorities fi =
       (let (a, b) = piece_range_usize fi in
        if b \<le> a then [] else if b = Suc a then [a] else a # (b - 1) # [Suc a..<b - 1])"
proof -
  let ?r = "piece_range_usize fi"
  have b: "snd ?r < 2 ^ 64" using unat_bound32 [of "snd (fi_piece_range fi)"] by (simp add: piece_range_usize_def)
  note perm = fi_iter_piece_priorities_perm [of fi]
  have "distinct (fi_iter_piece_priorities fi)"
    using perm by (metis distinct_upt mset_eq_imp_distinct_iff)
  moreover have "set (fi_iter_piece_priorities fi) = {fst ?r..<snd ?r}"
    by (rule set_fi_iter_piece_priorities)
  ultimately show ?thesis by (simp add: fi_iter_piece_priorities_def case_prod_beta iter_piece_priorities_eq [OF b])
qed

end
