(* ===== verification/Rust_Maps.thy ===== *)
theory Rust_Maps
  imports Prelude
begin

text \<open>
  The standard library's keyed collections as association lists. A \<^verbatim>\<open>HashMap\<close>
  (and \<^verbatim>\<open>DashMap\<close>) is a list with distinct keys in an unspecified iteration order; a \<^verbatim>\<open>BTreeMap\<close> is a
  list with strictly increasing keys. Both meet the contract \<open>keyed_store\<close>, from which the
  components take the lookup laws.
\<close>

section \<open>Contract\<close>

locale keyed_store =
  fixes invar :: "('k \<times> 'v) list \<Rightarrow> bool"
    and insert_kv :: "'k \<Rightarrow> 'v \<Rightarrow> ('k \<times> 'v) list \<Rightarrow> ('k \<times> 'v) list"
    and remove_k :: "'k \<Rightarrow> ('k \<times> 'v) list \<Rightarrow> ('k \<times> 'v) list"
  assumes invar_distinct: "invar m \<Longrightarrow> distinct (map fst m)"
    and invar_empty: "invar []"
    and invar_insert: "invar m \<Longrightarrow> invar (insert_kv k v m)"
    and invar_remove: "invar m \<Longrightarrow> invar (remove_k k m)"
    and get_insert: "invar m \<Longrightarrow> map_of (insert_kv k v m) = (map_of m)(k \<mapsto> v)"
    and get_remove: "invar m \<Longrightarrow> map_of (remove_k k m) = (map_of m)(k := None)"
begin

lemma keys_insert: "invar m \<Longrightarrow> fst ` set (insert_kv k v m) = insert k (fst ` set m)"
  using get_insert [of m k v] by (simp flip: dom_map_of_conv_image_fst)

lemma keys_remove: "invar m \<Longrightarrow> fst ` set (remove_k k m) = fst ` set m - {k}"
  using get_remove [of m k] by (simp flip: dom_map_of_conv_image_fst)

lemma mem_iff_get: "invar m \<Longrightarrow> (k, v) \<in> set m \<longleftrightarrow> map_of m k = Some v"
  using invar_distinct [of m] by (simp add: map_of_eq_Some_iff)

lemma length_keys: "invar m \<Longrightarrow> length m = card (fst ` set m)"
  using invar_distinct [of m] distinct_card [of "map fst m"] by simp

lemma length_insert:
  "invar m \<Longrightarrow> length (insert_kv k v m) = (if map_of m k = None then Suc (length m) else length m)"
  by (simp add: length_keys invar_insert keys_insert card_insert_if map_of_eq_None_iff)

lemma length_remove:
  "invar m \<Longrightarrow> length (remove_k k m) = (if map_of m k = None then length m else length m - 1)"
  by (auto simp: length_keys invar_remove keys_remove map_of_eq_None_iff)

lemma ran_insert: "invar m \<Longrightarrow> (k', v') \<in> set (insert_kv k v m) \<longleftrightarrow>
    (k' = k \<and> v' = v \<or> k' \<noteq> k \<and> (k', v') \<in> set m)"
  by (simp add: mem_iff_get invar_insert get_insert) auto

lemma ran_remove: "invar m \<Longrightarrow> (k', v') \<in> set (remove_k k m) \<longleftrightarrow> k' \<noteq> k \<and> (k', v') \<in> set m"
  by (simp add: mem_iff_get invar_remove get_remove)

end

section \<open>Hash maps\<close>

definition hm_ok :: "('k \<times> 'v) list \<Rightarrow> bool" where
  "hm_ok m \<longleftrightarrow> distinct (map fst m)"

fun hm_insert :: "'k \<Rightarrow> 'v \<Rightarrow> ('k \<times> 'v) list \<Rightarrow> ('k \<times> 'v) list" where
  "hm_insert k v [] = [(k, v)]"
| "hm_insert k v ((k', v') # m) = (if k' = k then (k, v) # m else (k', v') # hm_insert k v m)"

definition hm_remove :: "'k \<Rightarrow> ('k \<times> 'v) list \<Rightarrow> ('k \<times> 'v) list" where
  "hm_remove k m = filter (\<lambda>e. fst e \<noteq> k) m"

lemma map_of_hm_insert: "map_of (hm_insert k v m) = (map_of m)(k \<mapsto> v)"
  by (induction m) auto

lemma keys_hm_insert: "set (map fst (hm_insert k v m)) = insert k (set (map fst m))"
  by (induction k v m rule: hm_insert.induct) (simp_all add: insert_commute)

lemma distinct_hm_insert: "distinct (map fst m) \<Longrightarrow> distinct (map fst (hm_insert k v m))"
proof (induction m)
  case (Cons e m)
  obtain k' v' where e: "e = (k', v')" by (cases e)
  have "k' \<notin> set (map fst (hm_insert k v m))" if "k' \<noteq> k"
    using Cons.prems that e unfolding keys_hm_insert by auto
  then show ?case using Cons e by auto
qed simp

lemma map_of_hm_remove: "map_of (hm_remove k m) = (map_of m)(k := None)"
  by (induction m) (auto simp: hm_remove_def)

interpretation hm: keyed_store hm_ok hm_insert hm_remove
proof
  show "hm_ok (hm_remove k m)" if "hm_ok m" for k and m :: "('a \<times> 'b) list"
    using that by (simp add: hm_ok_def hm_remove_def distinct_map_filter)
qed (simp_all add: hm_ok_def distinct_hm_insert map_of_hm_insert map_of_hm_remove)

section \<open>Ordered maps\<close>

definition bt_ok :: "('k::linorder \<times> 'v) list \<Rightarrow> bool" where
  "bt_ok m \<longleftrightarrow> sorted_wrt (<) (map fst m)"

fun bt_insert :: "'k::linorder \<Rightarrow> 'v \<Rightarrow> ('k \<times> 'v) list \<Rightarrow> ('k \<times> 'v) list" where
  "bt_insert k v [] = [(k, v)]"
| "bt_insert k v ((k', v') # m) =
     (if k < k' then (k, v) # (k', v') # m
      else if k = k' then (k, v) # m
      else (k', v') # bt_insert k v m)"

definition bt_remove :: "'k::linorder \<Rightarrow> ('k \<times> 'v) list \<Rightarrow> ('k \<times> 'v) list" where
  "bt_remove k m = filter (\<lambda>e. fst e \<noteq> k) m"

lemma keys_bt_insert: "set (map fst (bt_insert k v m)) = insert k (set (map fst m))"
  by (induction k v m rule: bt_insert.induct) (simp_all add: insert_commute)

lemma sorted_bt_insert: "sorted_wrt (<) (map fst m) \<Longrightarrow> sorted_wrt (<) (map fst (bt_insert k v m))"
proof (induction m)
  case (Cons e m)
  obtain k' v' where e: "e = (k', v')" by (cases e)
  show ?case
  proof (cases "k' < k")
    case True
    then have "sorted_wrt (<) (map fst ((k', v') # bt_insert k v m))"
      using Cons e keys_bt_insert [of k v m] by auto
    moreover have "\<not> k < k'" "k \<noteq> k'" using True by auto
    ultimately show ?thesis using e by simp
  next
    case False
    then show ?thesis using Cons.prems e by (auto intro: less_trans)
  qed
qed simp

lemma sorted_wrt_less_distinct: "sorted_wrt (<) (xs :: 'a::linorder list) \<Longrightarrow> distinct xs"
  by (induction xs) auto

lemma map_of_bt_insert:
  "sorted_wrt (<) (map fst m) \<Longrightarrow> map_of (bt_insert k v m) = (map_of m)(k \<mapsto> v)"
proof (induction m)
  case (Cons e m)
  then show ?case by (cases e) (auto simp: fun_eq_iff map_of_eq_None_iff)
qed simp

interpretation bt: keyed_store bt_ok bt_insert bt_remove
proof
  fix m :: "('a::linorder \<times> 'b) list" and k v
  show "map_of (bt_remove k m) = (map_of m)(k := None)"
    unfolding bt_remove_def using map_of_hm_remove [of k m] by (simp add: hm_remove_def)
  show "bt_ok (bt_remove k m)" if "bt_ok m"
    using that sorted_wrt_filter [of "\<lambda>a b. fst a < fst b" m "\<lambda>e. fst e \<noteq> k"]
    by (simp add: bt_ok_def bt_remove_def sorted_wrt_map)
qed (simp_all add: bt_ok_def sorted_wrt_less_distinct sorted_bt_insert map_of_bt_insert)

text \<open>Inserting the entries of any list of pairs gives the ordered map with those lookups.\<close>

definition bt_of_list :: "('k::linorder \<times> 'v) list \<Rightarrow> ('k \<times> 'v) list" where
  "bt_of_list xs = foldl (\<lambda>m (k, v). bt_insert k v m) [] xs"

lemma bt_of_list_snoc: "bt_of_list (xs @ [(k, v)]) = bt_insert k v (bt_of_list xs)"
  by (simp add: bt_of_list_def)

lemma bt_of_list_ok: "bt_ok (bt_of_list xs)"
proof (induction xs rule: rev_induct)
  case Nil
  show ?case by (simp add: bt_of_list_def bt.invar_empty)
next
  case (snoc e xs)
  then show ?case by (cases e) (simp add: bt_of_list_snoc bt.invar_insert)
qed

lemma set_bt_of_list: "distinct (map fst xs) \<Longrightarrow> set (bt_of_list xs) = set xs"
proof (induction xs rule: rev_induct)
  case Nil
  show ?case by (simp add: bt_of_list_def)
next
  case (snoc e xs)
  obtain k v where e: "e = (k, v)" by (cases e)
  have "k \<notin> fst ` set xs" using snoc.prems e by auto
  moreover have "set (bt_of_list xs) = set xs" using snoc by simp
  ultimately have "(k', v') \<in> set (bt_insert k v (bt_of_list xs)) \<longleftrightarrow> (k', v') \<in> insert (k, v) (set xs)"
    for k' v'
    unfolding bt.ran_insert [OF bt_of_list_ok] by (auto simp: image_iff)
  then have "set (bt_insert k v (bt_of_list xs)) = insert (k, v) (set xs)" by auto
  then show ?case using e by (simp add: bt_of_list_snoc)
qed

lemma bt_ok_set_eq:
  assumes "bt_ok a" "bt_ok b" "set a = set b"
  shows "a = b"
proof -
  have k: "map fst a = map fst b"
    using assms by (intro strict_sorted_equal) (simp_all add: bt_ok_def)
  have m: "map_of a = map_of b"
    using assms bt.invar_distinct by (intro map_of_inject_set [THEN iffD2]) auto
  have r: "map (\<lambda>k. (k, the (map_of m k))) (map fst m) = m"
    if "bt_ok m" for m :: "('a \<times> 'b) list"
    unfolding map_map using bt.invar_distinct [OF that] by (intro map_idI) auto
  have "a = map (\<lambda>k. (k, the (map_of a k))) (map fst a)" by (rule r [OF assms(1), symmetric])
  also have "\<dots> = map (\<lambda>k. (k, the (map_of b k))) (map fst b)" unfolding k m ..
  also have "\<dots> = b" by (rule r [OF assms(2)])
  finally show ?thesis .
qed

lemma bt_of_list_id: "bt_ok xs \<Longrightarrow> bt_of_list xs = xs"
  by (intro bt_ok_set_eq bt_of_list_ok) (simp_all add: set_bt_of_list bt.invar_distinct)

end
