(* ===== verification/Bencode.thy ===== *)
theory Bencode
  imports Wire_Bytes Rust_Maps "HOL-Library.List_Lexorder"
begin

text \<open>
  The bencode codec, \<^verbatim>\<open>crates/librtbit-bencode/src\<close>: \<^verbatim>\<open>serialize.rs\<close> (the serializer's writers and
  its sorted maps), \<^verbatim>\<open>deserialize.rs\<close> (the deserializer with its error context) and
  \<^verbatim>\<open>bencode_value.rs\<close> (dynamic values). The integer parsers of the \<^verbatim>\<open>atoi\<close> crate are parameters
  of the decoder; \<open>atoi_spec\<close> states what is used of them. A dictionary is a hash map, so two
  values are the same when their \<open>canon\<close> forms, with the entries in key order, are equal.
\<close>

section \<open>Values\<close>

datatype bencode_value =
    Bytes bytes
  | Integer i64
  | List "bencode_value list"
  | Dict "(bytes \<times> bencode_value) list"

section \<open>Serializer\<close>

text \<open>Decimal rendering, as \<^verbatim>\<open>Display\<close> does for integers.\<close>

fun dec :: "nat \<Rightarrow> bytes" where
  "dec n = (if n < 10 then [of_nat (48 + n)] else dec (n div 10) @ [of_nat (48 + n mod 10)])"

declare dec.simps [simp del]

definition dec_int :: "int \<Rightarrow> bytes" where
  "dec_int i = (if i < 0 then 45 # dec (nat (- i)) else dec (nat i))"

definition write_number :: "int \<Rightarrow> bytes" where
  "write_number n = 105 # dec_int n @ [101]"

definition write_bytes :: "bool \<Rightarrow> bytes \<Rightarrow> bytes" where
  "write_bytes hack_no_bytestring_prefix bs =
     (if hack_no_bytestring_prefix then bs else dec (length bs) @ 58 # bs)"

definition serialize_map_end :: "bool \<Rightarrow> (bytes \<times> bytes) list \<Rightarrow> bytes" where
  "serialize_map_end hack tmp = concat (map (\<lambda>(key, value). write_bytes hack key @ value) tmp) @ [101]"

definition serialize_bool :: "bool \<Rightarrow> bytes" where
  "serialize_bool v = write_number (if v then 1 else 0)"

text \<open>
  A map or struct serializer collects the serialized values under their raw keys in a
  \<^verbatim>\<open>BTreeMap\<close> and writes it at the end.
\<close>

definition serialize_struct :: "(bytes \<times> bytes) list \<Rightarrow> bytes" where
  "serialize_struct fields = 100 # serialize_map_end False (bt_of_list fields)"

fun serialize_value :: "bool \<Rightarrow> bencode_value \<Rightarrow> bytes" where
  "serialize_value hack (Bytes b) = write_bytes hack b"
| "serialize_value hack (Integer v) = write_number (sint v)"
| "serialize_value hack (List l) = 108 # concat (map (serialize_value hack) l) @ [101]"
| "serialize_value hack (Dict d) =
     100 # serialize_map_end hack
       (bt_of_list (map (\<lambda>(k, v). (write_bytes True k, serialize_value False v)) d))"

definition bencode_serialize :: "bencode_value \<Rightarrow> bytes" where
  "bencode_serialize v = serialize_value False v"

section \<open>Deserializer\<close>

datatype de_error =
    NotSupported
  | Custom string
  | InvalidBool u8
  | BytesRemaining nat
  | InvalidLength nat
  | InvalidValue
  | RawDeInvalidValue
  | InvalidUtf8
  | Eof

record bencode_deserializer =
  de_buf :: bytes
  de_field_context :: "bytes list"
  de_field_context_did_not_fit :: u8
  de_parsing_key :: bool

text \<open>A method on \<^verbatim>\<open>&mut BencodeDeserializer\<close>: a result and the deserializer after it.\<close>

type_synonym 'a de = "bencode_deserializer \<Rightarrow> ('a, de_error) rust \<times> bencode_deserializer"

definition dret :: "'a \<Rightarrow> 'a de" where
  "dret a st = (Inr a, st)"

definition derr :: "de_error \<Rightarrow> 'a de" where
  "derr e st = (Inl (Err e), st)"

definition dbind :: "'a de \<Rightarrow> ('a \<Rightarrow> 'b de) \<Rightarrow> 'b de" where
  "dbind m f st = (case m st of (Inl e, st') \<Rightarrow> (Inl e, st') | (Inr a, st') \<Rightarrow> f a st')"

definition new_from_buf :: "bytes \<Rightarrow> bencode_deserializer" where
  "new_from_buf buf = \<lparr> de_buf = buf, de_field_context = [], de_field_context_did_not_fit = 0,
     de_parsing_key = False \<rparr>"

definition parse_first_byte :: "u8 \<Rightarrow> de_error \<Rightarrow> unit de" where
  "parse_first_byte c err st =
     (case de_buf st of
        start # rest \<Rightarrow> if start = c then (Inr (), st\<lparr> de_buf := rest \<rparr>) else derr err st
      | [] \<Rightarrow> derr Eof st)"

definition parse_integer :: "(bytes \<Rightarrow> 'i \<times> nat) \<Rightarrow> 'i de" where
  "parse_integer atoi =
     dbind (parse_first_byte 105 InvalidValue) (\<lambda>_ st.
       let (v, len) = atoi (de_buf st)
       in if len > 0 \<and> len < length (de_buf st) \<and> de_buf st ! len = 101
          then (Inr v, st\<lparr> de_buf := drop (len + 1) (de_buf st) \<rparr>)
          else derr InvalidValue st)"

text \<open>The context keeps at most four keys; the keys that did not fit are counted.\<close>

definition push_field_context :: "bytes \<Rightarrow> bencode_deserializer \<Rightarrow> bencode_deserializer" where
  "push_field_context b st =
     (if de_parsing_key st then
        if length (de_field_context st) < 4
        then st\<lparr> de_field_context := de_field_context st @ [b] \<rparr>
        else st\<lparr> de_field_context_did_not_fit :=
                  (if de_field_context_did_not_fit st = 255 then 255
                   else de_field_context_did_not_fit st + 1) \<rparr>
      else st)"

definition parse_bytes :: "(bytes \<Rightarrow> nat \<times> nat) \<Rightarrow> bytes de" where
  "parse_bytes from_radix_10 st =
     (let (v, len) = from_radix_10 (de_buf st)
      in if len > 0 \<and> len < length (de_buf st) \<and> de_buf st ! len = 58
         then
           let st = st\<lparr> de_buf := drop (len + 1) (de_buf st) \<rparr>
           in if v \<le> length (de_buf st)
              then let b = take v (de_buf st)
                   in (Inr b, push_field_context b (st\<lparr> de_buf := drop v (de_buf st) \<rparr>))
              else derr Eof st
         else derr InvalidValue st)"

definition starts_with_e :: "bencode_deserializer \<Rightarrow> bool" where
  "starts_with_e st \<longleftrightarrow> (case de_buf st of b # _ \<Rightarrow> b = 101 | [] \<Rightarrow> False)"

definition next_key_seed :: "(bytes \<Rightarrow> nat \<times> nat) \<Rightarrow> bytes option de" where
  "next_key_seed from_radix_10 st =
     (if starts_with_e st then (Inr None, st\<lparr> de_buf := drop 1 (de_buf st) \<rparr>)
      else dbind (parse_bytes from_radix_10)
             (\<lambda>key st. (Inr (Some key), st\<lparr> de_parsing_key := False \<rparr>))
             (st\<lparr> de_parsing_key := True \<rparr>))"

definition next_value_seed :: "'a de \<Rightarrow> 'a de" where
  "next_value_seed deserialize =
     dbind deserialize (\<lambda>v st.
       (Inr v,
        if de_field_context_did_not_fit st > 0
        then st\<lparr> de_field_context_did_not_fit := de_field_context_did_not_fit st - 1 \<rparr>
        else st\<lparr> de_field_context := butlast (de_field_context st) \<rparr>))"

definition next_element_seed :: "'a de \<Rightarrow> 'a option de" where
  "next_element_seed deserialize st =
     (if starts_with_e st then (Inr None, st\<lparr> de_buf := drop 1 (de_buf st) \<rparr>)
      else dbind deserialize (\<lambda>v. dret (Some v)) st)"

record atoi_fns =
  from_radix_10 :: "bytes \<Rightarrow> nat \<times> nat"
  from_radix_10_signed :: "bytes \<Rightarrow> i64 \<times> nat"

text \<open>
  \<^verbatim>\<open>BencodeValue::deserialize\<close> through \<^verbatim>\<open>deserialize_any\<close>. The argument of type \<^typ>\<open>nat\<close> bounds the
  number of nested calls and loop iterations; \<open>value_fuel_enough\<close> below gives a bound that is
  never reached.
\<close>

fun deserialize_value :: "atoi_fns \<Rightarrow> nat \<Rightarrow> bencode_value de"
  and visit_seq :: "atoi_fns \<Rightarrow> nat \<Rightarrow> bencode_value list \<Rightarrow> bencode_value de"
  and visit_map :: "atoi_fns \<Rightarrow> nat \<Rightarrow> (bytes \<times> bencode_value) list \<Rightarrow> bencode_value de" where
  "deserialize_value A 0 st = (Inl Panic, st)"
| "deserialize_value A (Suc n) st =
     (case de_buf st of
        [] \<Rightarrow> derr Eof st
      | c # _ \<Rightarrow>
          if c = 100 then dbind (parse_first_byte 100 InvalidValue) (\<lambda>_. visit_map A n []) st
          else if c = 105 then dbind (parse_integer (from_radix_10_signed A)) (\<lambda>v. dret (Integer v)) st
          else if c = 108 then dbind (parse_first_byte 108 InvalidValue) (\<lambda>_. visit_seq A n []) st
          else dbind (parse_bytes (from_radix_10 A)) (\<lambda>v. dret (Bytes v)) st)"
| "visit_seq A 0 v st = (Inl Panic, st)"
| "visit_seq A (Suc n) v st =
     dbind (next_element_seed (deserialize_value A n))
       (\<lambda>r. case r of None \<Rightarrow> dret (List v) | Some value \<Rightarrow> visit_seq A n (v @ [value])) st"
| "visit_map A 0 hmap st = (Inl Panic, st)"
| "visit_map A (Suc n) hmap st =
     dbind (next_key_seed (from_radix_10 A))
       (\<lambda>r. case r of
          None \<Rightarrow> dret (Dict hmap)
        | Some key \<Rightarrow>
            dbind (next_value_seed (deserialize_value A n))
              (\<lambda>value. visit_map A n (hm_insert key value hmap))) st"

record 'e error_with_context =
  ewc_kind :: "'e fault"
  ewc_ctx :: "bytes list"

definition value_fuel :: "bytes \<Rightarrow> nat" where
  "value_fuel buf = 2 * length buf + 2"

definition from_bytes_with_rest ::
  "(bytes \<Rightarrow> 'a de) \<Rightarrow> bytes \<Rightarrow> de_error error_with_context + 'a \<times> bytes" where
  "from_bytes_with_rest deserialize buf =
     (case deserialize buf (new_from_buf buf) of
        (Inr v, de) \<Rightarrow> Inr (v, de_buf de)
      | (Inl e, de) \<Rightarrow> Inl \<lparr> ewc_kind = e, ewc_ctx = de_field_context de \<rparr>)"

definition from_bytes :: "(bytes \<Rightarrow> 'a de) \<Rightarrow> bytes \<Rightarrow> de_error error_with_context + 'a" where
  "from_bytes deserialize buf =
     rbind (from_bytes_with_rest deserialize buf) (\<lambda>(v, rest).
       if rest \<noteq> [] then Inl \<lparr> ewc_kind = Err (BytesRemaining (length rest)), ewc_ctx = [] \<rparr>
       else Inr v)"

definition dyn_from_bytes :: "atoi_fns \<Rightarrow> bytes \<Rightarrow> de_error error_with_context + bencode_value" where
  "dyn_from_bytes A buf = from_bytes (\<lambda>b. deserialize_value A (value_fuel b)) buf"


section \<open>The decoder returns\<close>

lemma dbind_eq:
  "m st = (Inl e, st') \<Longrightarrow> dbind m f st = (Inl e, st')"
  "m st = (Inr a, st') \<Longrightarrow> dbind m f st = f a st'"
  by (simp_all add: dbind_def)

lemma dbind_cases:
  assumes "dbind m f st = (r, st'')"
  obtains e where "m st = (Inl e, st'')" "r = Inl e"
  | a st' where "m st = (Inr a, st')" "f a st' = (r, st'')"
  using assms by (auto simp: dbind_def split: prod.splits sum.splits)

text \<open>A parser that shortens the input when it succeeds, and never gets stuck.\<close>

definition consuming :: "bencode_deserializer \<Rightarrow> ('a, de_error) rust \<times> bencode_deserializer \<Rightarrow> bool" where
  "consuming st r \<longleftrightarrow> fst r \<noteq> Inl Panic \<and>
     (\<forall>a. fst r = Inr a \<longrightarrow> length (de_buf (snd r)) < length (de_buf st))"

definition settled :: "bencode_deserializer \<Rightarrow> ('a, de_error) rust \<times> bencode_deserializer \<Rightarrow> bool" where
  "settled st r \<longleftrightarrow> fst r \<noteq> Inl Panic \<and>
     (\<forall>a. fst r = Inr a \<longrightarrow> length (de_buf (snd r)) \<le> length (de_buf st))"

lemma consuming_settled: "consuming st r \<Longrightarrow> settled st r"
  by (auto simp: consuming_def settled_def)

lemma settled_ret: "settled st (dret a st)" "settled st (derr e st)"
  by (simp_all add: settled_def dret_def derr_def)

lemma consuming_bind:
  assumes "consuming st (m st)"
    and "\<And>a st'. m st = (Inr a, st') \<Longrightarrow> length (de_buf st') < length (de_buf st) \<Longrightarrow> settled st' (f a st')"
  shows "consuming st (dbind m f st)"
proof (cases "m st")
  case (Pair r st')
  show ?thesis
  proof (cases r)
    case (Inl e)
    then show ?thesis using assms(1) Pair by (simp add: dbind_def consuming_def)
  next
    case (Inr a)
    then have "length (de_buf st') < length (de_buf st)" using assms(1) Pair by (simp add: consuming_def)
    then show ?thesis using assms(2) [of a st'] Pair Inr by (auto simp: dbind_def consuming_def settled_def)
  qed
qed

lemma de_buf_push [simp]: "de_buf (push_field_context b st) = de_buf st"
  by (simp add: push_field_context_def)

lemma consuming_first: "consuming st (parse_first_byte c e st)"
  by (auto simp: consuming_def parse_first_byte_def derr_def split: list.split)

lemma consuming_integer: "consuming st (parse_integer atoi st)"
  unfolding parse_integer_def
  by (rule consuming_bind [OF consuming_first]) (auto simp: settled_def derr_def split: prod.split)

lemma consuming_bytes: "consuming st (parse_bytes atoi st)"
  by (auto simp: consuming_def parse_bytes_def derr_def Let_def split: prod.split)

lemma consuming_key: "consuming st (next_key_seed atoi st)"
proof (cases "starts_with_e st")
  case True
  then show ?thesis
    by (auto simp: consuming_def next_key_seed_def starts_with_e_def split: list.splits)
next
  case False
  have "consuming (st\<lparr>de_parsing_key := True\<rparr>) (next_key_seed atoi st)"
    unfolding next_key_seed_def using False
    by (simp, intro consuming_bind [OF consuming_bytes]) (auto simp: settled_def)
  then show ?thesis by (simp add: consuming_def)
qed

lemma consuming_value: "consuming st (m st) \<Longrightarrow> consuming st (next_value_seed m st)"
  unfolding next_value_seed_def by (erule consuming_bind) (auto simp: settled_def)

lemma consuming_element:
  assumes "consuming st (m st)"
  shows "consuming st (next_element_seed m st)"
proof (cases "starts_with_e st")
  case True
  then show ?thesis
    by (auto simp: consuming_def next_element_seed_def starts_with_e_def split: list.splits)
next
  case False
  have "consuming st (dbind m (\<lambda>v. dret (Some v)) st)"
    by (rule consuming_bind [where m = m, OF assms]) (rule settled_ret)
  then show ?thesis using False by (simp add: next_element_seed_def)
qed

lemma value_fuel_enough:
  "2 * length (de_buf st) + 1 \<le> n \<Longrightarrow> consuming st (deserialize_value A n st)"
  "2 * length (de_buf st) + 2 \<le> n \<Longrightarrow> consuming st (visit_seq A n v st)"
  "2 * length (de_buf st) + 2 \<le> n \<Longrightarrow> consuming st (visit_map A n m st)"
proof (induction A n st and A n v st and A n m st
    rule: deserialize_value_visit_seq_visit_map.induct)
  case (2 A n st)
  show ?case
  proof (cases "de_buf st")
    case Nil
    then show ?thesis by (simp add: derr_def consuming_def)
  next
    case (Cons c r)
    have "consuming st (dbind (parse_first_byte 100 InvalidValue) (\<lambda>_. visit_map A n []) st)"
      if "c = 100"
      using 2 Cons that by (auto intro!: consuming_bind [OF consuming_first] consuming_settled)
    moreover have "consuming st (dbind (parse_first_byte 108 InvalidValue) (\<lambda>_. visit_seq A n []) st)"
      if "c = 108"
      using 2 Cons that by (auto intro!: consuming_bind [OF consuming_first] consuming_settled)
    moreover have "consuming st (dbind (parse_integer (from_radix_10_signed A)) (\<lambda>v. dret (Integer v)) st)"
      by (rule consuming_bind [OF consuming_integer]) (rule settled_ret)
    moreover have "consuming st (dbind (parse_bytes (from_radix_10 A)) (\<lambda>v. dret (Bytes v)) st)"
      by (rule consuming_bind [OF consuming_bytes]) (rule settled_ret)
    ultimately show ?thesis using Cons by simp
  qed
next
  case (4 A n v st)
  have "consuming st (next_element_seed (deserialize_value A n) st)"
    using 4 by (intro consuming_element) simp
  then show ?case
    unfolding visit_seq.simps
  proof (rule consuming_bind)
    fix r and st' :: bencode_deserializer
    assume "length (de_buf st') < length (de_buf st)"
    then show "settled st' ((case r of None \<Rightarrow> dret (List v) | Some value \<Rightarrow> visit_seq A n (v @ [value])) st')"
      using 4 by (cases r) (auto intro!: settled_ret consuming_settled)
  qed
next
  case (6 A n m st)
  show ?case
    unfolding visit_map.simps
  proof (rule consuming_bind [OF consuming_key])
    fix r and st' :: bencode_deserializer
    assume st': "length (de_buf st') < length (de_buf st)"
    have "consuming st' (dbind (next_value_seed (deserialize_value A n))
        (\<lambda>v. visit_map A n (hm_insert k v m)) st')" for k
      using 6 st' by (intro consuming_bind consuming_value consuming_settled) auto
    then show "settled st' ((case r of None \<Rightarrow> dret (Dict m)
        | Some key \<Rightarrow> dbind (next_value_seed (deserialize_value A n))
            (\<lambda>value. visit_map A n (hm_insert key value m))) st')"
      by (cases r) (auto intro!: settled_ret consuming_settled)
  qed
qed auto

section \<open>Round trip\<close>

fun canon :: "bencode_value \<Rightarrow> bencode_value" where
  "canon (Bytes b) = Bytes b"
| "canon (Integer i) = Integer i"
| "canon (List l) = List (map canon l)"
| "canon (Dict d) = Dict (bt_of_list (map (\<lambda>(k, v). (k, canon v)) d))"

text \<open>
  Values a \<^verbatim>\<open>BencodeValue\<close> can hold: the keys of a dictionary are distinct, and byte strings are not
  longer than \<^verbatim>\<open>usize\<close> counts.
\<close>

fun value_ok :: "bencode_value \<Rightarrow> bool" where
  "value_ok (Bytes b) \<longleftrightarrow> length b < 2 ^ 64"
| "value_ok (Integer i) \<longleftrightarrow> True"
| "value_ok (List l) \<longleftrightarrow> (\<forall>v \<in> set l. value_ok v)"
| "value_ok (Dict d) \<longleftrightarrow> distinct (map fst d) \<and> (\<forall>(k, v) \<in> set d. length k < 2 ^ 64 \<and> value_ok v)"

definition is_digit :: "u8 \<Rightarrow> bool" where
  "is_digit b \<longleftrightarrow> 48 \<le> b \<and> b \<le> 57"

text \<open>
  What is used of \<^verbatim>\<open>atoi\<close>: on the decimal rendering of a number of the type followed by a byte that
  is not a digit, the parser returns the number and the length of the rendering.
\<close>

definition atoi_spec :: "atoi_fns \<Rightarrow> bool" where
  "atoi_spec A \<longleftrightarrow>
     (\<forall>n c rest. n < 2 ^ 64 \<longrightarrow> \<not> is_digit c \<longrightarrow>
        from_radix_10 A (dec n @ c # rest) = (n, length (dec n))) \<and>
     (\<forall>i c rest. \<not> is_digit c \<longrightarrow>
        from_radix_10_signed A (dec_int (sint i) @ c # rest) = (i, length (dec_int (sint i))))"

lemma dec_not_Nil [simp]: "dec n \<noteq> []"
  by (subst dec.simps) simp

lemma dec_digits: "b \<in> set (dec n) \<Longrightarrow> is_digit b"
proof (induction n rule: dec.induct)
  case (1 n)
  have d: "is_digit (of_nat (48 + k))" if "k < 10" for k :: nat
  proof -
    have "unat (of_nat (48 + k) :: u8) = 48 + k" using that by (simp only: unat_byte) simp
    then show ?thesis using that by (simp add: is_digit_def word_le_nat_alt)
  qed
  show ?case
  proof (cases "n < 10")
    case True
    then have "dec n = [of_nat (48 + n)]" by (subst dec.simps) simp
    then show ?thesis using 1 True d by simp
  next
    case False
    then have "dec n = dec (n div 10) @ [of_nat (48 + n mod 10)]" by (subst dec.simps) simp
    then show ?thesis using 1 False d [of "n mod 10"] by (auto simp del: of_nat_add)
  qed
qed

lemma hd_dec: "is_digit (hd (dec n))"
  by (rule dec_digits [of _ n]) simp

lemma is_digit_consts [simp]: "\<not> is_digit 101" "\<not> is_digit 58" "\<not> is_digit 100" "\<not> is_digit 105" "\<not> is_digit 108"
  by (simp_all add: is_digit_def word_le_nat_alt)

lemma parse_bytes_ok:
  assumes "atoi_spec A" "length b < 2 ^ 64" "de_buf st = write_bytes False b @ rest"
  shows "parse_bytes (from_radix_10 A) st = (Inr b, push_field_context b (st\<lparr> de_buf := rest \<rparr>))"
proof -
  have "from_radix_10 A (de_buf st) = (length b, length (dec (length b)))"
    using assms by (simp add: atoi_spec_def write_bytes_def)
  then show ?thesis using assms(3) by (simp add: parse_bytes_def write_bytes_def nth_append Let_def)
qed

lemma parse_integer_ok:
  assumes "atoi_spec A" "de_buf st = write_number (sint i) @ rest"
  shows "parse_integer (from_radix_10_signed A) st = (Inr i, st\<lparr> de_buf := rest \<rparr>)"
proof -
  have "dec_int (sint i) \<noteq> []" by (simp add: dec_int_def)
  moreover have "from_radix_10_signed A (dec_int (sint i) @ 101 # rest) = (i, length (dec_int (sint i)))"
    using assms(1) by (simp add: atoi_spec_def)
  ultimately show ?thesis using assms(2)
    by (simp add: parse_integer_def dbind_def parse_first_byte_def write_number_def nth_append)
qed

lemma bt_insert_map:
  "bt_insert k (f v) (map (\<lambda>(k, v). (k, f v)) xs) = map (\<lambda>(k, v). (k, f v)) (bt_insert k v xs)"
  by (induction k v xs rule: bt_insert.induct) auto

lemma bt_of_list_map:
  "bt_of_list (map (\<lambda>(k, v). (k, f v)) m) = map (\<lambda>(k, v). (k, f v)) (bt_of_list m)"
proof (induction m rule: rev_induct)
  case Nil
  show ?case by (simp add: bt_of_list_def)
next
  case (snoc e m)
  then show ?case by (cases e) (simp add: bt_of_list_snoc bt_insert_map)
qed

lemma serialize_Dict:
  "serialize_value False (Dict d) =
     100 # concat (map (\<lambda>(k, v). write_bytes False k @ serialize_value False v) (bt_of_list d)) @ [101]"
proof -
  have "bt_of_list (map (\<lambda>(k, v). (write_bytes True k, serialize_value False v)) d) =
      map (\<lambda>(k, v). (k, serialize_value False v)) (bt_of_list d)"
    unfolding bt_of_list_map [symmetric] by (simp add: write_bytes_def)
  then show ?thesis
    by (simp add: serialize_map_end_def o_def case_prod_unfold)
qed

lemma hm_insert_new: "k \<notin> set (map fst m) \<Longrightarrow> hm_insert k v m = m @ [(k, v)]"
  by (induction m) auto

lemma canon_Dict: "canon (Dict d) = Dict (map (\<lambda>(k, v). (k, canon v)) (bt_of_list d))"
  by (simp add: bt_of_list_map)

text \<open>The successful run of a parser on an encoding: the value, the rest of the input, key mode off.\<close>

definition decodes :: "'a de \<Rightarrow> bytes \<Rightarrow> 'a \<Rightarrow> bool" where
  "decodes m enc a \<longleftrightarrow>
     (\<forall>st rest. de_buf st = enc @ rest \<longrightarrow> \<not> de_parsing_key st \<longrightarrow>
        (\<exists>st'. m st = (Inr a, st') \<and> de_buf st' = rest \<and> \<not> de_parsing_key st'))"

lemma decodesD:
  "decodes m enc a \<Longrightarrow> de_buf st = enc @ rest \<Longrightarrow> \<not> de_parsing_key st \<Longrightarrow>
   \<exists>st'. m st = (Inr a, st') \<and> de_buf st' = rest \<and> \<not> de_parsing_key st'"
  by (auto simp: decodes_def)

lemma serialize_hd:
  "serialize_value False v = c # cs \<Longrightarrow> c \<noteq> 101"
  "serialize_value False v \<noteq> []"
proof -
  show "c \<noteq> 101" if "serialize_value False v = c # cs"
  proof (cases v)
    case (Bytes b)
    then have "hd (dec (length b)) = c" using that
      by (cases "dec (length b)") (auto simp: write_bytes_def)
    then show ?thesis using hd_dec [of "length b"] by auto
  qed (use that in \<open>auto simp: write_number_def\<close>)
  show "serialize_value False v \<noteq> []"
    by (cases v) (auto simp: write_bytes_def write_number_def)
qed

lemma visit_seq_ok:
  assumes "\<And>v n. v \<in> set l \<Longrightarrow> 2 * length (serialize_value False v) \<le> n \<Longrightarrow>
      decodes (deserialize_value A n) (serialize_value False v) (canon v)"
    and "2 * length (concat (map (serialize_value False) l)) + 1 \<le> n"
  shows "decodes (visit_seq A n acc) (concat (map (serialize_value False) l) @ [101]) (List (acc @ map canon l))"
  using assms
proof (induction l arbitrary: acc n)
  case Nil
  then obtain n' where "n = Suc n'" by (cases n) auto
  then show ?case
    by (auto simp: decodes_def dbind_def next_element_seed_def starts_with_e_def dret_def)
next
  case (Cons v l)
  let ?s = "serialize_value False"
  obtain n' where n: "n = Suc n'" using Cons.prems(2) by (cases n) auto
  have v: "decodes (deserialize_value A n') (?s v) (canon v)"
    using Cons.prems n by simp
  have l: "decodes (visit_seq A n' (acc @ [canon v])) (concat (map ?s l) @ [101]) (List (acc @ map canon (v # l)))"
    using Cons.IH [of n' "acc @ [canon v]"] Cons.prems n serialize_hd(2) [of v]
    by (cases "?s v") auto
  show ?case unfolding decodes_def
  proof (intro allI impI)
    fix st :: bencode_deserializer and rest
    assume st: "de_buf st = (concat (map ?s (v # l)) @ [101]) @ rest" "\<not> de_parsing_key st"
    from decodesD [OF v, of st "concat (map ?s l) @ [101] @ rest"] st obtain st1
      where st1: "deserialize_value A n' st = (Inr (canon v), st1)"
        "de_buf st1 = (concat (map ?s l) @ [101]) @ rest" "\<not> de_parsing_key st1" by auto
    have "\<not> starts_with_e st"
      using st(1) serialize_hd [of v] by (cases "?s v") (auto simp: starts_with_e_def)
    then have "visit_seq A n acc st = visit_seq A n' (acc @ [canon v]) st1"
      using st1(1) n by (simp add: dbind_def next_element_seed_def dret_def)
    then show "\<exists>st'. visit_seq A n acc st = (Inr (List (acc @ map canon (v # l))), st') \<and>
        de_buf st' = rest \<and> \<not> de_parsing_key st'"
      using decodesD [OF l st1(2,3)] by simp
  qed
qed

lemma next_key_ok:
  assumes "atoi_spec A" "length k < 2 ^ 64"
  shows "decodes (next_key_seed (from_radix_10 A)) (write_bytes False k) (Some k)"
  unfolding decodes_def
proof (intro allI impI)
  fix st :: bencode_deserializer and rest
  assume st: "de_buf st = write_bytes False k @ rest" "\<not> de_parsing_key st"
  have "\<not> starts_with_e st"
    using st(1) hd_dec [of "length k"]
    by (cases "dec (length k)") (auto simp: starts_with_e_def write_bytes_def)
  then show "\<exists>st'. next_key_seed (from_radix_10 A) st = (Inr (Some k), st') \<and> de_buf st' = rest \<and>
      \<not> de_parsing_key st'"
    using parse_bytes_ok [OF assms, of "st\<lparr>de_parsing_key := True\<rparr>" rest] st
    by (simp add: next_key_seed_def dbind_def)
qed

lemma next_value_ok: "decodes m enc v \<Longrightarrow> decodes (next_value_seed m) enc v"
  unfolding decodes_def next_value_seed_def dbind_def by (fastforce split: if_splits)

lemma visit_map_ok:
  assumes A: "atoi_spec A"
    and "\<And>k v n. (k, v) \<in> set d \<Longrightarrow> 2 * length (serialize_value False v) \<le> n \<Longrightarrow>
      decodes (deserialize_value A n) (serialize_value False v) (canon v)"
    and "\<And>k v. (k, v) \<in> set d \<Longrightarrow> length k < 2 ^ 64"
    and "distinct (map fst acc @ map fst d)"
    and "2 * length (concat (map (\<lambda>(k, v). write_bytes False k @ serialize_value False v) d)) + 1 \<le> n"
  shows "decodes (visit_map A n acc)
    (concat (map (\<lambda>(k, v). write_bytes False k @ serialize_value False v) d) @ [101])
    (Dict (acc @ map (\<lambda>(k, v). (k, canon v)) d))"
  using assms(2-)
proof (induction d arbitrary: acc n)
  case Nil
  then obtain n' where "n = Suc n'" by (cases n) auto
  then show ?case
    by (auto simp: decodes_def dbind_def next_key_seed_def starts_with_e_def dret_def)
next
  case (Cons e d)
  let ?s = "serialize_value False"
  let ?es = "\<lambda>d. concat (map (\<lambda>(k, v). write_bytes False k @ ?s v) d)"
  obtain k v where e: "e = (k, v)" by (cases e)
  obtain n' where n: "n = Suc n'" using Cons.prems(4) by (cases n) auto
  have v: "decodes (next_value_seed (deserialize_value A n')) (?s v) (canon v)"
    using Cons.prems(4) e n by (intro next_value_ok Cons.prems(1) [of k]) auto
  have k: "decodes (next_key_seed (from_radix_10 A)) (write_bytes False k) (Some k)"
    by (intro next_key_ok A Cons.prems(2) [of _ v]) (simp add: e)
  have ins: "hm_insert k (canon v) acc = acc @ [(k, canon v)]"
    using Cons.prems(3) e by (intro hm_insert_new) auto
  have d: "decodes (visit_map A n' (acc @ [(k, canon v)])) (?es d @ [101])
      (Dict ((acc @ [(k, canon v)]) @ map (\<lambda>(k, v). (k, canon v)) d))"
  proof (rule Cons.IH)
    have "0 < length (?s v)" using serialize_hd(2) [of v] by simp
    then show "2 * length (?es d) + 1 \<le> n'"
      using Cons.prems(4) e n by (simp del: length_greater_0_conv)
    show "distinct (map fst (acc @ [(k, canon v)]) @ map fst d)" using Cons.prems(3) e by auto
  qed (use Cons.prems(1,2) in \<open>meson list.set_intros(2)\<close>)+
  show ?case unfolding decodes_def
  proof (intro allI impI)
    fix st :: bencode_deserializer and rest
    assume st: "de_buf st = (?es (e # d) @ [101]) @ rest" "\<not> de_parsing_key st"
    from decodesD [OF k, of st "?s v @ ?es d @ [101] @ rest"] st e obtain st1
      where st1: "next_key_seed (from_radix_10 A) st = (Inr (Some k), st1)"
        "de_buf st1 = ?s v @ ?es d @ [101] @ rest" "\<not> de_parsing_key st1" by auto
    from decodesD [OF v st1(2,3)] obtain st2
      where st2: "next_value_seed (deserialize_value A n') st1 = (Inr (canon v), st2)"
        "de_buf st2 = (?es d @ [101]) @ rest" "\<not> de_parsing_key st2" by auto
    have "visit_map A n acc st = visit_map A n' (acc @ [(k, canon v)]) st2"
      using st1(1) st2(1) n ins by (simp add: dbind_def)
    then show "\<exists>st'. visit_map A n acc st = (Inr (Dict (acc @ map (\<lambda>(k, v). (k, canon v)) (e # d))), st') \<and>
        de_buf st' = rest \<and> \<not> de_parsing_key st'"
      using decodesD [OF d st2(2,3)] e by simp
  qed
qed

lemma value_decodes:
  assumes A: "atoi_spec A"
  shows "value_ok v \<Longrightarrow> 2 * length (serialize_value False v) \<le> n \<Longrightarrow>
    decodes (deserialize_value A n) (serialize_value False v) (canon v)"
proof (induction v arbitrary: n)
  case (Bytes b)
  obtain n' where n: "n = Suc n'" using Bytes.prems(2) by (cases n) (auto simp: write_bytes_def)
  obtain c cs where c: "dec (length b) = c # cs" by (cases "dec (length b)") auto
  have "is_digit c" using hd_dec [of "length b"] c by simp
  then have "c \<noteq> 100" "c \<noteq> 105" "c \<noteq> 108" by auto
  then show ?case
    using parse_bytes_ok [OF A, of b] Bytes.prems n c
    by (auto simp: decodes_def dbind_def dret_def write_bytes_def push_field_context_def)
next
  case (Integer i)
  obtain n' where n: "n = Suc n'" using Integer.prems(2) by (cases n) (auto simp: write_number_def)
  then show ?case
    using parse_integer_ok [OF A, of _ i]
    by (auto simp: decodes_def dbind_def dret_def write_number_def)
next
  case (List l)
  obtain n' where n: "n = Suc n'" using List.prems(2) by (cases n) auto
  have "decodes (visit_seq A n' []) (concat (map (serialize_value False) l) @ [101]) (List ([] @ map canon l))"
    using List n by (intro visit_seq_ok) auto
  then show ?case using n by (auto simp: decodes_def dbind_def parse_first_byte_def)
next
  case (Dict d)
  obtain n' where n: "n = Suc n'" using Dict.prems(2) by (cases n) auto
  let ?d = "bt_of_list d"
  have s: "set ?d = set d" using Dict.prems(1) by (simp add: set_bt_of_list)
  have "decodes (visit_map A n' [])
    (concat (map (\<lambda>(k, v). write_bytes False k @ serialize_value False v) ?d) @ [101])
    (Dict ([] @ map (\<lambda>(k, v). (k, canon v)) ?d))"
  proof (rule visit_map_ok [OF A])
    show "distinct (map fst [] @ map fst ?d)" by (simp add: bt.invar_distinct bt_of_list_ok)
    show "2 * length (concat (map (\<lambda>(k, v). write_bytes False k @ serialize_value False v) ?d)) + 1 \<le> n'"
      using Dict.prems(2) n unfolding serialize_Dict by simp
  qed (use Dict s in \<open>force+\<close>)
  then show ?case
    unfolding serialize_Dict canon_Dict using n
    by (auto simp: decodes_def dbind_def parse_first_byte_def)
qed

text \<open>The encoding depends only on the entries of the dictionaries, not on their order.\<close>

lemma serialize_canon: "value_ok v \<Longrightarrow> serialize_value False (canon v) = serialize_value False v"
proof (induction v)
  case (List l)
  then show ?case by (simp cong: map_cong)
next
  case (Dict d)
  let ?d = "bt_of_list d"
  have s: "set ?d = set d" using Dict.prems by (simp add: set_bt_of_list)
  have "bt_ok (map (\<lambda>(k, v). (k, canon v)) ?d)"
    using bt_of_list_ok [of d] by (simp add: bt_ok_def o_def case_prod_unfold)
  then have "bt_of_list (map (\<lambda>(k, v). (k, canon v)) ?d) = map (\<lambda>(k, v). (k, canon v)) ?d"
    by (rule bt_of_list_id)
  moreover have "serialize_value False (canon v) = serialize_value False v" if "(k, v) \<in> set ?d" for k v
    using Dict that s by force
  then have "map (\<lambda>(k, v). write_bytes False k @ serialize_value False (canon v)) ?d =
      map (\<lambda>(k, v). write_bytes False k @ serialize_value False v) ?d" by (intro map_cong) auto
  ultimately show ?case
    unfolding canon_Dict serialize_Dict map_map o_def by (simp add: case_prod_unfold cong: map_cong)
qed simp_all

section \<open>A reference integer parser\<close>

definition radix_10 :: "bytes \<Rightarrow> nat \<times> nat" where
  "radix_10 bs =
     (let ds = takeWhile is_digit bs
      in (foldl (\<lambda>a b. (a * 10 + (unat b - 48)) mod 2 ^ 64) 0 ds, length ds))"

definition radix_10_signed :: "bytes \<Rightarrow> i64 \<times> nat" where
  "radix_10_signed bs =
     (if bs \<noteq> [] \<and> hd bs = 45 then let (v, len) = radix_10 (tl bs) in (- of_nat v, Suc len)
      else let (v, len) = radix_10 bs in (of_nat v, len))"

definition atoi_ref :: atoi_fns where
  "atoi_ref = \<lparr> from_radix_10 = radix_10, from_radix_10_signed = radix_10_signed \<rparr>"

lemma foldl_dec:
  "n < 2 ^ 64 \<Longrightarrow> foldl (\<lambda>a b. (a * 10 + (unat b - 48)) mod 2 ^ 64) 0 (dec n) = n"
proof (induction n rule: dec.induct)
  case (1 n)
  have d: "unat (of_nat (48 + k) :: u8) = 48 + k" if "k < 10" for k :: nat
    using that by (simp only: unat_byte) simp
  show ?case
  proof (cases "n < 10")
    case True
    then have "dec n = [of_nat (48 + n)]" by (subst dec.simps) simp
    then show ?thesis using 1 d [OF True] by (simp del: of_nat_add)
  next
    case False
    then have n: "dec n = dec (n div 10) @ [of_nat (48 + n mod 10)]" by (subst dec.simps) simp
    have "foldl (\<lambda>a b. (a * 10 + (unat b - 48)) mod 2 ^ 64) 0 (dec (n div 10)) = n div 10"
      using 1 False by simp
    then show ?thesis using n 1 d [of "n mod 10"] by (simp del: of_nat_add)
  qed
qed

lemma radix_10_dec:
  assumes "n < 2 ^ 64" "\<not> is_digit c"
  shows "radix_10 (dec n @ c # rest) = (n, length (dec n))"
proof -
  have "takeWhile is_digit (dec n @ c # rest) = dec n"
    using assms(2) dec_digits by (subst takeWhile_append2) auto
  then show ?thesis using foldl_dec [OF assms(1)] by (simp add: radix_10_def)
qed

lemma atoi_ref_spec: "atoi_spec atoi_ref"
proof -
  have "radix_10_signed (dec_int (sint i) @ c # rest) = (i, length (dec_int (sint i)))"
    if c: "\<not> is_digit c" for i :: i64 and c rest
  proof -
    have b: "- (2 ^ 63) \<le> sint i" "sint i < 2 ^ 63"
      using sint_greater_eq [of i] sint_less [of i] by simp_all
    show ?thesis
    proof (cases "sint i < 0")
      case True
      have "nat (- sint i) < 2 ^ 64" using b by simp
      moreover have "- of_nat (nat (- sint i)) = (of_int (sint i) :: i64)" using True by simp
      ultimately show ?thesis
        using True by (simp add: dec_int_def radix_10_signed_def radix_10_dec [OF _ c])
    next
      case False
      have "hd (dec (nat (sint i))) \<noteq> 45"
        using hd_dec [of "nat (sint i)"] by (auto simp: is_digit_def word_le_nat_alt)
      moreover have "nat (sint i) < 2 ^ 64" using b by simp
      moreover have "of_nat (nat (sint i)) = (of_int (sint i) :: i64)" using False by simp
      ultimately show ?thesis
        using False by (simp add: dec_int_def radix_10_signed_def radix_10_dec [OF _ c] hd_append)
    qed
  qed
  then show ?thesis by (simp add: atoi_spec_def atoi_ref_def radix_10_dec)
qed

lemma bencode_decoder_total:
  "(\<exists>v. dyn_from_bytes A buf = Inr v) \<or> (\<exists>e ctx. dyn_from_bytes A buf = Inl \<lparr> ewc_kind = Err e, ewc_ctx = ctx \<rparr>)"
proof -
  obtain r st where r: "deserialize_value A (value_fuel buf) (new_from_buf buf) = (r, st)"
    by (cases "deserialize_value A (value_fuel buf) (new_from_buf buf)")
  have "consuming (new_from_buf buf) (deserialize_value A (value_fuel buf) (new_from_buf buf))"
    by (rule value_fuel_enough) (simp add: value_fuel_def new_from_buf_def)
  then have "r \<noteq> Inl Panic" using r by (simp add: consuming_def)
  then consider e where "r = Inl (Err e)" | v where "r = Inr v"
    by (metis fault.exhaust sum.exhaust)
  then show ?thesis
    by cases (use r in \<open>auto simp: dyn_from_bytes_def from_bytes_def from_bytes_with_rest_def\<close>)
qed

section \<open>Properties\<close>

text \<open>
  C22: decoding what the serializer wrote for a dynamic value gives the same value, with no bytes
  left, for every well-formed value, whatever the iteration order of its dictionaries was.
\<close>

theorem bencode_roundtrip:
  assumes "atoi_spec A" and "value_ok v"
  shows "dyn_from_bytes A (bencode_serialize v) = Inr (canon v)"
proof -
  let ?s = "bencode_serialize v"
  have "decodes (deserialize_value A (value_fuel ?s)) ?s (canon v)"
    using assms by (auto simp: bencode_serialize_def value_fuel_def intro: value_decodes)
  then obtain st' where "deserialize_value A (value_fuel ?s) (new_from_buf ?s) = (Inr (canon v), st')"
    "de_buf st' = []"
    using decodesD [of _ ?s "canon v" "new_from_buf ?s" "[]"] by (auto simp: new_from_buf_def)
  then show ?thesis by (simp add: dyn_from_bytes_def from_bytes_def from_bytes_with_rest_def)
qed

theorem bencode_roundtrip_witness:
  "dyn_from_bytes atoi_ref (bencode_serialize (Dict [([98], Integer (-1)), ([97], List [Bytes []])])) =
     Inr (canon (Dict [([98], Integer (-1)), ([97], List [Bytes []])]))"
  by (rule bencode_roundtrip [OF atoi_ref_spec]) simp

text \<open>
  C37: the serializer writes the same bytes for every iteration order of the dictionaries of a
  value: the encoding of a value is that of its canonical form.
\<close>

theorem bencode_deterministic:
  assumes "value_ok v" and "value_ok w" and "canon v = canon w"
  shows "bencode_serialize v = bencode_serialize w"
  using serialize_canon [OF assms(1)] serialize_canon [OF assms(2)] assms(3)
  by (simp add: bencode_serialize_def)

theorem bencode_deterministic_witness:
  "bencode_serialize (Dict [([98], Integer 1), ([97], Bytes [])]) =
   bencode_serialize (Dict [([97], Bytes []), ([98], Integer 1)])"
  by (rule bencode_deterministic) (simp_all add: bt_of_list_def)


end
