(* ===== verification/Double_Buf.thy ===== *)
theory Double_Buf
  imports Wire_Bytes
begin

text \<open>
  \<^verbatim>\<open>crates/librtbit-peer-protocol/src/double_buf.rs\<close>: a byte input split into two slices. The
  abstraction is the concatenation of the two; every operation is shown to act on it, whatever the
  split point.
\<close>

record double_buf =
  buf_0 :: bytes
  buf_1 :: bytes

definition DoubleBufHelper_new :: "bytes \<Rightarrow> bytes \<Rightarrow> double_buf" where
  "DoubleBufHelper_new b b2 = \<lparr> buf_0 = b, buf_1 = b2 \<rparr>"

definition consume_variable :: "nat \<Rightarrow> double_buf \<Rightarrow> (nat + bytes \<times> bytes) \<times> double_buf" where
  "consume_variable len d =
     (let available = length (buf_0 d) + length (buf_1 d)
      in if available < len then (Inl (len - available), d)
         else
           let first_len = min (length (buf_0 d)) len;
               second_len = min (len - first_len) (length (buf_1 d))
           in (Inr (take first_len (buf_0 d), take second_len (buf_1 d)),
               d\<lparr> buf_0 := drop first_len (buf_0 d), buf_1 := drop second_len (buf_1 d) \<rparr>))"

text \<open>The const parameter \<open>N\<close> is an argument; the two fast paths come first, as in the source.\<close>

definition consume :: "nat \<Rightarrow> double_buf \<Rightarrow> (nat + bytes) \<times> double_buf" where
  "consume n d =
     (if length (buf_0 d) \<ge> n then
        (Inr (take n (buf_0 d)), d\<lparr> buf_0 := drop n (buf_0 d) \<rparr>)
      else if length (buf_0 d) = 0 \<and> length (buf_1 d) \<ge> n then
        (Inr (take n (buf_1 d)), d\<lparr> buf_1 := drop n (buf_1 d) \<rparr>)
      else
        let first = min (length (buf_0 d)) n;
            second = min (length (buf_1 d)) (n - first);
            missing = n - first - second
        in if missing > 0 then (Inl missing, d)
           else (Inr (take first (buf_0 d) @ take second (buf_1 d)),
                 d\<lparr> buf_0 := drop first (buf_0 d), buf_1 := drop second (buf_1 d) \<rparr>))"

definition get_bufs :: "double_buf \<Rightarrow> bytes \<times> bytes" where
  "get_bufs d = (buf_0 d, buf_1 d)"

definition read_u32_be :: "double_buf \<Rightarrow> (nat + u32) \<times> double_buf" where
  "read_u32_be d =
     (case consume 4 d of
        (Inl e, d') \<Rightarrow> (Inl e, d')
      | (Inr data, d') \<Rightarrow> (Inr (from_be32 data), d'))"

definition read_u8 :: "double_buf \<Rightarrow> u8 option \<times> double_buf" where
  "read_u8 d =
     (case buf_0 d of
        b # r \<Rightarrow> (Some b, d\<lparr> buf_0 := r \<rparr>)
      | [] \<Rightarrow> (case buf_1 d of
                b # r \<Rightarrow> (Some b, d\<lparr> buf_1 := r \<rparr>)
              | [] \<Rightarrow> (None, d)))"

definition get_contiguous :: "double_buf \<Rightarrow> nat \<Rightarrow> bytes option" where
  "get_contiguous d len =
     (if length (buf_0 d) \<ge> len then Some (take len (buf_0 d))
      else if length (buf_0 d) = 0 \<and> length (buf_1 d) \<ge> len then Some (take len (buf_1 d))
      else None)"

definition db_len :: "double_buf \<Rightarrow> nat" where
  "db_len d = length (buf_0 d) + length (buf_1 d)"

definition db_is_empty :: "double_buf \<Rightarrow> bool" where
  "db_is_empty d \<longleftrightarrow> length (buf_0 d) = 0 \<and> length (buf_1 d) = 0"

definition advance :: "double_buf \<Rightarrow> nat \<Rightarrow> double_buf" where
  "advance d offset =
     (let buf_0_adv = min (length (buf_0 d)) offset;
          buf_1_adv = min (offset - buf_0_adv) (length (buf_1 d))
      in d\<lparr> buf_0 := drop buf_0_adv (buf_0 d), buf_1 := drop buf_1_adv (buf_1 d) \<rparr>)"

definition with_max_len :: "double_buf \<Rightarrow> nat \<Rightarrow> double_buf" where
  "with_max_len d max_len =
     (let buf_0_len = min (length (buf_0 d)) max_len;
          buf_1_len = min (max_len - buf_0_len) (length (buf_1 d))
      in \<lparr> buf_0 = take buf_0_len (buf_0 d), buf_1 = take buf_1_len (buf_1 d) \<rparr>)"

definition as_ioslices :: "double_buf \<Rightarrow> nat \<Rightarrow> bytes \<times> bytes" where
  "as_ioslices d len_limit =
     (let buf_0_len = min (length (buf_0 d)) len_limit;
          buf_1_len = min (len_limit - buf_0_len) (length (buf_1 d))
      in (take buf_0_len (buf_0 d), take buf_1_len (buf_1 d)))"

section \<open>The flat view\<close>

definition db_view :: "double_buf \<Rightarrow> bytes" where
  "db_view d = buf_0 d @ buf_1 d"

lemma db_view_new [simp]: "db_view (DoubleBufHelper_new a b) = a @ b"
  by (simp add: db_view_def DoubleBufHelper_new_def)

lemma db_len_view [simp]: "db_len d = length (db_view d)"
  by (simp add: db_len_def db_view_def)

lemma db_is_empty_view [simp]: "db_is_empty d \<longleftrightarrow> db_view d = []"
  by (auto simp: db_is_empty_def db_view_def)

lemma consume_variable_view:
  "consume_variable len d =
     (if length (db_view d) < len then (Inl (len - length (db_view d)), d)
      else (Inr (take len (buf_0 d), take (len - length (buf_0 d)) (buf_1 d)),
            \<lparr> buf_0 = drop len (buf_0 d), buf_1 = drop (len - length (buf_0 d)) (buf_1 d), \<dots> = double_buf.more d \<rparr>))"
  by (cases d) (auto simp: consume_variable_def db_view_def Let_def min_def)

lemma consume_short_view:
  "length (db_view d) < n \<Longrightarrow> consume n d = (Inl (n - length (db_view d)), d)"
  by (auto simp: consume_def db_view_def Let_def min_def)

lemma consume_enough_view:
  "n \<le> length (db_view d) \<Longrightarrow>
   fst (consume n d) = Inr (take n (db_view d)) \<and> db_view (snd (consume n d)) = drop n (db_view d)"
  by (auto simp: consume_def db_view_def Let_def min_def)

interpretation db: byte_reader db_view consume
  by unfold_locales (rule consume_enough_view consume_short_view; assumption)+

lemma read_u8_view:
  "read_u8 d = (None, d) \<and> db_view d = [] \<or>
   (\<exists>b d'. read_u8 d = (Some b, d') \<and> db_view d = b # db_view d')"
  by (auto simp: read_u8_def db_view_def split: list.splits)

lemma advance_view [simp]: "db_view (advance d n) = drop n (db_view d)"
  by (auto simp: advance_def db_view_def Let_def min_def)

lemma with_max_len_view [simp]: "db_view (with_max_len d n) = take n (db_view d)"
  by (auto simp: with_max_len_def db_view_def Let_def min_def)

lemma get_contiguous_view:
  "get_contiguous d n = Some c \<Longrightarrow> n \<le> length (db_view d) \<and> c = take n (db_view d)"
  by (auto simp: get_contiguous_def db_view_def split: if_splits)

lemma read_u32_append:
  assumes "db_view d = to_be32 w @ rest"
  obtains d' where "read_u32_be d = (Inr w, d')" "db_view d' = rest"
proof -
  obtain d' where "consume 4 d = (Inr (to_be32 w), d')" "db_view d' = rest"
    using db.consume_append [OF assms, of 4] by auto
  then show ?thesis using that by (simp add: read_u32_be_def)
qed

lemma read_u8_append:
  assumes "db_view d = b # rest"
  obtains d' where "read_u8 d = (Some b, d')" "db_view d' = rest"
  using read_u8_view [of d] assms that by auto

end
