(* ===== verification/Ut_Metadata.thy ===== *)
theory Ut_Metadata
  imports Bencode Double_Buf Lengths
begin

text \<open>
  The metadata exchange message, \<^verbatim>\<open>crates/librtbit-peer-protocol/src/extended/ut_metadata.rs\<close>. The
  derived deserializer of the header struct \<^verbatim>\<open>UtMetadataMsg\<close> is a parameter: it returns the header and
  the unread bytes, or an error.
\<close>

section \<open>Messages\<close>

record ut_metadata_data =
  umd_piece :: u32
  umd_total_size :: u32
  umd_data_0 :: bytes
  umd_data_1 :: bytes

datatype ut_metadata = UmRequest u32 | UmData ut_metadata_data | UmReject u32

record ut_metadata_msg =
  umm_msg_type :: u32
  umm_piece :: u32
  umm_total_size :: "u32 option"

datatype um_error =
    UmBencode de_error
  | UmNeedContiguous
  | UtMetadataMissingTotalSize
  | UtMetadataTooLarge u32
  | UtMetadataPieceOutOfBounds u32 u32
  | UtMetadataSizeMismatch u32 u32
  | UtMetadataTrailingBytes
  | UtMetadataTypeUnknown u32

definition umd_len :: "ut_metadata_data \<Rightarrow> nat" where
  "umd_len d = length (umd_data_0 d) + length (umd_data_1 d)"

definition umd_from_bytes :: "u32 \<Rightarrow> u32 \<Rightarrow> bytes \<Rightarrow> ut_metadata_data" where
  "umd_from_bytes piece total_size data =
     \<lparr> umd_piece = piece, umd_total_size = total_size, umd_data_0 = data, umd_data_1 = [] \<rparr>"

text \<open>\<^verbatim>\<open>copy_to_slice\<close>: both blocks into the front of \<open>out\<close>.\<close>

definition umd_copy_to_slice :: "ut_metadata_data \<Rightarrow> bytes \<Rightarrow> (bytes, 'e) rust" where
  "umd_copy_to_slice d out =
     rbind (write_at 0 (umd_data_0 d) out) (\<lambda>out. write_at (length (umd_data_0 d)) (umd_data_1 d) out)"

definition umd_validate :: "ut_metadata_data \<Rightarrow> um_error + unit" where
  "umd_validate d =
     (if umd_total_size d = 0 then Inl UtMetadataMissingTotalSize
      else if umd_len d > unat CHUNK_SIZE then Inl (UtMetadataTooLarge (of_nat (umd_len d)))
      else
        let total_pieces = div_ceil (umd_total_size d) CHUNK_SIZE
        in if umd_piece d \<ge> total_pieces
           then Inl (UtMetadataPieceOutOfBounds total_pieces (umd_piece d))
           else
             let off = umd_piece d * CHUNK_SIZE;
                 expected_size =
                   min (if umd_total_size d < off then 0 else umd_total_size d - off) CHUNK_SIZE
             in if of_nat (umd_len d) \<noteq> expected_size
                then Inl (UtMetadataSizeMismatch expected_size (of_nat (umd_len d)))
                else Inr ())"

section \<open>Codec\<close>

text \<open>Field names \<^verbatim>\<open>msg_type\<close>, \<^verbatim>\<open>piece\<close> and \<^verbatim>\<open>total_size\<close> as bytes.\<close>

definition k_msg_type :: bytes where
  "k_msg_type = [109, 115, 103, 95, 116, 121, 112, 101]"

definition k_piece :: bytes where
  "k_piece = [112, 105, 101, 99, 101]"

definition k_total_size :: bytes where
  "k_total_size = [116, 111, 116, 97, 108, 95, 115, 105, 122, 101]"

definition um_header :: "u32 \<Rightarrow> u32 \<Rightarrow> u32 option \<Rightarrow> bytes" where
  "um_header msg_type piece total_size =
     serialize_struct
       ([(k_msg_type, write_number (uint msg_type)), (k_piece, write_number (uint piece))]
        @ (case total_size of None \<Rightarrow> [] | Some t \<Rightarrow> [(k_total_size, write_number (uint t))]))"

fun um_serialize :: "ut_metadata \<Rightarrow> bytes" where
  "um_serialize (UmRequest piece) = um_header 0 piece None"
| "um_serialize (UmData d) =
     um_header 1 (umd_piece d) (Some (umd_total_size d)) @ umd_data_0 d @ umd_data_1 d"
| "um_serialize (UmReject piece) = um_header 2 piece None"

text \<open>The length of \<^verbatim>\<open>d8:msg_typei10e5:piecei4294967296e10:total_sizei16384ee\<close>.\<close>

definition MAX_BMSG_SIZE :: nat where
  "MAX_BMSG_SIZE = 55"

definition um_deserialize ::
  "(bytes \<Rightarrow> de_error + ut_metadata_msg \<times> bytes) \<Rightarrow> double_buf \<Rightarrow> um_error + ut_metadata" where
  "um_deserialize de_msg buf =
     (let (contig, is_contig) =
        (case get_contiguous buf (min MAX_BMSG_SIZE (db_len buf)) of
           Some c \<Rightarrow> (c, True)
         | None \<Rightarrow> (buf_0 buf, False))
      in case de_msg contig of
           Inl e \<Rightarrow> if is_contig then Inl (UmBencode e) else Inl UmNeedContiguous
         | Inr (message, remaining) \<Rightarrow>
             let buf = advance buf (length contig - length remaining)
             in if umm_msg_type message = 0 then
                  if \<not> db_is_empty buf then Inl UtMetadataTrailingBytes
                  else Inr (UmRequest (umm_piece message))
                else if umm_msg_type message = 1 then
                  case umm_total_size message of
                    None \<Rightarrow> Inl UtMetadataMissingTotalSize
                  | Some total_size \<Rightarrow>
                      let (data_0, data_1) = get_bufs buf;
                          d = \<lparr> umd_piece = umm_piece message, umd_total_size = total_size,
                                umd_data_0 = data_0, umd_data_1 = data_1 \<rparr>
                      in rbind (umd_validate d) (\<lambda>_. Inr (UmData d))
                else if umm_msg_type message = 2 then
                  if \<not> db_is_empty buf then Inl UtMetadataTrailingBytes
                  else Inr (UmReject (umm_piece message))
                else Inl (UtMetadataTypeUnknown (umm_msg_type message)))"

section \<open>Validation\<close>

text \<open>The ideal size of block \<open>k\<close> of a metadata blob of \<open>n\<close> bytes.\<close>

definition metadata_block :: "nat \<Rightarrow> nat \<Rightarrow> nat" where
  "metadata_block n k = min 16384 (n - k * 16384)"

lemma umd_validate_nat:
  "umd_validate d = Inr () \<longleftrightarrow>
     unat (umd_piece d) < nceil (unat (umd_total_size d)) 16384 \<and>
     umd_len d = metadata_block (unat (umd_total_size d)) (unat (umd_piece d))"
proof (cases "umd_total_size d = 0 \<or> umd_len d > 16384 \<or>
    \<not> unat (umd_piece d) < nceil (unat (umd_total_size d)) 16384")
  case True
  then show ?thesis
    by (auto simp: umd_validate_def metadata_block_def Let_def unat_div_ceil word_le_nat_alt)
next
  case False
  let ?t = "unat (umd_total_size d)" and ?k = "unat (umd_piece d)"
  have k: "?k * 16384 < ?t" using False by (simp add: less_nceil_iff)
  have "?t < 4294967296" by (rule unat_bound32)
  then have off: "unat (umd_piece d * CHUNK_SIZE) = ?k * 16384"
    using k by (simp add: unat_mult_small)
  then have ge: "\<not> umd_total_size d < umd_piece d * CHUNK_SIZE"
    using k by (simp add: word_less_nat_alt)
  have "unat (min (umd_total_size d - umd_piece d * CHUNK_SIZE) CHUNK_SIZE) = min (?t - ?k * 16384) 16384"
    using off k by (simp add: unat_min unat_diff_small)
  moreover have "unat (of_nat (umd_len d) :: u32) = umd_len d"
    using False by (simp add: unat_small_u32)
  ultimately have "of_nat (umd_len d) = min (umd_total_size d - umd_piece d * CHUNK_SIZE) CHUNK_SIZE
      \<longleftrightarrow> umd_len d = min (?t - ?k * 16384) 16384"
    by (simp add: word_unat_eq_iff)
  then show ?thesis
    using False ge
    by (auto simp: umd_validate_def metadata_block_def Let_def unat_div_ceil word_le_nat_alt min.commute)
qed

text \<open>
  C34: a metadata block that the decoder accepts is exactly the block its header announces: the
  piece number is inside the metadata and the payload has the length of that block, whatever the
  peer sent and whatever the header deserializer returned.
\<close>

theorem ut_metadata_accepts_exact_blocks:
  assumes "um_deserialize de_msg buf = Inr (UmData d)"
  shows "unat (umd_piece d) < nceil (unat (umd_total_size d)) 16384
    \<and> umd_len d = metadata_block (unat (umd_total_size d)) (unat (umd_piece d))"
proof -
  have "umd_validate d = Inr ()"
    using assms
    by (auto simp: um_deserialize_def Let_def rbind_eq_Inr split: prod.splits option.splits sum.splits if_splits)
  then show ?thesis by (simp add: umd_validate_nat)
qed

theorem ut_metadata_accepts_exact_blocks_witness:
  "um_deserialize (\<lambda>_. Inr (\<lparr> umm_msg_type = 1, umm_piece = 0, umm_total_size = Some 2 \<rparr>, [7, 8]))
      (DoubleBufHelper_new [1, 7, 8] []) =
    Inr (UmData (umd_from_bytes 0 2 [7, 8])) \<and>
   unat (umd_piece (umd_from_bytes 0 2 [7, 8])) < nceil (unat (umd_total_size (umd_from_bytes 0 2 [7, 8]))) 16384"
proof -
  have "um_deserialize (\<lambda>_. Inr (\<lparr> umm_msg_type = 1, umm_piece = 0, umm_total_size = Some 2 \<rparr>, [7, 8]))
      (DoubleBufHelper_new [1, 7, 8] []) = Inr (UmData (umd_from_bytes 0 2 [7, 8]))"
    by (simp add: um_deserialize_def DoubleBufHelper_new_def get_contiguous_def MAX_BMSG_SIZE_def
        db_view_def advance_def get_bufs_def umd_validate_def umd_len_def umd_from_bytes_def
        CHUNK_SIZE_def div_ceil_def Let_def)
  with ut_metadata_accepts_exact_blocks [OF this] show ?thesis by blast
qed

section \<open>Round trip\<close>

text \<open>
  What is used of the derived header deserializer: it reads back the header that the derived
  serializer wrote and leaves the bytes after it.
\<close>

definition um_header_spec :: "(bytes \<Rightarrow> de_error + ut_metadata_msg \<times> bytes) \<Rightarrow> bool" where
  "um_header_spec de_msg \<longleftrightarrow>
     (\<forall>t p ts rest. de_msg (um_header t p ts @ rest) =
        Inr (\<lparr> umm_msg_type = t, umm_piece = p, umm_total_size = ts \<rparr>, rest))"

lemma um_key_lengths [simp]: "length k_msg_type = 8" "length k_piece = 5" "length k_total_size = 10"
  by (simp_all add: k_msg_type_def k_piece_def k_total_size_def)

lemma um_keys_less: "k_msg_type < k_piece" "k_msg_type < k_total_size" "k_piece < k_total_size"
  by (simp_all add: k_msg_type_def k_piece_def k_total_size_def)

lemma bt_of_list_keys:
  "bt_of_list [(k_msg_type, a), (k_piece, b)] = [(k_msg_type, a), (k_piece, b)]"
  "bt_of_list [(k_msg_type, a), (k_piece, b), (k_total_size, c)] =
     [(k_msg_type, a), (k_piece, b), (k_total_size, c)]"
  by (rule bt_of_list_id, simp add: bt_ok_def um_keys_less)+

lemma length_dec: "n < 10 ^ k \<Longrightarrow> 0 < k \<Longrightarrow> length (dec n) \<le> k"
proof (induction k arbitrary: n)
  case (Suc k)
  show ?case
  proof (cases "n < 10")
    case True
    then show ?thesis by (subst dec.simps) simp
  next
    case False
    then have k: "0 < k" using Suc.prems by (cases k) auto
    have "n div 10 < 10 ^ k" using Suc.prems by (simp add: div_less_iff_less_mult mult.commute)
    then have "length (dec (n div 10)) \<le> k" using Suc.IH k by blast
    then show ?thesis using False by (subst dec.simps) simp
  qed
qed simp

lemma length_um_header:
  assumes "umd_validate d = Inr ()"
  shows "length (um_header 1 (umd_piece d) (Some (umd_total_size d))) \<le> MAX_BMSG_SIZE"
proof -
  let ?t = "unat (umd_total_size d)" and ?k = "unat (umd_piece d)"
  have t: "?t < 4294967296" by (rule unat_bound32)
  have "?k * 16384 < ?t" using assms by (simp add: umd_validate_nat less_nceil_iff)
  then have "?k < 10 ^ 6" using t by simp
  then have "length (dec ?k) \<le> 6" by (rule length_dec) simp
  moreover have "length (dec ?t) \<le> 10" using t by (intro length_dec) simp_all
  moreover have "length (dec 1) = 1" "length (dec 8) = 1" "length (dec 5) = 1" "length (dec 10) = 2"
    by (simp_all add: dec.simps)
  moreover have "um_header 1 (umd_piece d) (Some (umd_total_size d)) =
      100 # write_bytes False k_msg_type @ write_number (uint (1 :: u32))
        @ write_bytes False k_piece @ write_number (uint (umd_piece d))
        @ write_bytes False k_total_size @ write_number (uint (umd_total_size d)) @ [101]"
    by (simp add: um_header_def serialize_struct_def bt_of_list_keys serialize_map_end_def)
  ultimately show ?thesis
    by (simp add: write_bytes_def write_number_def dec_int_def MAX_BMSG_SIZE_def)
qed

lemma um_serialize_prefix:
  "c = take n (h @ data) \<Longrightarrow> length h \<le> n \<Longrightarrow> c = h @ take (n - length h) data"
  by simp

text \<open>
  C35: a valid metadata block survives serialization and deserialization: piece number, total
  size and payload are read back, wherever the two halves of the receive buffer meet, as long as
  the meeting point is not inside the bencoded header.
\<close>

theorem ut_metadata_data_roundtrip:
  assumes spec: "um_header_spec de_msg" and ok: "umd_validate d = Inr ()"
    and split: "b0 @ b1 = um_serialize (UmData d)"
    and at: "b0 = [] \<or> length (um_header 1 (umd_piece d) (Some (umd_total_size d))) \<le> length b0"
  shows "\<exists>d'. um_deserialize de_msg (DoubleBufHelper_new b0 b1) = Inr (UmData d')
    \<and> umd_piece d' = umd_piece d \<and> umd_total_size d' = umd_total_size d
    \<and> umd_data_0 d' @ umd_data_1 d' = umd_data_0 d @ umd_data_1 d"
proof -
  let ?h = "um_header 1 (umd_piece d) (Some (umd_total_size d))"
  let ?data = "umd_data_0 d @ umd_data_1 d" and ?buf = "DoubleBufHelper_new b0 b1"
  let ?msg = "\<lparr> umm_msg_type = 1, umm_piece = umd_piece d, umm_total_size = Some (umd_total_size d) \<rparr>"
  have v: "db_view ?buf = ?h @ ?data" using split by simp
  define n where "n = min MAX_BMSG_SIZE (db_len ?buf)"
  have hn: "length ?h \<le> n" using length_um_header [OF ok] v by (simp add: n_def)
  define c where "c = (case get_contiguous ?buf n of Some c \<Rightarrow> (c, True) | None \<Rightarrow> (buf_0 ?buf, False))"
  obtain m where m: "fst c = take m (?h @ ?data)" "length ?h \<le> m"
  proof (cases "get_contiguous ?buf n")
    case (Some x)
    have "fst c = x" by (simp add: c_def Some)
    moreover have "x = take n (?h @ ?data)" using get_contiguous_view [OF Some] unfolding v by simp
    ultimately have "fst c = take n (?h @ ?data)" by simp
    then show ?thesis using that hn by blast
  next
    case None
    have "b0 \<noteq> []"
    proof
      assume "b0 = []"
      then show False using None
        by (auto simp: get_contiguous_def DoubleBufHelper_new_def n_def db_view_def split: if_splits)
    qed
    then have "length ?h \<le> length b0" using at by simp
    moreover have "fst c = take (length b0) (?h @ ?data)"
      using None split [symmetric] by (simp add: c_def DoubleBufHelper_new_def)
    ultimately show ?thesis using that by blast
  qed
  let ?rem = "take (m - length ?h) ?data"
  have "fst c = ?h @ ?rem" using um_serialize_prefix [OF m] .
  then have de: "de_msg (fst c) = Inr (?msg, ?rem)" and len: "length (fst c) - length ?rem = length ?h"
    using spec by (simp_all add: um_header_spec_def)
  define b' where "b' = advance ?buf (length ?h)"
  define d' where "d' = \<lparr> umd_piece = umd_piece d, umd_total_size = umd_total_size d,
      umd_data_0 = buf_0 b', umd_data_1 = buf_1 b' \<rparr>"
  have data: "umd_data_0 d' @ umd_data_1 d' = ?data"
    using v by (simp add: d'_def b'_def flip: db_view_def)
  then have "umd_len d' = umd_len d" unfolding umd_len_def by (metis length_append)
  then have "umd_validate d' = Inr ()" using ok by (simp add: umd_validate_nat d'_def)
  then have "um_deserialize de_msg ?buf = Inr (UmData d')"
    using de len unfolding um_deserialize_def
    unfolding n_def [symmetric] c_def [symmetric]
    by (simp add: case_prod_unfold b'_def [symmetric] d'_def [symmetric] get_bufs_def Let_def)
  then show ?thesis using data by (auto simp: d'_def)
qed

text \<open>A header deserializer with that behaviour, on top of the dynamic decoder.\<close>

definition um_header_ref :: "bytes \<Rightarrow> de_error + ut_metadata_msg \<times> bytes" where
  "um_header_ref buf =
     (case deserialize_value atoi_ref (value_fuel buf) (new_from_buf buf) of
        (Inr (Dict m), st) \<Rightarrow>
          (case (map_of m k_msg_type, map_of m k_piece) of
             (Some (Integer t), Some (Integer p)) \<Rightarrow>
               Inr (\<lparr> umm_msg_type = ucast t, umm_piece = ucast p,
                      umm_total_size =
                        (case map_of m k_total_size of Some (Integer x) \<Rightarrow> Some (ucast x) | _ \<Rightarrow> None) \<rparr>,
                    de_buf st)
           | _ \<Rightarrow> Inl InvalidValue)
      | _ \<Rightarrow> Inl InvalidValue)"

lemma sint_ucast_u32: "sint (ucast (t :: u32) :: i64) = uint t"
proof -
  have b: "uint t < 2 ^ LENGTH(32)" "- (2 ^ 63) \<le> uint t" using unsigned_less [of t]
    by (simp_all add: order.trans [of _ 0])
  then have "signed_take_bit 63 (uint t) = uint t"
    by (intro signed_take_bit_int_eq_self) simp_all
  then show ?thesis using b(1) by (simp add: sint_uint unsigned_ucast_eq take_bit_int_eq_self)
qed

lemma ucast_u32_i64 [simp]: "ucast (ucast (t :: u32) :: i64) = t"
  using unat_bound32 [of t] by (simp add: word_unat_eq_iff unat_ucast [of "ucast t :: i64"])

lemma um_header_value:
  "um_header t p ts = serialize_value False (Dict ([(k_msg_type, Integer (ucast t)), (k_piece, Integer (ucast p))]
     @ (case ts of None \<Rightarrow> [] | Some x \<Rightarrow> [(k_total_size, Integer (ucast x))])))"
  unfolding serialize_Dict
  by (cases ts) (simp_all add: um_header_def serialize_struct_def bt_of_list_keys
      serialize_map_end_def sint_ucast_u32)

lemma um_header_ref_spec: "um_header_spec um_header_ref"
  unfolding um_header_spec_def
proof (intro allI)
  fix t p :: u32 and ts and rest :: bytes
  let ?h = "um_header t p ts"
  let ?d = "Dict ([(k_msg_type, Integer (ucast t)), (k_piece, Integer (ucast p))]
     @ (case ts of None \<Rightarrow> [] | Some x \<Rightarrow> [(k_total_size, Integer (ucast x))]))"
  have keys: "k_msg_type \<noteq> k_piece" "k_msg_type \<noteq> k_total_size" "k_piece \<noteq> k_total_size"
    using um_keys_less by auto
  have ok: "value_ok ?d" using keys by (cases ts) auto
  have canon: "canon ?d = ?d" by (cases ts) (simp_all add: bt_of_list_keys)
  have "decodes (deserialize_value atoi_ref (value_fuel (?h @ rest))) ?h ?d"
    using value_decodes [OF atoi_ref_spec ok, of "value_fuel (?h @ rest)"]
    unfolding canon um_header_value [symmetric] by (simp add: value_fuel_def)
  then obtain st' where st': "deserialize_value atoi_ref (value_fuel (?h @ rest)) (new_from_buf (?h @ rest)) = (Inr ?d, st')"
    "de_buf st' = rest"
    using decodesD [of _ ?h ?d "new_from_buf (?h @ rest)" rest] by (auto simp: new_from_buf_def)
  show "um_header_ref (?h @ rest) = Inr (\<lparr> umm_msg_type = t, umm_piece = p, umm_total_size = ts \<rparr>, rest)"
    using st' keys unfolding um_header_ref_def by (cases ts) (auto split: option.splits)
qed

theorem ut_metadata_data_roundtrip_witness:
  "\<exists>d'. um_deserialize um_header_ref
      (DoubleBufHelper_new [] (um_serialize (UmData (umd_from_bytes 0 3 [1, 2, 3])))) = Inr (UmData d')
    \<and> umd_piece d' = 0 \<and> umd_total_size d' = 3 \<and> umd_data_0 d' @ umd_data_1 d' = [1, 2, 3]"
  using ut_metadata_data_roundtrip [OF um_header_ref_spec, of "umd_from_bytes 0 3 [1, 2, 3]" "[]"]
  by (simp add: umd_validate_nat umd_from_bytes_def umd_len_def metadata_block_def nceil_def)

end
