(* ===== verification/Compact_Ip.thy ===== *)
theory Compact_Ip
  imports Wire_Bytes
begin

text \<open>
  Compact binary addresses, \<^verbatim>\<open>crates/librtbit-core/src/compact_ip.rs\<close>. An IPv4 or IPv6 address is the
  number its octets spell in network order. The trait \<^verbatim>\<open>CompactSerialize\<close> is the contract
  \<open>compact_codec\<close>, interpreted for each implementation; the lists of \<^verbatim>\<open>CompactListInBuffer\<close> are read
  back element by element under that contract.
\<close>

section \<open>Addresses\<close>

type_synonym ipv4_addr = "32 word"
type_synonym ipv6_addr = "128 word"

datatype ip_addr = V4 ipv4_addr | V6 ipv6_addr

record socket_addr_v4 =
  sa4_ip :: ipv4_addr
  sa4_port :: u16

record socket_addr_v6 =
  sa6_ip :: ipv6_addr
  sa6_port :: u16
  sa6_flowinfo :: u32
  sa6_scope_id :: u32

datatype socket_addr = SV4 socket_addr_v4 | SV6 socket_addr_v6

fun sa_ip :: "socket_addr \<Rightarrow> ip_addr" where
  "sa_ip (SV4 a) = V4 (sa4_ip a)"
| "sa_ip (SV6 a) = V6 (sa6_ip a)"

fun sa_port :: "socket_addr \<Rightarrow> u16" where
  "sa_port (SV4 a) = sa4_port a"
| "sa_port (SV6 a) = sa6_port a"

text \<open>\<^verbatim>\<open>SocketAddr::new\<close>.\<close>

fun sa_new :: "ip_addr \<Rightarrow> u16 \<Rightarrow> socket_addr" where
  "sa_new (V4 a) p = SV4 \<lparr> sa4_ip = a, sa4_port = p \<rparr>"
| "sa_new (V6 a) p = SV6 \<lparr> sa6_ip = a, sa6_port = p, sa6_flowinfo = 0, sa6_scope_id = 0 \<rparr>"

section \<open>Codecs\<close>

definition ipv4_as_slice :: "ipv4_addr \<Rightarrow> bytes" where
  "ipv4_as_slice a = to_be32 a"

definition ipv4_from_slice_unchecked_len :: "bytes \<Rightarrow> (ipv4_addr, 'e) rust" where
  "ipv4_from_slice_unchecked_len buf = (if length buf = 4 then Inr (from_be32 buf) else Inl Panic)"

definition ipv4_from_slice :: "bytes \<Rightarrow> ipv4_addr option" where
  "ipv4_from_slice buf = (if 4 \<le> length buf then Some (from_be32 (take 4 buf)) else None)"

definition ipv6_as_slice :: "ipv6_addr \<Rightarrow> bytes" where
  "ipv6_as_slice a = to_be128 a"

definition ipv6_from_slice_unchecked_len :: "bytes \<Rightarrow> (ipv6_addr, 'e) rust" where
  "ipv6_from_slice_unchecked_len buf = (if length buf = 16 then Inr (from_be128 buf) else Inl Panic)"

definition ipv6_from_slice :: "bytes \<Rightarrow> ipv6_addr option" where
  "ipv6_from_slice buf = (if 16 \<le> length buf then Some (from_be128 (take 16 buf)) else None)"

fun ip_as_slice :: "ip_addr \<Rightarrow> bytes" where
  "ip_as_slice (V4 a) = ipv4_as_slice a"
| "ip_as_slice (V6 a) = ipv6_as_slice a"

definition ip_from_slice :: "bytes \<Rightarrow> (ip_addr option, 'e) rust" where
  "ip_from_slice buf =
     (if length buf = 4 then rbind (ipv4_from_slice_unchecked_len buf) (\<lambda>a. Inr (Some (V4 a)))
      else if length buf = 16 then rbind (ipv6_from_slice_unchecked_len buf) (\<lambda>a. Inr (Some (V6 a)))
      else Inr None)"

definition sa4_as_slice :: "socket_addr_v4 \<Rightarrow> bytes" where
  "sa4_as_slice a = to_be32 (sa4_ip a) @ to_be16 (sa4_port a)"

definition sa4_from_slice_unchecked_len :: "bytes \<Rightarrow> (socket_addr_v4, 'e) rust" where
  "sa4_from_slice_unchecked_len buf =
     (if length buf < 6 then Inl Panic
      else rbind (ipv4_from_slice_unchecked_len (take 4 buf)) (\<lambda>ip.
        Inr \<lparr> sa4_ip = ip, sa4_port = from_be16 [buf ! 4, buf ! 5] \<rparr>))"

definition sa4_from_slice :: "bytes \<Rightarrow> (socket_addr_v4 option, 'e) rust" where
  "sa4_from_slice buf =
     (if length buf \<noteq> 6 then Inr None else rbind (sa4_from_slice_unchecked_len buf) (\<lambda>a. Inr (Some a)))"

definition sa6_as_slice :: "socket_addr_v6 \<Rightarrow> bytes" where
  "sa6_as_slice a = to_be128 (sa6_ip a) @ to_be16 (sa6_port a)"

definition sa6_from_slice_unchecked_len :: "bytes \<Rightarrow> (socket_addr_v6, 'e) rust" where
  "sa6_from_slice_unchecked_len buf =
     (if length buf < 18 then Inl Panic
      else rbind (ipv6_from_slice_unchecked_len (take 16 buf)) (\<lambda>ip.
        Inr \<lparr> sa6_ip = ip, sa6_port = from_be16 [buf ! 16, buf ! 17], sa6_flowinfo = 0, sa6_scope_id = 0 \<rparr>))"

definition sa6_from_slice :: "bytes \<Rightarrow> (socket_addr_v6 option, 'e) rust" where
  "sa6_from_slice buf =
     (if length buf \<noteq> 18 then Inr None else rbind (sa6_from_slice_unchecked_len buf) (\<lambda>a. Inr (Some a)))"

definition sa_as_slice :: "socket_addr \<Rightarrow> bytes" where
  "sa_as_slice a = ip_as_slice (sa_ip a) @ to_be16 (sa_port a)"

definition sa_from_slice :: "bytes \<Rightarrow> (socket_addr option, 'e) rust" where
  "sa_from_slice buf =
     (if length buf = 6 then rbind (sa4_from_slice_unchecked_len buf) (\<lambda>a. Inr (Some (SV4 a)))
      else if length buf = 18 then rbind (sa6_from_slice_unchecked_len buf) (\<lambda>a. Inr (Some (SV6 a)))
      else Inr None)"

section \<open>Lists in a buffer\<close>

definition list_new_from_iter :: "('a \<Rightarrow> bytes) \<Rightarrow> 'a list \<Rightarrow> bytes" where
  "list_new_from_iter as_slice it = concat (map as_slice it)"

text \<open>\<^verbatim>\<open>chunks_exact(n)\<close> panics for \<open>n = 0\<close> and drops a shorter tail.\<close>

function chunks_exact :: "nat \<Rightarrow> bytes \<Rightarrow> bytes list" where
  "chunks_exact n buf =
     (if n = 0 \<or> length buf < n then [] else take n buf # chunks_exact n (drop n buf))"
  by pat_completeness auto
termination by (relation "measure (\<lambda>(n, buf). length buf)") auto

declare chunks_exact.simps [simp del]

fun collect :: "('a, 'e) rust list \<Rightarrow> ('a list, 'e) rust" where
  "collect [] = Inr []"
| "collect (r # rs) = rbind r (\<lambda>a. rbind (collect rs) (\<lambda>as. Inr (a # as)))"

definition list_iter :: "nat \<Rightarrow> (bytes \<Rightarrow> ('a, 'e) rust) \<Rightarrow> bytes \<Rightarrow> ('a list, 'e) rust" where
  "list_iter fixed_len from_slice_unchecked_len buf =
     (if fixed_len = 0 then Inl Panic
      else collect (map from_slice_unchecked_len (chunks_exact fixed_len buf)))"

definition list_get :: "nat \<Rightarrow> (bytes \<Rightarrow> ('a, 'e) rust) \<Rightarrow> bytes \<Rightarrow> nat \<Rightarrow> ('a option, 'e) rust" where
  "list_get fixed_len from_slice_unchecked_len buf idx =
     (let offset = idx * fixed_len; end = offset + fixed_len
      in if end \<le> length buf
         then rbind (from_slice_unchecked_len (take fixed_len (drop offset buf))) (\<lambda>a. Inr (Some a))
         else Inr None)"

definition list_deserialize :: "nat \<Rightarrow> bytes \<Rightarrow> (bytes, nat) rust" where
  "list_deserialize fixed_len buf =
     (if length buf mod fixed_len \<noteq> 0 then Inl (Err (length buf)) else Inr buf)"

section \<open>The codec contract\<close>

locale compact_codec =
  fixes ok :: "'a \<Rightarrow> bool"
    and as_slice :: "'a \<Rightarrow> bytes"
    and from_unchecked :: "bytes \<Rightarrow> ('a, 'e) rust"
    and fixed_len :: nat
  assumes len_pos: "0 < fixed_len"
    and as_len: "length (as_slice a) = fixed_len"
    and decode: "ok a \<Longrightarrow> from_unchecked (as_slice a) = Inr a"
    and no_panic: "length buf = fixed_len \<Longrightarrow> \<exists>a. from_unchecked buf = Inr a"
begin

lemma chunks_of_list: "chunks_exact fixed_len (list_new_from_iter as_slice xs) = map as_slice xs"
proof (induction xs)
  case Nil
  show ?case using len_pos by (simp add: list_new_from_iter_def chunks_exact.simps [of fixed_len "[]"])
next
  case (Cons x xs)
  have "chunks_exact fixed_len (as_slice x @ list_new_from_iter as_slice xs) =
      as_slice x # chunks_exact fixed_len (list_new_from_iter as_slice xs)"
    using len_pos as_len [of x] by (subst chunks_exact.simps) simp
  then show ?case using Cons by (simp add: list_new_from_iter_def)
qed

lemma iter_new_from_iter:
  assumes "\<forall>x \<in> set xs. ok x"
  shows "list_iter fixed_len from_unchecked (list_new_from_iter as_slice xs) = Inr xs"
proof -
  have "collect (map from_unchecked (map as_slice xs)) = Inr xs"
    using assms by (induction xs) (simp_all add: decode)
  then show ?thesis using len_pos by (simp add: list_iter_def chunks_of_list)
qed

lemma length_new_from_iter: "length (list_new_from_iter as_slice xs) = length xs * fixed_len"
  by (induction xs) (simp_all add: list_new_from_iter_def as_len)

lemma get_new_from_iter:
  assumes "\<forall>x \<in> set xs. ok x"
  shows "list_get fixed_len from_unchecked (list_new_from_iter as_slice xs) i =
    Inr (if i < length xs then Some (xs ! i) else None)"
proof (cases "i < length xs")
  case True
  have "list_new_from_iter as_slice xs =
      list_new_from_iter as_slice (take i xs) @ as_slice (xs ! i) @ list_new_from_iter as_slice (drop (Suc i) xs)"
    using id_take_nth_drop [OF True] unfolding list_new_from_iter_def
    by (metis concat.simps(2) concat_append list.simps(9) map_append)
  then have "take fixed_len (drop (i * fixed_len) (list_new_from_iter as_slice xs)) = as_slice (xs ! i)"
    using True length_new_from_iter [of "take i xs"] as_len by (simp add: min_def)
  moreover have "i * fixed_len + fixed_len \<le> length xs * fixed_len"
    using True mult_le_mono1 [of "Suc i" "length xs" fixed_len] by simp
  ultimately show ?thesis
    using True assms by (simp add: list_get_def length_new_from_iter decode)
next
  case False
  then have "length xs * fixed_len \<le> i * fixed_len" by simp
  then have "\<not> i * fixed_len + fixed_len \<le> length xs * fixed_len" using len_pos by linarith
  then show ?thesis using False by (simp add: list_get_def length_new_from_iter)
qed

lemma iter_no_panic: "\<exists>xs. list_iter fixed_len from_unchecked buf = Inr xs"
proof -
  have len: "length c = fixed_len" if "c \<in> set (chunks_exact fixed_len buf)" for c
    using that by (induction fixed_len buf rule: chunks_exact.induct)
      (subst (asm) (2) chunks_exact.simps, auto split: if_splits)
  have "\<exists>xs. collect (map from_unchecked cs) = Inr xs" if "\<forall>c \<in> set cs. length c = fixed_len" for cs
    using that
  proof (induction cs)
    case (Cons c cs)
    then show ?case using no_panic [of c] by auto
  qed simp
  then show ?thesis using len len_pos by (simp add: list_iter_def)
qed

end

lemma two_bytes: "length bs = Suc (Suc n) \<Longrightarrow> [bs ! n, bs ! Suc n] = drop n bs"
  by (simp add: Cons_nth_drop_Suc [symmetric])

lemma sa4_unchecked: "sa4_from_slice_unchecked_len (sa4_as_slice a) = Inr a"
  using two_bytes [of "sa4_as_slice a" 4]
  by (simp add: sa4_from_slice_unchecked_len_def sa4_as_slice_def ipv4_from_slice_unchecked_len_def)

lemma sa6_unchecked:
  "sa6_from_slice_unchecked_len (sa6_as_slice a) = Inr (a\<lparr> sa6_flowinfo := 0, sa6_scope_id := 0 \<rparr>)"
  using two_bytes [of "sa6_as_slice a" 16]
  by (simp add: sa6_from_slice_unchecked_len_def sa6_as_slice_def ipv6_from_slice_unchecked_len_def)

definition sa6_plain :: "socket_addr_v6 \<Rightarrow> bool" where
  "sa6_plain a \<longleftrightarrow> sa6_flowinfo a = 0 \<and> sa6_scope_id a = 0"

interpretation ip4: compact_codec "\<lambda>_. True" ipv4_as_slice ipv4_from_slice_unchecked_len 4
  by unfold_locales (simp_all add: ipv4_as_slice_def ipv4_from_slice_unchecked_len_def)

interpretation ip6: compact_codec "\<lambda>_. True" ipv6_as_slice ipv6_from_slice_unchecked_len 16
  by unfold_locales (simp_all add: ipv6_as_slice_def ipv6_from_slice_unchecked_len_def)

interpretation sa4: compact_codec "\<lambda>_. True" sa4_as_slice sa4_from_slice_unchecked_len 6
  by unfold_locales
    (simp_all add: sa4_unchecked, simp_all add: sa4_as_slice_def sa4_from_slice_unchecked_len_def
      ipv4_from_slice_unchecked_len_def)

interpretation sa6: compact_codec sa6_plain sa6_as_slice sa6_from_slice_unchecked_len 18
  by unfold_locales
    (simp_all add: sa6_unchecked sa6_plain_def, simp_all add: sa6_as_slice_def
      sa6_from_slice_unchecked_len_def ipv6_from_slice_unchecked_len_def)

section \<open>Properties\<close>

definition sa_plain :: "socket_addr \<Rightarrow> bool" where
  "sa_plain a \<longleftrightarrow> (case a of SV4 _ \<Rightarrow> True | SV6 b \<Rightarrow> sa6_plain b)"

text \<open>
  A socket address without flow information and scope is read back from its compact form; the
  two families never read each other's bytes.
\<close>

lemma compact_socket_addr_roundtrip:
  "sa_from_slice (sa_as_slice a) = Inr (Some a) \<longleftrightarrow> sa_plain a"
proof (cases a)
  case (SV4 b)
  have "sa_as_slice a = sa4_as_slice b"
    using SV4 by (simp add: sa_as_slice_def sa4_as_slice_def ipv4_as_slice_def)
  then show ?thesis using SV4 by (simp add: sa_from_slice_def sa4.as_len sa4_unchecked sa_plain_def)
next
  case (SV6 b)
  have s: "sa_as_slice a = sa6_as_slice b"
    using SV6 by (simp add: sa_as_slice_def sa6_as_slice_def ipv6_as_slice_def)
  show ?thesis
  proof (cases "sa6_plain b")
    case True
    then show ?thesis using SV6 s
      by (simp add: sa_from_slice_def sa6.as_len sa6.decode sa_plain_def)
  next
    case False
    then have "b\<lparr> sa6_flowinfo := 0, sa6_scope_id := 0 \<rparr> \<noteq> b" by (cases b) (auto simp: sa6_plain_def)
    then show ?thesis
      using SV6 s False by (simp add: sa_from_slice_def sa6.as_len sa6_unchecked sa_plain_def)
  qed
qed

end
