(* ===== verification/Ut_Pex.thy ===== *)
theory Ut_Pex
  imports Compact_Ip "HOL-Library.Multiset"
begin

text \<open>
  Peer exchange messages, \<^verbatim>\<open>crates/librtbit-peer-protocol/src/extended/ut_pex.rs\<close>: the lists of
  addresses as compact buffers, and the iterators over added and dropped peers.
\<close>

record pex_peer_info =
  ppi_flags :: u8
  ppi_addr :: socket_addr

record ut_pex =
  pex_added :: "bytes option"
  pex_added_f :: "bytes option"
  pex_added6 :: "bytes option"
  pex_added6_f :: "bytes option"
  pex_dropped :: "bytes option"
  pex_dropped6 :: "bytes option"

text \<open>The trait's default \<^verbatim>\<open>from_slice_unchecked_len\<close> of \<^verbatim>\<open>Flags\<close>: \<^verbatim>\<open>from_slice(buf).unwrap()\<close>.\<close>

definition flags_as_slice :: "u8 \<Rightarrow> bytes" where
  "flags_as_slice f = [f]"

definition flags_from_slice_unchecked_len :: "bytes \<Rightarrow> (u8, 'e) rust" where
  "flags_from_slice_unchecked_len buf = (case buf of [] \<Rightarrow> Inl Panic | b # _ \<Rightarrow> Inr b)"

interpretation fl: compact_codec "\<lambda>_. True" flags_as_slice flags_from_slice_unchecked_len 1
  by unfold_locales
    (auto simp: flags_as_slice_def flags_from_slice_unchecked_len_def length_Suc_conv)

fun pex_infos :: "('a \<Rightarrow> socket_addr) \<Rightarrow> bytes option \<Rightarrow> nat \<Rightarrow> 'a list \<Rightarrow> (pex_peer_info list, 'e) rust" where
  "pex_infos into flags idx [] = Inr []"
| "pex_infos into flags idx (ip # ips) =
     rbind (case flags of None \<Rightarrow> Inr None | Some f \<Rightarrow> list_get 1 flags_from_slice_unchecked_len f idx) (\<lambda>f.
       rbind (pex_infos into flags (Suc idx) ips) (\<lambda>rest.
         Inr (\<lparr> ppi_flags = (case f of None \<Rightarrow> 0 | Some f \<Rightarrow> f), ppi_addr = into ip \<rparr> # rest)))"

definition added_peers_inner ::
  "nat \<Rightarrow> (bytes \<Rightarrow> ('a, 'e) rust) \<Rightarrow> ('a \<Rightarrow> socket_addr) \<Rightarrow> bytes option \<Rightarrow> bytes option \<Rightarrow>
   (pex_peer_info list, 'e) rust" where
  "added_peers_inner fixed_len from_slice into buf flags =
     (case buf of
        None \<Rightarrow> Inr []
      | Some l \<Rightarrow> rbind (list_iter fixed_len from_slice l) (pex_infos into flags 0))"

definition added_peers :: "ut_pex \<Rightarrow> (pex_peer_info list, 'e) rust" where
  "added_peers p =
     rbind (added_peers_inner 6 sa4_from_slice_unchecked_len SV4 (pex_added p) (pex_added_f p)) (\<lambda>a.
       rbind (added_peers_inner 18 sa6_from_slice_unchecked_len SV6 (pex_added6 p) (pex_added6_f p)) (\<lambda>b.
         Inr (a @ b)))"

definition dropped_peers :: "ut_pex \<Rightarrow> (pex_peer_info list, 'e) rust" where
  "dropped_peers p =
     rbind (added_peers_inner 6 sa4_from_slice_unchecked_len SV4 (pex_dropped p) None) (\<lambda>a.
       rbind (added_peers_inner 18 sa6_from_slice_unchecked_len SV6 (pex_dropped6 p) None) (\<lambda>b.
         Inr (a @ b)))"

definition v4_of :: "socket_addr list \<Rightarrow> socket_addr_v4 list" where
  "v4_of addrs = List.map_filter (\<lambda>addr. case addr of SV4 a \<Rightarrow> Some a | _ \<Rightarrow> None) addrs"

definition v6_of :: "socket_addr list \<Rightarrow> socket_addr_v6 list" where
  "v6_of addrs = List.map_filter (\<lambda>addr. case addr of SV6 a \<Rightarrow> Some a | _ \<Rightarrow> None) addrs"

definition pex_split :: "socket_addr list \<Rightarrow> bytes option \<times> bytes option" where
  "pex_split addrs =
     (let v4 = list_new_from_iter sa4_as_slice (v4_of addrs);
          v6 = list_new_from_iter sa6_as_slice (v6_of addrs)
      in (if v4 = [] then None else Some v4, if v6 = [] then None else Some v6))"

definition pex_from_addrs :: "socket_addr list \<Rightarrow> socket_addr list \<Rightarrow> ut_pex" where
  "pex_from_addrs addrs_live addrs_closed =
     (let (added, added6) = pex_split addrs_live;
          (dropped, dropped6) = pex_split addrs_closed
      in \<lparr> pex_added = added, pex_added_f = None, pex_added6 = added6, pex_added6_f = None,
           pex_dropped = dropped, pex_dropped6 = dropped6 \<rparr>)"

section \<open>Properties\<close>

lemma map_filter_simps': "List.map_filter f [] = []"
  "List.map_filter f (x # xs) = (case f x of None \<Rightarrow> List.map_filter f xs | Some y \<Rightarrow> y # List.map_filter f xs)"
  by (simp_all add: List.map_filter_def split: option.split)

lemma v4_v6_simps [simp]:
  "v4_of [] = []" "v4_of (SV4 a # xs) = a # v4_of xs" "v4_of (SV6 b # xs) = v4_of xs"
  "v6_of [] = []" "v6_of (SV4 a # xs) = v6_of xs" "v6_of (SV6 b # xs) = b # v6_of xs"
  by (simp_all add: v4_of_def v6_of_def map_filter_simps')

lemma v4_v6_perm: "mset (map SV4 (v4_of xs) @ map SV6 (v6_of xs)) = mset xs"
proof (induction xs)
  case (Cons a xs)
  then show ?case by (cases a) auto
qed simp

lemma v6_plain: "\<forall>a \<in> set xs. sa_plain a \<Longrightarrow> \<forall>b \<in> set (v6_of xs). sa6_plain b"
proof (induction xs)
  case (Cons a xs)
  then show ?case by (cases a) (auto simp: sa_plain_def)
qed simp

lemma pex_infos_no_flags:
  "pex_infos into None i ips = Inr (map (\<lambda>ip. \<lparr> ppi_flags = 0, ppi_addr = into ip \<rparr>) ips)"
  by (induction ips arbitrary: i) simp_all

lemma inner_empty_or_list:
  assumes "list_iter n u buf = Inr xs" and "buf = [] \<Longrightarrow> xs = []"
  shows "added_peers_inner n u into (if buf = [] then None else Some buf) None =
    Inr (map (\<lambda>ip. \<lparr> ppi_flags = 0, ppi_addr = into ip \<rparr>) xs)"
  using assms by (auto simp: added_peers_inner_def pex_infos_no_flags)

lemma pex_lists:
  assumes "\<forall>a \<in> set xs. sa_plain a"
  shows "added_peers_inner 6 sa4_from_slice_unchecked_len SV4 (fst (pex_split xs)) None =
      Inr (map (\<lambda>a. \<lparr> ppi_flags = 0, ppi_addr = SV4 a \<rparr>) (v4_of xs))"
    "added_peers_inner 18 sa6_from_slice_unchecked_len SV6 (snd (pex_split xs)) None =
      Inr (map (\<lambda>a. \<lparr> ppi_flags = 0, ppi_addr = SV6 a \<rparr>) (v6_of xs))"
proof -
  have "v4_of xs = []" if "list_new_from_iter sa4_as_slice (v4_of xs) = []"
    using sa4.length_new_from_iter [of "v4_of xs"] that by simp
  then show "added_peers_inner 6 sa4_from_slice_unchecked_len SV4 (fst (pex_split xs)) None =
      Inr (map (\<lambda>a. \<lparr> ppi_flags = 0, ppi_addr = SV4 a \<rparr>) (v4_of xs))"
    unfolding pex_split_def Let_def fst_conv
    by (intro inner_empty_or_list sa4.iter_new_from_iter) simp_all
  have "v6_of xs = []" if "list_new_from_iter sa6_as_slice (v6_of xs) = []"
    using sa6.length_new_from_iter [of "v6_of xs"] that by simp
  then show "added_peers_inner 18 sa6_from_slice_unchecked_len SV6 (snd (pex_split xs)) None =
      Inr (map (\<lambda>a. \<lparr> ppi_flags = 0, ppi_addr = SV6 a \<rparr>) (v6_of xs))"
    unfolding pex_split_def Let_def snd_conv
    by (intro inner_empty_or_list sa6.iter_new_from_iter v6_plain assms)
qed

lemma pex_from_addrs_lists:
  assumes "\<forall>a \<in> set live. sa_plain a" and "\<forall>a \<in> set closed. sa_plain a"
  shows "added_peers (pex_from_addrs live closed) =
      Inr (map (\<lambda>a. \<lparr> ppi_flags = 0, ppi_addr = a \<rparr>) (map SV4 (v4_of live) @ map SV6 (v6_of live)))"
    "dropped_peers (pex_from_addrs live closed) =
      Inr (map (\<lambda>a. \<lparr> ppi_flags = 0, ppi_addr = a \<rparr>) (map SV4 (v4_of closed) @ map SV6 (v6_of closed)))"
  by (simp_all add: added_peers_def dropped_peers_def pex_from_addrs_def case_prod_unfold Let_def
      pex_lists [OF assms(1)] pex_lists [OF assms(2)] o_def)



end
