(* ===== verification/Ut_Holepunch.thy ===== *)
theory Ut_Holepunch
  imports Compact_Ip
begin

text \<open>
  The holepunch extension message, \<^verbatim>\<open>crates/librtbit-peer-protocol/src/extended/ut_holepunch.rs\<close>.
\<close>

datatype holepunch_msg_type = Rendezvous | Connect | HpError

fun hp_type_code :: "holepunch_msg_type \<Rightarrow> u8" where
  "hp_type_code Rendezvous = 0"
| "hp_type_code Connect = 1"
| "hp_type_code HpError = 2"

definition hp_type_from_u8 :: "u8 \<Rightarrow> holepunch_msg_type option" where
  "hp_type_from_u8 v =
     (if v = 0 then Some Rendezvous else if v = 1 then Some Connect
      else if v = 2 then Some HpError else None)"

datatype holepunch_error_code = NoSuchPeer | NotConnected | NoSupport | NoSelf

fun hp_error_code :: "holepunch_error_code \<Rightarrow> u32" where
  "hp_error_code NoSuchPeer = 1"
| "hp_error_code NotConnected = 2"
| "hp_error_code NoSupport = 3"
| "hp_error_code NoSelf = 4"

definition hp_error_from_u32 :: "u32 \<Rightarrow> holepunch_error_code option" where
  "hp_error_from_u32 v =
     (if v = 1 then Some NoSuchPeer else if v = 2 then Some NotConnected
      else if v = 3 then Some NoSupport else if v = 4 then Some NoSelf else None)"

record holepunch_message =
  hp_msg_type :: holepunch_msg_type
  hp_addr :: socket_addr
  hp_err :: "holepunch_error_code option"

datatype holepunch_de_error =
    HpTooShort
  | HpUnknownMsgType
  | HpIpv4TooShort
  | HpIpv6TooShort
  | HpUnknownAddrType u8
  | HpMissingPort
  | HpMissingErrorCode
  | HpUnknownErrorCode u32

definition hp_serialize :: "holepunch_message \<Rightarrow> bytes" where
  "hp_serialize m =
     [hp_type_code (hp_msg_type m)]
     @ (case sa_ip (hp_addr m) of V4 ip \<Rightarrow> 0 # to_be32 ip | V6 ip \<Rightarrow> 1 # to_be128 ip)
     @ to_be16 (sa_port (hp_addr m))
     @ (case hp_err m of None \<Rightarrow> [] | Some err \<Rightarrow> to_be32 (hp_error_code err))"

definition hp_read_ip :: "u8 \<Rightarrow> bytes \<Rightarrow> holepunch_de_error + ip_addr \<times> bytes" where
  "hp_read_ip addr_type data =
     (if addr_type = 0 then
        if length data < 2 + 4 + 2 then Inl HpIpv4TooShort
        else Inr (V4 (from_be32 (take 4 (drop 2 data))), drop 6 data)
      else if addr_type = 1 then
        if length data < 2 + 16 + 2 then Inl HpIpv6TooShort
        else Inr (V6 (from_be128 (take 16 (drop 2 data))), drop 18 data)
      else Inl (HpUnknownAddrType addr_type))"

definition hp_read_error :: "holepunch_msg_type \<Rightarrow> bytes \<Rightarrow> holepunch_de_error + holepunch_error_code option" where
  "hp_read_error msg_type rest =
     (if msg_type = HpError then
        if length rest < 4 then Inl HpMissingErrorCode
        else
          let code = from_be32 (take 4 rest)
          in case hp_error_from_u32 code of
               None \<Rightarrow> Inl (HpUnknownErrorCode code)
             | Some e \<Rightarrow> Inr (Some e)
      else Inr None)"

definition hp_deserialize :: "bytes \<Rightarrow> holepunch_de_error + holepunch_message" where
  "hp_deserialize data =
     (if length data < 2 then Inl HpTooShort
      else case hp_type_from_u8 (data ! 0) of
        None \<Rightarrow> Inl HpUnknownMsgType
      | Some msg_type \<Rightarrow>
          rbind (hp_read_ip (data ! 1) data) (\<lambda>(ip, rest).
            if length rest < 2 then Inl HpMissingPort
            else
              let port = from_be16 (take 2 rest); rest = drop 2 rest
              in rbind (hp_read_error msg_type rest) (\<lambda>error_code.
                   Inr \<lparr> hp_msg_type = msg_type, hp_addr = sa_new ip port, hp_err = error_code \<rparr>)))"

section \<open>Properties\<close>

lemma hp_codes [simp]:
  "hp_type_from_u8 (hp_type_code t) = Some t" "hp_error_from_u32 (hp_error_code e) = Some e"
  by (cases t; simp add: hp_type_from_u8_def) (cases e; simp add: hp_error_from_u32_def)

lemma sa_new_plain: "sa_plain a \<Longrightarrow> sa_new (sa_ip a) (sa_port a) = a"
  by (cases a) (auto simp: sa_plain_def sa6_plain_def)

definition hp_wf :: "holepunch_message \<Rightarrow> bool" where
  "hp_wf m \<longleftrightarrow> sa_plain (hp_addr m) \<and> (hp_msg_type m = HpError \<longleftrightarrow> hp_err m \<noteq> None)"

text \<open>
  A holepunch message that carries an error code exactly when it is an error message is read
  back from its serialized form; bytes after it are ignored.
\<close>

lemma holepunch_roundtrip:
  assumes "hp_wf m"
  shows "hp_deserialize (hp_serialize m @ trailing) = Inr m"
proof -
  have addr: "sa_new (sa_ip (hp_addr m)) (sa_port (hp_addr m)) = hp_addr m"
    using assms by (simp add: hp_wf_def sa_new_plain)
  have err: "hp_read_error (hp_msg_type m)
      ((case hp_err m of None \<Rightarrow> [] | Some err \<Rightarrow> to_be32 (hp_error_code err)) @ trailing) = Inr (hp_err m)"
    using assms by (auto simp: hp_read_error_def hp_wf_def)
  show ?thesis
  proof (cases "sa_ip (hp_addr m)")
    case (V4 ip)
    then show ?thesis using err addr
      by (simp add: hp_deserialize_def hp_serialize_def hp_read_ip_def)
  next
    case (V6 ip)
    then show ?thesis using err addr
      by (simp add: hp_deserialize_def hp_serialize_def hp_read_ip_def)
  qed
qed

theorem holepunch_roundtrip_witness:
  "hp_deserialize (hp_serialize \<lparr> hp_msg_type = HpError, hp_addr = SV4 \<lparr> sa4_ip = 7, sa4_port = 9 \<rparr>,
      hp_err = Some NoSelf \<rparr> @ [1]) =
    Inr \<lparr> hp_msg_type = HpError, hp_addr = SV4 \<lparr> sa4_ip = 7, sa4_port = 9 \<rparr>, hp_err = Some NoSelf \<rparr>"
  by (rule holepunch_roundtrip) (simp add: hp_wf_def sa_plain_def)

end
