(* ===== verification/Extended.thy ===== *)
theory Extended
  imports Ut_Metadata Ut_Pex Ut_Holepunch
begin

text \<open>
  Extension protocol messages, \<^verbatim>\<open>crates/librtbit-peer-protocol/src/extended/mod.rs\<close> and
  \<^verbatim>\<open>handshake.rs\<close>. The derived deserializers of the handshake, peer exchange and metadata header
  structs are the fields of \<open>ext_codecs\<close>; dynamic messages go through the bencode decoder.
\<close>

definition ascii :: "string \<Rightarrow> bytes" where
  "ascii s = map (\<lambda>c. of_nat (of_char c)) s"

record peer_extended_message_ids =
  pem_ut_metadata :: "u8 option"
  pem_ut_pex :: "u8 option"
  pem_ut_holepunch :: "u8 option"

definition MY_EXTENDED_UT_METADATA :: u8 where "MY_EXTENDED_UT_METADATA = 3"
definition MY_EXTENDED_UT_PEX :: u8 where "MY_EXTENDED_UT_PEX = 1"
definition MY_EXTENDED_UT_HOLEPUNCH :: u8 where "MY_EXTENDED_UT_HOLEPUNCH = 4"

definition my_ids :: peer_extended_message_ids where
  "my_ids = \<lparr> pem_ut_metadata = Some MY_EXTENDED_UT_METADATA, pem_ut_pex = Some MY_EXTENDED_UT_PEX,
     pem_ut_holepunch = Some MY_EXTENDED_UT_HOLEPUNCH \<rparr>"

record extended_handshake =
  eh_m :: peer_extended_message_ids
  eh_p :: "u32 option"
  eh_v :: "bytes option"
  eh_yourip :: "ip_addr option"
  eh_ipv6 :: "ipv6_addr option"
  eh_ipv4 :: "ipv4_addr option"
  eh_reqq :: "u32 option"
  eh_metadata_size :: "u32 option"
  eh_complete_ago :: "32 word option"
  eh_upload_only :: "u32 option"

definition eh_new :: extended_handshake where
  "eh_new = \<lparr> eh_m = my_ids, eh_p = None, eh_v = None, eh_yourip = None, eh_ipv6 = None, eh_ipv4 = None,
     eh_reqq = None, eh_metadata_size = None, eh_complete_ago = None, eh_upload_only = None \<rparr>"

definition eh_ip_addr :: "extended_handshake \<Rightarrow> ip_addr option" where
  "eh_ip_addr h =
     (case eh_ipv4 h of
        Some b \<Rightarrow> Some (V4 b)
      | None \<Rightarrow> (case eh_ipv6 h of Some b \<Rightarrow> Some (V6 b) | None \<Rightarrow> None))"

definition eh_port :: "extended_handshake \<Rightarrow> u16 option" where
  "eh_port h = (case eh_p h of None \<Rightarrow> None | Some p \<Rightarrow> if unat p < 2 ^ 16 then Some (ucast p) else None)"

datatype extended_message =
    ExtHandshake extended_handshake
  | ExtUtMetadata ut_metadata
  | ExtUtPex ut_pex
  | ExtUtHolepunch holepunch_message
  | ExtDyn u8 bencode_value

section \<open>Serialization\<close>

datatype ser_error = NoSpaceInBuffer | SerBencodeIo | NeedUtMetadata | NeedPex | NeedHolepunch

text \<open>A field with \<^verbatim>\<open>skip_serializing_if = "Option::is_none"\<close>.\<close>

definition opt_field :: "string \<Rightarrow> ('a \<Rightarrow> bytes) \<Rightarrow> 'a option \<Rightarrow> (bytes \<times> bytes) list" where
  "opt_field name ser v = (case v of None \<Rightarrow> [] | Some a \<Rightarrow> [(ascii name, ser a)])"

definition ids_bytes :: "peer_extended_message_ids \<Rightarrow> bytes" where
  "ids_bytes m = serialize_struct
     (opt_field ''ut_metadata'' (\<lambda>x. write_number (uint x)) (pem_ut_metadata m)
      @ opt_field ''ut_pex'' (\<lambda>x. write_number (uint x)) (pem_ut_pex m)
      @ opt_field ''ut_holepunch'' (\<lambda>x. write_number (uint x)) (pem_ut_holepunch m))"

definition handshake_bytes :: "extended_handshake \<Rightarrow> bytes" where
  "handshake_bytes h = serialize_struct
     ([(ascii ''m'', ids_bytes (eh_m h))]
      @ opt_field ''p'' (\<lambda>x. write_number (uint x)) (eh_p h)
      @ opt_field ''v'' (write_bytes False) (eh_v h)
      @ opt_field ''yourip'' (\<lambda>a. write_bytes False (ip_as_slice a)) (eh_yourip h)
      @ opt_field ''ipv6'' (\<lambda>a. write_bytes False (ipv6_as_slice a)) (eh_ipv6 h)
      @ opt_field ''ipv4'' (\<lambda>a. write_bytes False (ipv4_as_slice a)) (eh_ipv4 h)
      @ opt_field ''reqq'' (\<lambda>x. write_number (uint x)) (eh_reqq h)
      @ opt_field ''metadata_size'' (\<lambda>x. write_number (uint x)) (eh_metadata_size h)
      @ opt_field ''complete_ago'' (\<lambda>x. write_number (sint x)) (eh_complete_ago h)
      @ opt_field ''upload_only'' (\<lambda>x. write_number (uint x)) (eh_upload_only h))"

definition pex_bytes :: "ut_pex \<Rightarrow> bytes" where
  "pex_bytes p = serialize_struct
     (opt_field ''added'' (write_bytes False) (pex_added p)
      @ opt_field ''added.f'' (write_bytes False) (pex_added_f p)
      @ opt_field ''added6'' (write_bytes False) (pex_added6 p)
      @ opt_field ''added6.f'' (write_bytes False) (pex_added6_f p)
      @ opt_field ''dropped'' (write_bytes False) (pex_dropped p)
      @ opt_field ''dropped6'' (write_bytes False) (pex_dropped6 p))"

text \<open>A write through the cursor: \<open>out\<close> is what was written so far, \<open>cap\<close> the size of the slice.\<close>

definition cursor_write :: "nat \<Rightarrow> ser_error \<Rightarrow> bytes \<Rightarrow> bytes \<Rightarrow> (bytes, ser_error) rust" where
  "cursor_write cap err bs out =
     (if length out + length bs \<le> cap then Inr (out @ bs) else Inl (Err err))"

fun um_write :: "nat \<Rightarrow> ut_metadata \<Rightarrow> bytes \<Rightarrow> (bytes, ser_error) rust" where
  "um_write cap (UmRequest piece) out = cursor_write cap SerBencodeIo (um_header 0 piece None) out"
| "um_write cap (UmData d) out =
     rbind (cursor_write cap SerBencodeIo (um_header 1 (umd_piece d) (Some (umd_total_size d))) out) (\<lambda>out.
       rbind (cursor_write cap NoSpaceInBuffer (umd_data_0 d) out)
         (cursor_write cap NoSpaceInBuffer (umd_data_1 d)))"
| "um_write cap (UmReject piece) out = cursor_write cap SerBencodeIo (um_header 2 piece None) out"

definition with_ext_id ::
  "nat \<Rightarrow> u8 option \<Rightarrow> ser_error \<Rightarrow> (bytes \<Rightarrow> (bytes, ser_error) rust) \<Rightarrow> (bytes, ser_error) rust" where
  "with_ext_id cap peer_id missing body =
     (case peer_id of
        None \<Rightarrow> Inl (Err missing)
      | Some emsg_id \<Rightarrow> rbind (cursor_write cap NoSpaceInBuffer [emsg_id] []) body)"

definition ext_serialize ::
  "extended_message \<Rightarrow> nat \<Rightarrow> peer_extended_message_ids \<Rightarrow> (bytes, ser_error) rust" where
  "ext_serialize e cap peer_ids =
     (case e of
        ExtDyn msg_id v \<Rightarrow>
          with_ext_id cap (Some msg_id) NoSpaceInBuffer (cursor_write cap SerBencodeIo (bencode_serialize v))
      | ExtHandshake h \<Rightarrow>
          with_ext_id cap (Some 0) NoSpaceInBuffer (cursor_write cap SerBencodeIo (handshake_bytes h))
      | ExtUtMetadata u \<Rightarrow> with_ext_id cap (pem_ut_metadata peer_ids) NeedUtMetadata (um_write cap u)
      | ExtUtPex m \<Rightarrow>
          with_ext_id cap (pem_ut_pex peer_ids) NeedPex (cursor_write cap SerBencodeIo (pex_bytes m))
      | ExtUtHolepunch m \<Rightarrow>
          with_ext_id cap (pem_ut_holepunch peer_ids) NeedHolepunch
            (cursor_write cap NoSpaceInBuffer (hp_serialize m)))"

section \<open>Deserialization\<close>

datatype msg_de_error =
    NotEnoughData nat "u8 option"
  | NeedContiguous
  | UnsupportedMessageId u8
  | BencodeError de_error
  | IncorrectMsgLen u32 u32 u8
  | UtMetadataError um_error
  | HolepunchDeserialize holepunch_de_error
  | HandshakePstrWrongContent
  | HandshakePstrWrongLength u8

record ext_codecs =
  ec_atoi :: atoi_fns
  ec_handshake :: "bytes \<Rightarrow> de_error + extended_handshake"
  ec_pex :: "bytes \<Rightarrow> de_error + ut_pex"
  ec_um_header :: "bytes \<Rightarrow> de_error + ut_metadata_msg \<times> bytes"

definition MSGID_EXTENDED :: u8 where "MSGID_EXTENDED = 20"

fun um_error_to_msg :: "um_error \<Rightarrow> msg_de_error" where
  "um_error_to_msg (UmBencode e) = BencodeError e"
| "um_error_to_msg UmNeedContiguous = NeedContiguous"
| "um_error_to_msg e = UtMetadataError e"

definition map_err :: "('a \<Rightarrow> msg_de_error) \<Rightarrow> 'a + 'b \<Rightarrow> ('b, msg_de_error) rust" where
  "map_err f r = (case r of Inl e \<Rightarrow> Inl (Err (f e)) | Inr v \<Rightarrow> Inr v)"

definition from_bytes_contig ::
  "(bytes \<Rightarrow> ('b, msg_de_error) rust) \<Rightarrow> double_buf \<Rightarrow> ('b, msg_de_error) rust" where
  "from_bytes_contig de buf =
     (case get_contiguous buf (db_len buf) of None \<Rightarrow> Inl (Err NeedContiguous) | Some b \<Rightarrow> de b)"

definition dyn_contig :: "atoi_fns \<Rightarrow> bytes \<Rightarrow> (bencode_value, msg_de_error) rust" where
  "dyn_contig A b =
     (case dyn_from_bytes A b of
        Inr v \<Rightarrow> Inr v
      | Inl e \<Rightarrow> (case ewc_kind e of Err k \<Rightarrow> Inl (Err (BencodeError k)) | Panic \<Rightarrow> Inl Panic))"

definition ext_deserialize :: "ext_codecs \<Rightarrow> double_buf \<Rightarrow> (extended_message, msg_de_error) rust" where
  "ext_deserialize C buf =
     (case read_u8 buf of
        (None, _) \<Rightarrow> Inl (Err (NotEnoughData 1 (Some MSGID_EXTENDED)))
      | (Some emsg_id, buf) \<Rightarrow>
          if emsg_id = 0 then
            rbind (from_bytes_contig (\<lambda>b. map_err BencodeError (ec_handshake C b)) buf) (\<lambda>h. Inr (ExtHandshake h))
          else if emsg_id = MY_EXTENDED_UT_METADATA then
            rbind (map_err um_error_to_msg (um_deserialize (ec_um_header C) buf)) (\<lambda>u. Inr (ExtUtMetadata u))
          else if emsg_id = MY_EXTENDED_UT_PEX then
            rbind (from_bytes_contig (\<lambda>b. map_err BencodeError (ec_pex C b)) buf) (\<lambda>p. Inr (ExtUtPex p))
          else if emsg_id = MY_EXTENDED_UT_HOLEPUNCH then
            rbind (from_bytes_contig (\<lambda>b. map_err HolepunchDeserialize (hp_deserialize b)) buf)
              (\<lambda>m. Inr (ExtUtHolepunch m))
          else rbind (from_bytes_contig (dyn_contig (ec_atoi C)) buf) (\<lambda>v. Inr (ExtDyn emsg_id v)))"

lemma dyn_contig_no_panic: "no_panic (dyn_contig A b)"
  using bencode_decoder_total [of A b] by (auto simp: dyn_contig_def)

lemma map_err_no_panic: "no_panic (map_err f r)"
  by (simp add: map_err_def split: sum.split)

lemma from_bytes_contig_no_panic: "(\<And>b. no_panic (de b)) \<Longrightarrow> no_panic (from_bytes_contig de buf)"
  by (simp add: from_bytes_contig_def split: option.split)

lemma ext_deserialize_no_panic: "no_panic (ext_deserialize C buf)"
  unfolding ext_deserialize_def
  by (auto split: prod.split option.split
      intro!: no_panic_rbind from_bytes_contig_no_panic map_err_no_panic dyn_contig_no_panic)

end
