(* ===== verification/Peer_Protocol.thy ===== *)
theory Peer_Protocol
  imports Extended
begin

text \<open>
  The peer wire protocol, \<^verbatim>\<open>crates/librtbit-peer-protocol/src/lib.rs\<close>: messages, their serializer into
  a borrowed slice, the deserializer over the two halves of the receive buffer, and the handshake.
\<close>

section \<open>Messages\<close>

definition INTEGER_LEN :: nat where "INTEGER_LEN = 4"
definition MSGID_LEN :: nat where "MSGID_LEN = 1"
definition PREAMBLE_LEN :: nat where "PREAMBLE_LEN = INTEGER_LEN + MSGID_LEN"
definition PIECE_MESSAGE_PREAMBLE_LEN :: nat where
  "PIECE_MESSAGE_PREAMBLE_LEN = PREAMBLE_LEN + INTEGER_LEN * 2"

definition MSGID_CHOKE :: u8 where "MSGID_CHOKE = 0"
definition MSGID_UNCHOKE :: u8 where "MSGID_UNCHOKE = 1"
definition MSGID_INTERESTED :: u8 where "MSGID_INTERESTED = 2"
definition MSGID_NOT_INTERESTED :: u8 where "MSGID_NOT_INTERESTED = 3"
definition MSGID_HAVE :: u8 where "MSGID_HAVE = 4"
definition MSGID_BITFIELD :: u8 where "MSGID_BITFIELD = 5"
definition MSGID_REQUEST :: u8 where "MSGID_REQUEST = 6"
definition MSGID_PIECE :: u8 where "MSGID_PIECE = 7"
definition MSGID_CANCEL :: u8 where "MSGID_CANCEL = 8"
definition MSGID_PORT :: u8 where "MSGID_PORT = 9"
definition MSGID_SUGGEST_PIECE :: u8 where "MSGID_SUGGEST_PIECE = 13"
definition MSGID_HAVE_ALL :: u8 where "MSGID_HAVE_ALL = 14"
definition MSGID_HAVE_NONE :: u8 where "MSGID_HAVE_NONE = 15"
definition MSGID_REJECT_REQUEST :: u8 where "MSGID_REJECT_REQUEST = 16"
definition MSGID_ALLOWED_FAST :: u8 where "MSGID_ALLOWED_FAST = 17"

lemmas msgid_defs = MSGID_CHOKE_def MSGID_UNCHOKE_def MSGID_INTERESTED_def MSGID_NOT_INTERESTED_def
  MSGID_HAVE_def MSGID_BITFIELD_def MSGID_REQUEST_def MSGID_PIECE_def MSGID_CANCEL_def MSGID_PORT_def
  MSGID_SUGGEST_PIECE_def MSGID_HAVE_ALL_def MSGID_HAVE_NONE_def MSGID_REJECT_REQUEST_def
  MSGID_ALLOWED_FAST_def MSGID_EXTENDED_def

lemmas len_defs = INTEGER_LEN_def MSGID_LEN_def PREAMBLE_LEN_def PIECE_MESSAGE_PREAMBLE_LEN_def

record request =
  rq_index :: u32
  rq_begin :: u32
  rq_length :: u32

record piece =
  pc_index :: u32
  pc_begin :: u32
  pc_block_0 :: bytes
  pc_block_1 :: bytes

datatype message =
    Request request
  | Cancel request
  | Bitfield bytes
  | KeepAlive
  | Have u32
  | Choke
  | Unchoke
  | Interested
  | NotInterested
  | Port u16
  | SuggestPiece u32
  | HaveAll
  | HaveNone
  | RejectRequest request
  | AllowedFast u32
  | Piece piece
  | Extended extended_message

definition pc_len :: "piece \<Rightarrow> nat" where
  "pc_len p = length (pc_block_0 p) + length (pc_block_1 p)"

definition pc_from_data :: "u32 \<Rightarrow> u32 \<Rightarrow> bytes \<Rightarrow> piece" where
  "pc_from_data index begin block =
     \<lparr> pc_index = index, pc_begin = begin, pc_block_0 = block, pc_block_1 = [] \<rparr>"

section \<open>Serialization\<close>

text \<open>
  \<open>pc_serialize\<close> and \<open>rq_serialize\<close> are \<^verbatim>\<open>serialize_unchecked_len\<close> on the slice that starts at \<open>at\<close>.
\<close>

definition pc_serialize :: "piece \<Rightarrow> nat \<Rightarrow> bytes \<Rightarrow> (nat \<times> bytes, 'e) rust" where
  "pc_serialize p at buf =
     rbind (write_at at (to_be32 (pc_index p)) buf) (\<lambda>buf.
       rbind (write_at (at + 4) (to_be32 (pc_begin p)) buf) (\<lambda>buf.
         rbind (write_at (at + 8) (pc_block_0 p) buf) (\<lambda>buf.
           rbind (write_at (at + 8 + length (pc_block_0 p)) (pc_block_1 p) buf) (\<lambda>buf.
             Inr (8 + length (pc_block_0 p) + length (pc_block_1 p), buf)))))"

definition rq_serialize :: "request \<Rightarrow> nat \<Rightarrow> bytes \<Rightarrow> (nat \<times> bytes, 'e) rust" where
  "rq_serialize r at buf =
     rbind (write_at at (to_be32 (rq_index r)) buf) (\<lambda>buf.
       rbind (write_at (at + 4) (to_be32 (rq_begin r)) buf) (\<lambda>buf.
         rbind (write_at (at + 8) (to_be32 (rq_length r)) buf) (\<lambda>buf. Inr (12, buf))))"

definition serialize_piece_preamble :: "chunk_info \<Rightarrow> bytes \<Rightarrow> (nat \<times> bytes, 'e) rust" where
  "serialize_piece_preamble chunk buf =
     (let len_prefix = of_nat MSGID_LEN + of_nat INTEGER_LEN * 2 + ci_size chunk
      in rbind (write_at 0 (to_be32 len_prefix) buf) (\<lambda>buf.
           rbind (write_at 4 [MSGID_PIECE] buf) (\<lambda>buf.
             rbind (write_at 5 (to_be32 (vpi_get (ci_piece_index chunk))) buf) (\<lambda>buf.
               rbind (write_at 9 (to_be32 (ci_offset chunk)) buf) (\<lambda>buf.
                 Inr (PIECE_MESSAGE_PREAMBLE_LEN, buf))))))"

definition check_len :: "bytes \<Rightarrow> nat \<Rightarrow> ('a, ser_error) rust \<Rightarrow> ('a, ser_error) rust" where
  "check_len out l k = (if length out < l then Inl (Err NoSpaceInBuffer) else k)"

definition write_preamble :: "u32 \<Rightarrow> u8 \<Rightarrow> bytes \<Rightarrow> (bytes, ser_error) rust" where
  "write_preamble msg_len msg_id out =
     rbind (write_at 0 (to_be32 (msg_len + 1)) out) (\<lambda>out. write_at 4 [msg_id] out)"

definition serialize_request :: "u8 \<Rightarrow> request \<Rightarrow> bytes \<Rightarrow> (nat \<times> bytes, ser_error) rust" where
  "serialize_request msg_id request out =
     check_len out (PREAMBLE_LEN + INTEGER_LEN * 3)
       (rbind (write_preamble (of_nat (INTEGER_LEN * 3)) msg_id out) (\<lambda>out.
          rbind (rq_serialize request PREAMBLE_LEN out) (\<lambda>(_, out).
            Inr (PREAMBLE_LEN + INTEGER_LEN * 3, out))))"

definition serialize_empty :: "u8 \<Rightarrow> bytes \<Rightarrow> (nat \<times> bytes, ser_error) rust" where
  "serialize_empty msg_id out =
     check_len out PREAMBLE_LEN (rbind (write_preamble 0 msg_id out) (\<lambda>out. Inr (PREAMBLE_LEN, out)))"

definition serialize_u32 :: "u8 \<Rightarrow> u32 \<Rightarrow> bytes \<Rightarrow> (nat \<times> bytes, ser_error) rust" where
  "serialize_u32 msg_id v out =
     check_len out (PREAMBLE_LEN + INTEGER_LEN)
       (rbind (write_preamble (of_nat INTEGER_LEN) msg_id out) (\<lambda>out.
          rbind (write_at 5 (to_be32 v) out) (\<lambda>out. Inr (9, out))))"

fun msg_serialize :: "message \<Rightarrow> bytes \<Rightarrow> peer_extended_message_ids \<Rightarrow> (nat \<times> bytes, ser_error) rust" where
  "msg_serialize (Request r) out ids = serialize_request MSGID_REQUEST r out"
| "msg_serialize (Cancel r) out ids = serialize_request MSGID_CANCEL r out"
| "msg_serialize (RejectRequest r) out ids = serialize_request MSGID_REJECT_REQUEST r out"
| "msg_serialize (Bitfield b) out ids =
     (let block_len = length b; total_len = PREAMBLE_LEN + block_len
      in check_len out total_len
           (rbind (write_preamble (of_nat block_len) MSGID_BITFIELD out) (\<lambda>out.
              rbind (write_at PREAMBLE_LEN b out) (\<lambda>out. Inr (total_len, out)))))"
| "msg_serialize Choke out ids = serialize_empty MSGID_CHOKE out"
| "msg_serialize Unchoke out ids = serialize_empty MSGID_UNCHOKE out"
| "msg_serialize Interested out ids = serialize_empty MSGID_INTERESTED out"
| "msg_serialize NotInterested out ids = serialize_empty MSGID_NOT_INTERESTED out"
| "msg_serialize HaveAll out ids = serialize_empty MSGID_HAVE_ALL out"
| "msg_serialize HaveNone out ids = serialize_empty MSGID_HAVE_NONE out"
| "msg_serialize (Piece p) out ids =
     (let block_len = pc_len p;
          payload_len = INTEGER_LEN * 2 + block_len;
          total_len = PREAMBLE_LEN + payload_len
      in check_len out total_len
           (rbind (write_preamble (of_nat payload_len) MSGID_PIECE out) (\<lambda>out.
              rbind (pc_serialize p PREAMBLE_LEN out) (\<lambda>(_, out). Inr (total_len, out)))))"
| "msg_serialize KeepAlive out ids =
     check_len out 4 (rbind (write_at 0 (to_be32 0) out) (\<lambda>out. Inr (4, out)))"
| "msg_serialize (Have v) out ids = serialize_u32 MSGID_HAVE v out"
| "msg_serialize (Port port) out ids =
     check_len out (PREAMBLE_LEN + 2)
       (rbind (write_preamble 2 MSGID_PORT out) (\<lambda>out.
          rbind (write_at 5 (to_be16 port) out) (\<lambda>out. Inr (7, out))))"
| "msg_serialize (SuggestPiece p) out ids = serialize_u32 MSGID_SUGGEST_PIECE p out"
| "msg_serialize (AllowedFast p) out ids = serialize_u32 MSGID_ALLOWED_FAST p out"
| "msg_serialize (Extended e) out ids =
     check_len out (PREAMBLE_LEN + 2)
       (rbind (ext_serialize e (length out - PREAMBLE_LEN) ids) (\<lambda>body.
          rbind (write_at PREAMBLE_LEN body out) (\<lambda>out.
            rbind (write_preamble (of_nat (length body)) MSGID_EXTENDED out) (\<lambda>out.
              Inr (PREAMBLE_LEN + length body, out)))))"

section \<open>Deserialization\<close>

definition unwrap :: "(nat + 'a) \<times> 'b \<Rightarrow> ('a \<Rightarrow> 'b \<Rightarrow> ('c, 'e) rust) \<Rightarrow> ('c, 'e) rust" where
  "unwrap r f = (case r of (Inl _, _) \<Rightarrow> Inl Panic | (Inr a, b) \<Rightarrow> f a b)"

definition check_msg_len ::
  "nat \<Rightarrow> u32 \<Rightarrow> u8 \<Rightarrow> nat \<Rightarrow> ('a, msg_de_error) rust \<Rightarrow> ('a, msg_de_error) rust" where
  "check_msg_len msg_len len_prefix msg_id expected k =
     (if msg_len \<noteq> expected then Inl (Err (IncorrectMsgLen (len_prefix - 1) (of_nat expected) msg_id)) else k)"

text \<open>The \<^verbatim>\<open>match msg_id\<close> of \<^verbatim>\<open>Message::deserialize\<close>, after length prefix and id have been read.\<close>

definition msg_deserialize_body ::
  "ext_codecs \<Rightarrow> u8 \<Rightarrow> u32 \<Rightarrow> double_buf \<Rightarrow> (message \<times> nat, msg_de_error) rust" where
  "msg_deserialize_body C msg_id len_prefix buf =
     (let total_len = unat len_prefix + 4;
          msg_len = unat len_prefix - 1;
          check = check_msg_len msg_len len_prefix msg_id
      in if msg_id = MSGID_CHOKE then check 0 (Inr (Choke, total_len))
         else if msg_id = MSGID_UNCHOKE then check 0 (Inr (Unchoke, total_len))
         else if msg_id = MSGID_INTERESTED then check 0 (Inr (Interested, total_len))
         else if msg_id = MSGID_NOT_INTERESTED then check 0 (Inr (NotInterested, total_len))
         else if msg_id = MSGID_HAVE then
           check 4 (unwrap (read_u32_be buf) (\<lambda>have _. Inr (Have have, total_len)))
         else if msg_id = MSGID_PORT then
           check 2 (unwrap (consume 2 buf) (\<lambda>port _. Inr (Port (from_be16 port), total_len)))
         else if msg_id = MSGID_SUGGEST_PIECE \<or> msg_id = MSGID_ALLOWED_FAST then
           check 4 (unwrap (read_u32_be buf) (\<lambda>piece _.
             Inr (if msg_id = MSGID_SUGGEST_PIECE then SuggestPiece piece else AllowedFast piece, total_len)))
         else if msg_id = MSGID_HAVE_ALL \<or> msg_id = MSGID_HAVE_NONE then
           check 0 (Inr (if msg_id = MSGID_HAVE_ALL then HaveAll else HaveNone, total_len))
         else if msg_id = MSGID_BITFIELD then
           if msg_len < 1 then Inl (Err (IncorrectMsgLen (len_prefix - 1) 1 msg_id))
           else (case get_contiguous buf msg_len of
                   None \<Rightarrow> Inl (Err NeedContiguous)
                 | Some data \<Rightarrow> Inr (Bitfield data, total_len))
         else if msg_id = MSGID_REQUEST \<or> msg_id = MSGID_CANCEL \<or> msg_id = MSGID_REJECT_REQUEST then
           check 12 (unwrap (consume 12 buf) (\<lambda>req _.
             let request = \<lparr> rq_index = from_be32 (take 4 req),
                             rq_begin = from_be32 (take 4 (drop 4 req)),
                             rq_length = from_be32 (take 4 (drop 8 req)) \<rparr>
             in Inr (if msg_id = MSGID_REQUEST then Request request
                     else if msg_id = MSGID_CANCEL then Cancel request
                     else RejectRequest request, total_len)))
         else if msg_id = MSGID_PIECE then
           if msg_len < INTEGER_LEN * 2 + 1
           then Inl (Err (IncorrectMsgLen (of_nat msg_len) (of_nat (INTEGER_LEN * 2 + 1)) msg_id))
           else unwrap (read_u32_be buf) (\<lambda>index buf.
                  unwrap (read_u32_be buf) (\<lambda>begin buf.
                    unwrap (consume_variable (msg_len - INTEGER_LEN * 2) buf) (\<lambda>(block_0, block_1) _.
                      Inr (Piece \<lparr> pc_index = index, pc_begin = begin, pc_block_0 = block_0,
                                   pc_block_1 = block_1 \<rparr>, total_len))))
         else if msg_id = MSGID_EXTENDED then
           rbind (ext_deserialize C (with_max_len buf msg_len)) (\<lambda>e. Inr (Extended e, PREAMBLE_LEN + msg_len))
         else Inl (Err (UnsupportedMessageId msg_id)))"

definition msg_deserialize ::
  "ext_codecs \<Rightarrow> bytes \<Rightarrow> bytes \<Rightarrow> (message \<times> nat, msg_de_error) rust" where
  "msg_deserialize C buf buf2 =
     (case read_u32_be (DoubleBufHelper_new buf buf2) of
        (Inl rem, _) \<Rightarrow> Inl (Err (NotEnoughData rem None))
      | (Inr len_prefix, buf) \<Rightarrow>
          if len_prefix = 0 then Inr (KeepAlive, unat len_prefix + 4)
          else (case read_u8 buf of
                  (None, _) \<Rightarrow> Inl (Err (NotEnoughData (unat len_prefix) None))
                | (Some msg_id, buf) \<Rightarrow>
                    let msg_len = unat len_prefix - 1
                    in if db_len buf < msg_len
                       then Inl (Err (NotEnoughData (msg_len - db_len buf) (Some msg_id)))
                       else msg_deserialize_body C msg_id len_prefix buf))"

section \<open>Handshake\<close>

text \<open>An \<^verbatim>\<open>Id20\<close> is its twenty bytes.\<close>

record handshake =
  hs_reserved :: u64
  hs_info_hash :: bytes
  hs_peer_id :: bytes

definition PSTR_BT1 :: bytes where
  "PSTR_BT1 = ascii ''BitTorrent protocol''"

unbundle bit_operations_syntax

definition hs_new :: "bytes \<Rightarrow> bytes \<Rightarrow> handshake" where
  "hs_new info_hash peer_id =
     \<lparr> hs_reserved = ((0 OR push_bit 20 1) OR 1) OR push_bit 2 1,
       hs_info_hash = info_hash, hs_peer_id = peer_id \<rparr>"

definition hs_deserialize :: "bytes \<Rightarrow> (handshake \<times> nat, msg_de_error) rust" where
  "hs_deserialize b =
     (let LEN = 1 + length PSTR_BT1 + 8 + 20 + 20
      in if length b < LEN then Inl (Err (NotEnoughData (LEN - length b) None))
         else if unat (b ! 0) \<noteq> length PSTR_BT1 then Inl (Err (HandshakePstrWrongLength (b ! 0)))
         else if take 19 (drop 1 b) \<noteq> PSTR_BT1 then Inl (Err HandshakePstrWrongContent)
         else Inr (\<lparr> hs_reserved = from_be64 (take 8 (drop 20 b)),
                     hs_info_hash = take 20 (drop 28 b),
                     hs_peer_id = take 20 (drop 48 b) \<rparr>, LEN))"

definition supports_extended :: "handshake \<Rightarrow> bool" where
  "supports_extended h \<longleftrightarrow> (to_be64 (hs_reserved h) ! 5) AND 0x10 > 0"

definition supports_dht :: "handshake \<Rightarrow> bool" where
  "supports_dht h \<longleftrightarrow> hs_reserved h AND 1 \<noteq> 0"

definition supports_fast :: "handshake \<Rightarrow> bool" where
  "supports_fast h \<longleftrightarrow> hs_reserved h AND push_bit 2 1 \<noteq> 0"

definition hs_serialize :: "handshake \<Rightarrow> bytes \<Rightarrow> (nat \<times> bytes, 'e) rust" where
  "hs_serialize h buf =
     rbind (write_at 0 [19] buf) (\<lambda>buf.
       rbind (write_at 1 PSTR_BT1 buf) (\<lambda>buf.
         rbind (write_at 20 (to_be64 (hs_reserved h)) buf) (\<lambda>buf.
           rbind (write_at 28 (hs_info_hash h) buf) (\<lambda>buf.
             rbind (write_at 48 (hs_peer_id h) buf) (\<lambda>buf. Inr (68, buf))))))"

end
