(* ===== verification/Chunk_Tracker.thy ===== *)
theory Chunk_Tracker
  imports File_Info Peer_Protocol
begin

text \<open>
  \<^verbatim>\<open>crates/librtbit/src/chunk_tracker.rs\<close>: which chunks were written, which pieces are verified, which
  are selected and which are queued for download. A bit field over bytes (\<^verbatim>\<open>from_boxed_slice\<close>) has
  eight bits per byte, so the piece fields may have up to seven bits more than there are pieces. The
  trait object \<^verbatim>\<open>BoxBitV\<close> that stores the verified pieces is its bit slice.
\<close>

section \<open>State\<close>

record have_needed_selected =
  hns_have_bytes :: u64
  hns_needed_bytes :: u64
  hns_selected_bytes :: u64

definition hns_default :: have_needed_selected where
  "hns_default = \<lparr> hns_have_bytes = 0, hns_needed_bytes = 0, hns_selected_bytes = 0 \<rparr>"

definition hns_progress :: "have_needed_selected \<Rightarrow> u64" where
  "hns_progress h = hns_selected_bytes h - hns_needed_bytes h"

definition hns_total :: "have_needed_selected \<Rightarrow> u64" where
  "hns_total h = hns_selected_bytes h"

definition hns_finished :: "have_needed_selected \<Rightarrow> bool" where
  "hns_finished h \<longleftrightarrow> hns_needed_bytes h = 0"

record chunk_tracker =
  ct_queue_pieces :: bits
  ct_chunk_status :: bits
  ct_have :: bits
  ct_selected :: bits
  ct_per_file_bytes :: "u64 list"
  ct_lengths :: lengths
  ct_hns :: have_needed_selected

datatype ct_error =
    HavePiecesTooShort nat u32
  | ChunkRangeMissing "nat \<times> nat"
  | LengthMismatch nat nat

datatype chunk_marking_result = PreviouslyCompleted | NotCompleted | Completed

section \<open>Operations\<close>

definition compute_chunk_have_status :: "lengths \<Rightarrow> bits \<Rightarrow> (bits, ct_error) rust" where
  "compute_chunk_have_status l have_pieces =
     (if length have_pieces < unat (total_pieces l)
      then Inl (Err (HavePiecesTooShort (length have_pieces) (total_pieces l)))
      else
        rfold (\<lambda>chunk_bf piece.
          let chunks = unat (chunks_per_piece l (pi_piece_index piece));
              offset = unat (default_chunks_per_piece l * vpi_get (pi_piece_index piece));
              range = (offset, offset + chunks)
          in rbind (get_bit_checked have_pieces (unat (vpi_get (pi_piece_index piece)))) (\<lambda>is_have.
               if is_have
               then (case fill_range chunk_bf range True of
                       None \<Rightarrow> Inl (Err (ChunkRangeMissing range))
                     | Some chunk_bf \<Rightarrow> Inr chunk_bf)
               else Inr chunk_bf))
          (zero_bytes (chunk_bitfield_bytes l)) (iter_piece_infos l))"

definition compute_queued_pieces_unchecked :: "bits \<Rightarrow> bits \<Rightarrow> bits" where
  "compute_queued_pieces_unchecked have_pieces selected_pieces =
     map2 (\<lambda>h s. \<not> h \<and> s) have_pieces selected_pieces"

definition compute_queued_pieces :: "bits \<Rightarrow> bits \<Rightarrow> (bits, ct_error) rust" where
  "compute_queued_pieces have_pieces selected_pieces =
     (if length have_pieces \<noteq> length selected_pieces
      then Inl (Err (LengthMismatch (length have_pieces) (length selected_pieces)))
      else Inr (compute_queued_pieces_unchecked have_pieces selected_pieces))"

definition compute_selected_pieces :: "lengths \<Rightarrow> (nat \<Rightarrow> bool) \<Rightarrow> file_info list \<Rightarrow> bits" where
  "compute_selected_pieces l only_files_is_empty_or_contains file_infos =
     foldl (\<lambda>bf (_, fi). case fill_range bf (piece_range_usize fi) True of None \<Rightarrow> bf | Some bf \<Rightarrow> bf)
       (zero_bytes (piece_bitfield_bytes l))
       (filter (\<lambda>(i, _). only_files_is_empty_or_contains i)
         (filter (\<lambda>(_, fi). \<not> fa_padding (fi_attrs fi)) (List.enumerate 0 file_infos)))"

text \<open>The slot of one file: the bytes of its verified pieces that lie in the file.\<close>

definition file_have_bytes :: "lengths \<Rightarrow> bits \<Rightarrow> file_info \<Rightarrow> (u64, ct_error) rust" where
  "file_have_bytes l have fi =
     rfold (\<lambda>acc p. rbind (get_bit_checked have p) (\<lambda>is_have.
              Inr (if is_have
                   then acc + size_of_piece_in_file l (of_nat p) (fi_offset_in_torrent fi) (fi_len fi)
                   else acc)))
       0 [unat (fst (fi_piece_range fi))..<unat (snd (fi_piece_range fi))]"

fun recalculate_per_file_bytes ::
  "lengths \<Rightarrow> bits \<Rightarrow> u64 list \<Rightarrow> file_info list \<Rightarrow> (u64 list, ct_error) rust" where
  "recalculate_per_file_bytes l have (slot # slots) (fi # file_infos) =
     rbind (file_have_bytes l have fi) (\<lambda>slot.
       rbind (recalculate_per_file_bytes l have slots file_infos) (\<lambda>slots. Inr (slot # slots)))"
| "recalculate_per_file_bytes l have slots file_infos = Inr slots"

definition calc_hns :: "lengths \<Rightarrow> bits \<Rightarrow> bits \<Rightarrow> (have_needed_selected, ct_error) rust" where
  "calc_hns l have selected =
     rfold (\<lambda>hns piece.
       let i = unat (vpi_get (pi_piece_index piece)); len = ucast (pi_len piece) :: u64
       in rbind (get_bit_checked have i) (\<lambda>is_have.
          rbind (get_bit_checked selected i) (\<lambda>is_selected.
            let is_needed = is_selected \<and> \<not> is_have
            in Inr \<lparr> hns_have_bytes = hns_have_bytes hns + len * of_bool is_have,
                     hns_needed_bytes = hns_needed_bytes hns + len * of_bool is_needed,
                     hns_selected_bytes = hns_selected_bytes hns + len * of_bool is_selected \<rparr>)))
       hns_default (iter_piece_infos l)"

definition ct_new :: "bits \<Rightarrow> bits \<Rightarrow> lengths \<Rightarrow> file_info list \<Rightarrow> (chunk_tracker, ct_error) rust" where
  "ct_new have_pieces selected_pieces l file_infos =
     rbind (compute_queued_pieces have_pieces selected_pieces) (\<lambda>needed_pieces.
     rbind (compute_chunk_have_status l have_pieces) (\<lambda>chunk_status.
     rbind (recalculate_per_file_bytes l have_pieces (replicate (length file_infos) 0) file_infos) (\<lambda>per_file.
     rbind (calc_hns l have_pieces selected_pieces) (\<lambda>hns.
       Inr \<lparr> ct_queue_pieces = needed_pieces, ct_chunk_status = chunk_status, ct_have = have_pieces,
             ct_selected = selected_pieces, ct_per_file_bytes = per_file, ct_lengths = l, ct_hns = hns \<rparr>))))"

definition reserve_needed_piece :: "valid_piece_index \<Rightarrow> chunk_tracker \<Rightarrow> (chunk_tracker, ct_error) rust" where
  "reserve_needed_piece index ct =
     rbind (set_bit_checked (ct_queue_pieces ct) (unat (vpi_get index)) False) (\<lambda>q.
       Inr (ct\<lparr> ct_queue_pieces := q \<rparr>))"

text \<open>
  \<^verbatim>\<open>iter_queued_pieces\<close>, consumed to its end. The conversion of a piece number to \<^verbatim>\<open>u32\<close> drops numbers
  that do not fit.
\<close>

definition queued_of_file :: "chunk_tracker \<Rightarrow> file_info \<Rightarrow> (valid_piece_index list, ct_error) rust" where
  "queued_of_file ct f =
     rfold (\<lambda>acc i. rbind (get_bit_checked (ct_queue_pieces ct) i) (\<lambda>q.
         Inr (if q \<and> i < 2 ^ 32
              then (case validate_piece_index (ct_lengths ct) (of_nat i) of
                      None \<Rightarrow> acc | Some v \<Rightarrow> acc @ [v])
              else acc)))
       [] (fi_iter_piece_priorities f)"

definition iter_queued_pieces ::
  "chunk_tracker \<Rightarrow> nat list \<Rightarrow> file_info list \<Rightarrow> (valid_piece_index list, ct_error) rust" where
  "iter_queued_pieces ct file_priorities file_infos =
     rfold (\<lambda>acc p.
       if p < length file_infos
       then if p < length (ct_per_file_bytes ct)
            then if ct_per_file_bytes ct ! p \<noteq> fi_len (file_infos ! p)
                 then rbind (queued_of_file ct (file_infos ! p)) (\<lambda>ids. Inr (acc @ ids))
                 else Inr acc
            else Inl Panic
       else Inr acc)
       [] file_priorities"

definition is_piece_have :: "chunk_tracker \<Rightarrow> valid_piece_index \<Rightarrow> (bool, ct_error) rust" where
  "is_piece_have ct i = get_bit_checked (ct_have ct) (unat (vpi_get i))"

definition mark_piece_broken_if_not_have ::
  "valid_piece_index \<Rightarrow> chunk_tracker \<Rightarrow> (chunk_tracker, ct_error) rust" where
  "mark_piece_broken_if_not_have index ct =
     (let i = unat (vpi_get index)
      in if i < length (ct_have ct) \<and> ct_have ct ! i then Inr ct
         else rbind (set_bit_checked (ct_queue_pieces ct) i True) (\<lambda>q.
                Inr (ct\<lparr> ct_queue_pieces := q,
                         ct_chunk_status :=
                           (case fill_range (ct_chunk_status ct) (chunk_range (ct_lengths ct) index) False of
                              None \<Rightarrow> ct_chunk_status ct | Some s \<Rightarrow> s) \<rparr>)))"

definition mark_piece_downloaded ::
  "valid_piece_index \<Rightarrow> chunk_tracker \<Rightarrow> (chunk_tracker, ct_error) rust" where
  "mark_piece_downloaded idx ct =
     (let i = unat (vpi_get idx)
      in rbind (get_bit_checked (ct_have ct) i) (\<lambda>is_have.
           if is_have then Inr ct
           else
             let len = ucast (piece_length (ct_lengths ct) idx) :: u64
             in rbind (set_bit_checked (ct_have ct) i True) (\<lambda>have.
                rbind (get_bit_checked (ct_selected ct) i) (\<lambda>sel.
                  Inr (ct\<lparr> ct_have := have,
                           ct_hns := (ct_hns ct)\<lparr> hns_have_bytes := hns_have_bytes (ct_hns ct) + len,
                                       hns_needed_bytes := (if sel then hns_needed_bytes (ct_hns ct) - len
                                                            else hns_needed_bytes (ct_hns ct)) \<rparr> \<rparr>)))))"

definition is_chunk_ready_to_upload :: "chunk_tracker \<Rightarrow> chunk_info \<Rightarrow> bool" where
  "is_chunk_ready_to_upload ct chunk =
     (let i = unat (vpi_get (ci_piece_index chunk)) in i < length (ct_have ct) \<and> ct_have ct ! i)"

definition get_remaining_bytes :: "chunk_tracker \<Rightarrow> u64" where
  "get_remaining_bytes ct = hns_needed_bytes (ct_hns ct)"

definition mark_chunk_downloaded ::
  "piece \<Rightarrow> chunk_tracker \<Rightarrow> (chunk_marking_result option \<times> chunk_tracker, ct_error) rust" where
  "mark_chunk_downloaded piece ct =
     (case validate_piece_index (ct_lengths ct) (pc_index piece) of
        None \<Rightarrow> Inr (None, ct)
      | Some index \<Rightarrow>
          if \<not> pc_len piece < 2 ^ 32 then Inl Panic
          else (case chunk_info_from_received_data (ct_lengths ct) index (pc_begin piece) (of_nat (pc_len piece)) of
             None \<Rightarrow> Inr (None, ct)
           | Some chunk_info \<Rightarrow>
               let range = chunk_range (ct_lengths ct) (ci_piece_index chunk_info)
               in (case get_range (ct_chunk_status ct) range of
                  None \<Rightarrow> Inl Panic
                | Some bs \<Rightarrow>
                    if all_ones bs then Inr (Some PreviouslyCompleted, ct)
                    else rbind (set_bit_checked bs (unat (ci_chunk_index chunk_info)) True) (\<lambda>bs.
                      let ct = ct\<lparr> ct_chunk_status := take (fst range) (ct_chunk_status ct) @ bs
                                    @ drop (snd range) (ct_chunk_status ct) \<rparr>
                      in Inr (Some (if all_ones bs then Completed else NotCompleted), ct)))))"

definition requeue_ones :: "nat list \<Rightarrow> chunk_tracker \<Rightarrow> (chunk_tracker, ct_error) rust" where
  "requeue_ones ids ct =
     rfold (\<lambda>ct i.
       if i < 2 ^ 32
       then (case validate_piece_index (ct_lengths ct) (of_nat i) of
               None \<Rightarrow> Inr ct
             | Some validated \<Rightarrow> mark_piece_broken_if_not_have validated ct)
       else Inr ct) ct ids"

text \<open>
  \<^verbatim>\<open>update_only_files\<close>: the newly selected pieces that are not verified are collected in a bit field
  and requeued; then the queue keeps only pieces that are verified or selected.
\<close>

definition newly_selected :: "lengths \<Rightarrow> bits \<Rightarrow> bits \<Rightarrow> bits \<Rightarrow> (bits, ct_error) rust" where
  "newly_selected l have prev selected =
     rfold (\<lambda>b i. rbind (get_bit_checked prev i) (\<lambda>p.
              if p then Inr b
              else rbind (get_bit_checked have i) (\<lambda>h.
                if h then Inr b else set_bit_checked b i True)))
       (zero_bytes (piece_bitfield_bytes l)) (iter_ones selected)"

definition bits_or :: "bits \<Rightarrow> bits \<Rightarrow> bits" where
  "bits_or a b = map2 (\<or>) a b @ drop (length b) a"

definition bits_and :: "bits \<Rightarrow> bits \<Rightarrow> bits" where
  "bits_and a b = map2 (\<and>) a b @ replicate (length a - length b) False"

definition update_only_files ::
  "file_info list \<Rightarrow> nat set \<Rightarrow> chunk_tracker \<Rightarrow> (have_needed_selected \<times> chunk_tracker, ct_error) rust" where
  "update_only_files file_infos new_only_files ct =
     (let selected = compute_selected_pieces (ct_lengths ct) (\<lambda>i. i \<in> new_only_files) file_infos;
          prev_selected = ct_selected ct;
          ct = ct\<lparr> ct_selected := selected \<rparr>
      in rbind (newly_selected (ct_lengths ct) (ct_have ct) prev_selected selected) (\<lambda>b.
         rbind (requeue_ones (iter_ones b) ct) (\<lambda>ct.
           let have_or_selected = bits_or (ct_selected ct) (ct_have ct);
               ct = ct\<lparr> ct_queue_pieces := bits_and (ct_queue_pieces ct) have_or_selected \<rparr>
           in rbind (calc_hns (ct_lengths ct) (ct_have ct) (ct_selected ct)) (\<lambda>hns.
                Inr (hns, ct\<lparr> ct_hns := hns \<rparr>)))))"

definition is_file_finished :: "chunk_tracker \<Rightarrow> file_info \<Rightarrow> bool" where
  "is_file_finished ct fi =
     (case get_range (ct_have ct) (piece_range_usize fi) of None \<Rightarrow> True | Some r \<Rightarrow> all_ones r)"

definition is_finished :: "chunk_tracker \<Rightarrow> bool" where
  "is_finished ct = hns_finished (ct_hns ct)"

text \<open>\<^verbatim>\<open>update_file_have_on_piece_completed\<close> returns the bytes the file still lacks.\<close>

definition update_file_have_on_piece_completed ::
  "valid_piece_index \<Rightarrow> nat \<Rightarrow> file_info \<Rightarrow> chunk_tracker \<Rightarrow> (u64 \<times> chunk_tracker, ct_error) rust" where
  "update_file_have_on_piece_completed piece_id file_id fi ct =
     (if file_id < length (ct_per_file_bytes ct)
      then
        let diff_have = size_of_piece_in_file (ct_lengths ct) (vpi_get piece_id) (fi_offset_in_torrent fi) (fi_len fi);
            slot = ct_per_file_bytes ct ! file_id + diff_have;
            ct = ct\<lparr> ct_per_file_bytes := (ct_per_file_bytes ct)[file_id := slot] \<rparr>
        in Inr (if fi_len fi < slot then 0 else fi_len fi - slot, ct)
      else Inl Panic)"

end
