(* ===== verification/Piece_Tracker.thy ===== *)
theory Piece_Tracker
  imports Chunk_Tracker Rust_Maps
begin

text \<open>
  \<^verbatim>\<open>crates/librtbit/src/piece_tracker.rs\<close>: which peer downloads which piece. A \<^verbatim>\<open>PeerHandle\<close> is the
  peer's socket address. Clock readings and durations are numbers of nanoseconds; the current time is
  an argument of the operations that read the clock. The steal threshold is computed in floating
  point (\<^verbatim>\<open>Duration::from_secs_f64\<close>) and is the parameter \<open>scale\<close>.
\<close>

section \<open>State\<close>

record inflight_piece =
  ip_peer :: socket_addr
  ip_started :: nat

datatype acquire_result =
    Reserved valid_piece_index
  | Stolen valid_piece_index socket_addr
  | NoneAvailable

record acquire_request =
  aq_peer :: socket_addr
  aq_peer_avg_time :: "nat option"
  aq_priority_pieces :: "valid_piece_index list"
  aq_file_priorities :: "nat list"
  aq_file_infos :: "file_info list"
  aq_peer_has_piece :: "valid_piece_index \<Rightarrow> bool"
  aq_can_steal :: "valid_piece_index \<Rightarrow> bool"

record piece_tracker =
  pt_chunks :: chunk_tracker
  pt_inflight :: "(valid_piece_index \<times> inflight_piece) list"

definition pt_new :: "chunk_tracker \<Rightarrow> piece_tracker" where
  "pt_new chunks = \<lparr> pt_chunks = chunks, pt_inflight = [] \<rparr>"

definition into_chunks :: "piece_tracker \<Rightarrow> (chunk_tracker, ct_error) rust" where
  "into_chunks pt =
     rfold (\<lambda>chunks piece. mark_piece_broken_if_not_have piece chunks) (pt_chunks pt) (map fst (pt_inflight pt))"

section \<open>Acquiring a piece\<close>

definition elapsed :: "nat \<Rightarrow> nat \<Rightarrow> nat" where
  "elapsed now started = now - started"

text \<open>\<^verbatim>\<open>Iterator::max_by_key\<close> returns the last of the maximal elements.\<close>

definition max_by_key :: "('a \<Rightarrow> nat) \<Rightarrow> 'a list \<Rightarrow> 'a option" where
  "max_by_key key xs =
     foldl (\<lambda>acc x. case acc of None \<Rightarrow> Some x | Some y \<Rightarrow> if key y \<le> key x then Some x else Some y) None xs"

definition try_steal ::
  "(nat \<Rightarrow> nat \<Rightarrow> nat) \<Rightarrow> nat \<Rightarrow> acquire_request \<Rightarrow> nat \<Rightarrow> piece_tracker \<Rightarrow> (acquire_result \<times> piece_tracker) option" where
  "try_steal scale now req threshold pt =
     (case aq_peer_avg_time req of
        None \<Rightarrow> None
      | Some my_avg \<Rightarrow>
          let min_elapsed = scale my_avg threshold;
              candidates =
                filter (\<lambda>(_, _, el). el \<ge> min_elapsed)
                  (map (\<lambda>(p, info). (p, ip_peer info, elapsed now (ip_started info)))
                    (filter (\<lambda>(p, _). aq_peer_has_piece req p)
                      (filter (\<lambda>(_, info). ip_peer info \<noteq> aq_peer req) (pt_inflight pt))))
          in (case max_by_key (\<lambda>(_, _, el). el) candidates of
                None \<Rightarrow> None
              | Some (piece, old_peer, _) \<Rightarrow>
                  if \<not> aq_can_steal req piece then None
                  else (case map_of (pt_inflight pt) piece of
                          None \<Rightarrow> None
                        | Some info \<Rightarrow>
                            Some (Stolen piece old_peer,
                                  pt\<lparr> pt_inflight := hm_insert piece
                                        (info\<lparr> ip_peer := aq_peer req, ip_started := now \<rparr>) (pt_inflight pt) \<rparr>))))"

definition reserve_piece ::
  "nat \<Rightarrow> valid_piece_index \<Rightarrow> socket_addr \<Rightarrow> piece_tracker \<Rightarrow> (acquire_result \<times> piece_tracker, ct_error) rust" where
  "reserve_piece now piece peer pt =
     rbind (reserve_needed_piece piece (pt_chunks pt)) (\<lambda>chunks.
       Inr (Reserved piece,
            pt\<lparr> pt_chunks := chunks,
                pt_inflight := hm_insert piece \<lparr> ip_peer = peer, ip_started = now \<rparr> (pt_inflight pt) \<rparr>))"

text \<open>The loop over the priority pieces, which returns the first piece that can be reserved.\<close>

fun first_priority ::
  "piece_tracker \<Rightarrow> (valid_piece_index \<Rightarrow> bool) \<Rightarrow> valid_piece_index list \<Rightarrow> (valid_piece_index option, ct_error) rust" where
  "first_priority pt has [] = Inr None"
| "first_priority pt has (piece # pieces) =
     rbind (is_piece_have (pt_chunks pt) piece) (\<lambda>is_have.
       if \<not> is_have \<and> map_of (pt_inflight pt) piece = None \<and> has piece then Inr (Some piece)
       else first_priority pt has pieces)"

definition acquire_piece ::
  "(nat \<Rightarrow> nat \<Rightarrow> nat) \<Rightarrow> nat \<Rightarrow> acquire_request \<Rightarrow> piece_tracker \<Rightarrow> (acquire_result \<times> piece_tracker, ct_error) rust" where
  "acquire_piece scale now req pt =
     (case try_steal scale now req 10 pt of
        Some result \<Rightarrow> Inr result
      | None \<Rightarrow>
          rbind (first_priority pt (aq_peer_has_piece req) (aq_priority_pieces req)) (\<lambda>found.
            case found of
              Some piece \<Rightarrow> reserve_piece now piece (aq_peer req) pt
            | None \<Rightarrow>
                rbind (iter_queued_pieces (pt_chunks pt) (aq_file_priorities req) (aq_file_infos req)) (\<lambda>queued.
                  case find (aq_peer_has_piece req) queued of
                    Some piece \<Rightarrow> reserve_piece now piece (aq_peer req) pt
                  | None \<Rightarrow>
                      (case try_steal scale now req 3 pt of
                         Some result \<Rightarrow> Inr result
                       | None \<Rightarrow> Inr (NoneAvailable, pt)))))"

section \<open>Completion and release\<close>

definition take_inflight :: "nat \<Rightarrow> valid_piece_index \<Rightarrow> piece_tracker \<Rightarrow> nat option \<times> piece_tracker" where
  "take_inflight now piece pt =
     (case map_of (pt_inflight pt) piece of
        None \<Rightarrow> (None, pt)
      | Some inflight \<Rightarrow>
          (Some (elapsed now (ip_started inflight)), pt\<lparr> pt_inflight := hm_remove piece (pt_inflight pt) \<rparr>))"

definition mark_piece_hash_ok :: "valid_piece_index \<Rightarrow> piece_tracker \<Rightarrow> (piece_tracker, ct_error) rust" where
  "mark_piece_hash_ok piece pt =
     rbind (mark_piece_downloaded piece (pt_chunks pt)) (\<lambda>chunks. Inr (pt\<lparr> pt_chunks := chunks \<rparr>))"

definition mark_piece_hash_failed :: "valid_piece_index \<Rightarrow> piece_tracker \<Rightarrow> (piece_tracker, ct_error) rust" where
  "mark_piece_hash_failed piece pt =
     rbind (mark_piece_broken_if_not_have piece (pt_chunks pt)) (\<lambda>chunks. Inr (pt\<lparr> pt_chunks := chunks \<rparr>))"

definition pieces_owned_by :: "socket_addr \<Rightarrow> piece_tracker \<Rightarrow> valid_piece_index list" where
  "pieces_owned_by peer pt = map fst (filter (\<lambda>(_, info). ip_peer info = peer) (pt_inflight pt))"

definition release_pieces_owned_by ::
  "socket_addr \<Rightarrow> piece_tracker \<Rightarrow> (nat \<times> piece_tracker, ct_error) rust" where
  "release_pieces_owned_by peer pt =
     (let pieces_to_release = pieces_owned_by peer pt
      in rbind (rfold (\<lambda>pt piece.
             rbind (mark_piece_broken_if_not_have piece (pt_chunks pt)) (\<lambda>chunks.
               Inr \<lparr> pt_chunks = chunks, pt_inflight = hm_remove piece (pt_inflight pt) \<rparr>))
           pt pieces_to_release)
         (\<lambda>pt. Inr (length pieces_to_release, pt)))"

definition get_inflight :: "valid_piece_index \<Rightarrow> piece_tracker \<Rightarrow> inflight_piece option" where
  "get_inflight piece pt = map_of (pt_inflight pt) piece"

definition is_inflight :: "valid_piece_index \<Rightarrow> piece_tracker \<Rightarrow> bool" where
  "is_inflight piece pt \<longleftrightarrow> map_of (pt_inflight pt) piece \<noteq> None"

definition inflight_count :: "piece_tracker \<Rightarrow> nat" where
  "inflight_count pt = length (pt_inflight pt)"

definition pt_mark_chunk_downloaded ::
  "piece \<Rightarrow> piece_tracker \<Rightarrow> (chunk_marking_result option \<times> piece_tracker, ct_error) rust" where
  "pt_mark_chunk_downloaded p pt =
     rbind (mark_chunk_downloaded p (pt_chunks pt)) (\<lambda>(r, chunks). Inr (r, pt\<lparr> pt_chunks := chunks \<rparr>))"

definition pt_update_only_files ::
  "file_info list \<Rightarrow> nat set \<Rightarrow> piece_tracker \<Rightarrow> (have_needed_selected \<times> piece_tracker, ct_error) rust" where
  "pt_update_only_files fis only pt =
     rbind (update_only_files fis only (pt_chunks pt)) (\<lambda>(h, chunks). Inr (h, pt\<lparr> pt_chunks := chunks \<rparr>))"

definition pt_update_file_have ::
  "valid_piece_index \<Rightarrow> nat \<Rightarrow> file_info \<Rightarrow> piece_tracker \<Rightarrow> (u64 \<times> piece_tracker, ct_error) rust" where
  "pt_update_file_have piece_id file_id fi pt =
     rbind (update_file_have_on_piece_completed piece_id file_id fi (pt_chunks pt)) (\<lambda>(r, chunks).
       Inr (r, pt\<lparr> pt_chunks := chunks \<rparr>))"

section \<open>Receiving a block\<close>

text \<open>
  The tracker's part of \<^verbatim>\<open>write_to_disk\<close> in \<^verbatim>\<open>torrent_state/live/peer_handler.rs\<close>: the block is dropped
  unless the piece is in flight from this peer; when the last chunk arrived the piece leaves the
  in-flight table, and the caller checks its hash (\<open>CheckHash\<close>).
\<close>

datatype write_outcome = Dropped | Written | DoneByOther | CheckHash nat | BogusData

definition write_to_disk ::
  "nat \<Rightarrow> socket_addr \<Rightarrow> piece \<Rightarrow> chunk_info \<Rightarrow> piece_tracker \<Rightarrow> (write_outcome \<times> piece_tracker, ct_error) rust" where
  "write_to_disk now addr p chunk_info pt =
     (case get_inflight (ci_piece_index chunk_info) pt of
        None \<Rightarrow> Inr (Dropped, pt)
      | Some inflight \<Rightarrow>
          if ip_peer inflight \<noteq> addr then Inr (Dropped, pt)
          else rbind (pt_mark_chunk_downloaded p pt) (\<lambda>(r, pt).
            case r of
              None \<Rightarrow> Inr (BogusData, pt)
            | Some PreviouslyCompleted \<Rightarrow> Inr (DoneByOther, pt)
            | Some NotCompleted \<Rightarrow> Inr (Written, pt)
            | Some Completed \<Rightarrow>
                (case take_inflight now (ci_piece_index chunk_info) pt of
                   (None, pt) \<Rightarrow> Inr (Written, pt)
                 | (Some t, pt) \<Rightarrow> Inr (CheckHash t, pt))))"

end
