(* ===== verification/Chunk_Tracker_Correct.thy ===== *)
theory Chunk_Tracker_Correct
  imports Chunk_Tracker
begin

text \<open>
  The invariant of the chunk tracker: the bit fields have their sizes, the byte counters agree with the
  bit fields, and a verified piece has all its chunks. It holds for a new tracker and is kept by every
  operation; none of them panics.
\<close>

section \<open>Invariant\<close>

text \<open>The bytes of the pieces that satisfy a predicate.\<close>

definition bytes_where :: "lengths \<Rightarrow> (nat \<Rightarrow> bool) \<Rightarrow> nat \<Rightarrow> nat" where
  "bytes_where l P n = (\<Sum>k<n. of_bool (P k) * piece_bytes l k)"

definition ct_shape :: "chunk_tracker \<Rightarrow> bool" where
  "ct_shape ct \<longleftrightarrow>
     (let l = ct_lengths ct; n = 8 * piece_bitfield_bytes l
      in wf_lengths l \<and> length (ct_queue_pieces ct) = n \<and> length (ct_have ct) = n
         \<and> length (ct_selected ct) = n \<and> length (ct_chunk_status ct) = 8 * chunk_bitfield_bytes l)"

definition hns_exact :: "lengths \<Rightarrow> bits \<Rightarrow> bits \<Rightarrow> have_needed_selected \<Rightarrow> bool" where
  "hns_exact l have sel h \<longleftrightarrow>
     unat (hns_have_bytes h) = bytes_where l (\<lambda>k. have ! k) (piece_count l)
     \<and> unat (hns_needed_bytes h) = bytes_where l (\<lambda>k. sel ! k \<and> \<not> have ! k) (piece_count l)
     \<and> unat (hns_selected_bytes h) = bytes_where l (\<lambda>k. sel ! k) (piece_count l)"

abbreviation complete :: "chunk_tracker \<Rightarrow> nat \<Rightarrow> bool" where
  "complete ct k \<equiv> range_ones (ct_chunk_status ct) (range_of (ct_lengths ct) k)"

definition have_complete :: "chunk_tracker \<Rightarrow> bool" where
  "have_complete ct \<longleftrightarrow>
     (\<forall>k < piece_count (ct_lengths ct). ct_have ct ! k \<longrightarrow>
        range_ones (ct_chunk_status ct) (range_of (ct_lengths ct) k))"

definition ct_inv :: "chunk_tracker \<Rightarrow> bool" where
  "ct_inv ct \<longleftrightarrow> ct_shape ct \<and> hns_exact (ct_lengths ct) (ct_have ct) (ct_selected ct) (ct_hns ct) \<and> have_complete ct"

lemma nceil_8: "n \<le> 8 * nceil n 8"
  using nceil_le_iff [of 8 n "nceil n 8"] by simp

lemma piece_bits:
  assumes "wf_lengths l"
  shows "piece_count l \<le> 8 * piece_bitfield_bytes l"
  by (simp add: piece_bitfield_bytes_def unat_div_ceil total_pieces_nat [OF assms] nceil_8)

lemma chunk_bits: "unat (total_chunks l) \<le> 8 * chunk_bitfield_bytes l"
  by (simp add: chunk_bitfield_bytes_def unat_div_ceil nceil_8)

lemma bytes_where_le: "bytes_where l P n \<le> (\<Sum>k<n. piece_bytes l k)"
  unfolding bytes_where_def by (intro sum_mono) simp

lemma bytes_where_bound:
  assumes "wf_lengths l" "n \<le> piece_count l"
  shows "bytes_where l P n < 18446744073709551616"
proof -
  have "bytes_where l P n \<le> unat (ln_total_length l)"
    using bytes_where_le [of l P n] by (simp add: piece_bytes_sum)
  then show ?thesis using unat_bound64 [of "ln_total_length l"] by linarith
qed

lemma bytes_where_Suc: "bytes_where l P (Suc n) = bytes_where l P n + of_bool (P n) * piece_bytes l n"
  by (simp add: bytes_where_def)

lemma bytes_where_cong: "(\<And>k. k < n \<Longrightarrow> P k = Q k) \<Longrightarrow> bytes_where l P n = bytes_where l Q n"
  by (simp add: bytes_where_def)

lemma bytes_where_eq_0:
  assumes "wf_lengths l"
  shows "bytes_where l P (piece_count l) = 0 \<longleftrightarrow> (\<forall>k < piece_count l. \<not> P k)"
  using piece_bytes_pos [OF assms] by (fastforce simp: bytes_where_def)

text \<open>Setting one bit moves the bytes of one piece.\<close>

lemma bytes_where_insert:
  assumes "i < n" "\<not> P i" "\<And>k. k < n \<Longrightarrow> Q k \<longleftrightarrow> P k \<or> k = i"
  shows "bytes_where l Q n = bytes_where l P n + piece_bytes l i"
proof -
  have "bytes_where l Q n = (\<Sum>k<n. of_bool (P k) * piece_bytes l k + of_bool (k = i) * piece_bytes l k)"
    unfolding bytes_where_def using assms by (intro sum.cong) auto
  also have "\<dots> = bytes_where l P n + (\<Sum>k<n. of_bool (k = i) * piece_bytes l k)"
    by (simp add: bytes_where_def sum.distrib)
  also have "(\<Sum>k<n. of_bool (k = i) * piece_bytes l k) = piece_bytes l i"
    using assms(1) by (simp add: of_bool_def if_distrib [of "\<lambda>x. x * _"] sum.delta cong: if_cong)
  finally show ?thesis .
qed

lemma piece_info_at:
  assumes wf: "wf_lengths l" and split: "iter_piece_infos l = done @ x # todo"
  shows "length done < piece_count l" "unat (vpi_get (pi_piece_index x)) = length done"
    "valid_index l (pi_piece_index x)" "unat (pi_len x) = piece_bytes l (length done)"
    "pi_piece_index x = ValidPieceIndex (of_nat (length done))"
proof -
  have len: "length (iter_piece_infos l) = piece_count l"
    using iter_piece_infos_nth(2) [OF wf, of 0] piece_count_bounds [OF wf] by simp
  show k: "length done < piece_count l" using len split by simp
  have x: "x = iter_piece_infos l ! length done" using split by simp
  note nth = iter_piece_infos_nth [OF wf k]
  show "pi_piece_index x = ValidPieceIndex (of_nat (length done))" using x nth(1) by simp
  then show "unat (vpi_get (pi_piece_index x)) = length done" "valid_index l (pi_piece_index x)"
    using nth by simp_all
  then show "unat (pi_len x) = piece_bytes l (length done)"
    using x nth piece_length_nat [OF wf] by simp
qed

lemma unat_add_bool:
  assumes "unat a + of_bool b * unat len < 18446744073709551616"
  shows "unat (a + ucast (len :: u32) * of_bool b :: u64) = unat a + of_bool b * unat len"
  using assms by (cases b) (simp_all add: unat_word_ariths(1))

lemma calc_hns_exact:
  assumes wf: "wf_lengths l" and hv: "piece_count l \<le> length have" and sel: "piece_count l \<le> length sel"
  shows "\<exists>h. calc_hns l have sel = Inr h \<and> hns_exact l have sel h"
proof -
  let ?P = "\<lambda>done h. let n = length done in
     unat (hns_have_bytes h) = bytes_where l (\<lambda>k. have ! k) n
     \<and> unat (hns_needed_bytes h) = bytes_where l (\<lambda>k. sel ! k \<and> \<not> have ! k) n
     \<and> unat (hns_selected_bytes h) = bytes_where l (\<lambda>k. sel ! k) n"
  have "\<exists>h. calc_hns l have sel = Inr h \<and> ?P (iter_piece_infos l) h"
    unfolding calc_hns_def
  proof (rule rfold_invariant)
    show "?P [] hns_default" by (simp add: hns_default_def bytes_where_def)
  next
    fix "done" x todo h
    assume split: "iter_piece_infos l = done @ x # todo" and h: "?P done h"
    note x = piece_info_at [OF wf split]
    let ?n = "length done"
    have S: "bytes_where l Q (Suc ?n) < 18446744073709551616" for Q
      using bytes_where_bound [OF wf, of "Suc ?n"] x(1) by simp
    have B: "bytes_where l Q ?n + of_bool (Q ?n) * unat (pi_len x) < 18446744073709551616" for Q
      using S [of Q] by (simp only: bytes_where_Suc x(4))
    from h show "\<exists>h'. (let i = unat (vpi_get (pi_piece_index x)); len = ucast (pi_len x) :: u64
       in rbind (get_bit_checked have i) (\<lambda>is_have.
          rbind (get_bit_checked sel i) (\<lambda>is_selected.
            let is_needed = is_selected \<and> \<not> is_have
            in Inr \<lparr> hns_have_bytes = hns_have_bytes h + len * of_bool is_have,
                     hns_needed_bytes = hns_needed_bytes h + len * of_bool is_needed,
                     hns_selected_bytes = hns_selected_bytes h + len * of_bool is_selected \<rparr>))) = Inr h'
        \<and> ?P (done @ [x]) h'"
      using x(1,2) hv sel B [of "\<lambda>k. have ! k"] B [of "\<lambda>k. sel ! k"] B [of "\<lambda>k. sel ! k \<and> \<not> have ! k"]
      by (simp add: Let_def get_bit_checked_def unat_add_bool bytes_where_Suc x(4))
  qed
  then show ?thesis
    using iter_piece_infos_nth(2) [OF wf, of 0] piece_count_bounds [OF wf]
    by (simp add: hns_exact_def Let_def)
qed

lemma compute_chunk_have_status_exact:
  assumes wf: "wf_lengths l" and hv: "piece_count l \<le> length have"
  shows "\<exists>bs. compute_chunk_have_status l have = Inr bs \<and> length bs = 8 * chunk_bitfield_bytes l
    \<and> (\<forall>k < piece_count l. \<forall>x. fst (range_of l k) \<le> x \<and> x < snd (range_of l k) \<longrightarrow> bs ! x = have ! k)"
proof -
  let ?P = "\<lambda>done bs. length bs = 8 * chunk_bitfield_bytes l
    \<and> (\<forall>k < piece_count l. \<forall>x. fst (range_of l k) \<le> x \<and> x < snd (range_of l k) \<longrightarrow>
        bs ! x = (have ! k \<and> k < length done))"
  have total: "unat (total_chunks l) \<le> 8 * chunk_bitfield_bytes l" by (rule chunk_bits)
  have inb: "x < 8 * chunk_bitfield_bytes l" if "k < piece_count l" "x < snd (range_of l k)" for k x
    using lay.inside [OF wf that(1)] that total by simp
  let ?f = "\<lambda>chunk_bf piece.
          let chunks = unat (chunks_per_piece l (pi_piece_index piece));
              offset = unat (default_chunks_per_piece l * vpi_get (pi_piece_index piece));
              range = (offset, offset + chunks)
          in rbind (get_bit_checked have (unat (vpi_get (pi_piece_index piece)))) (\<lambda>is_have.
               if is_have
               then (case fill_range chunk_bf range True of
                       None \<Rightarrow> Inl (Err (ChunkRangeMissing range))
                     | Some chunk_bf \<Rightarrow> Inr chunk_bf)
               else Inr chunk_bf)"
  have "\<exists>bs. rfold ?f (zero_bytes (chunk_bitfield_bytes l)) (iter_piece_infos l) = Inr bs \<and> ?P (iter_piece_infos l) bs"
  proof (rule rfold_invariant)
    show "?P [] (zero_bytes (chunk_bitfield_bytes l))" using inb by simp
  next
    fix "done" x todo bs
    assume split: "iter_piece_infos l = done @ x # todo" and bs: "?P done bs"
    note x = piece_info_at [OF wf split]
    let ?n = "length done"
    have range: "(unat (default_chunks_per_piece l * vpi_get (pi_piece_index x)),
        unat (default_chunks_per_piece l * vpi_get (pi_piece_index x)) + unat (chunks_per_piece l (pi_piece_index x)))
        = range_of l ?n"
    proof -
      have "?n * unat (ln_chunks_per_piece l) < 4294967296"
        using chunk_end_bound [OF wf x(1)] by linarith
      then show ?thesis
        using x by (simp add: range_of_nat [OF wf] chunks_per_piece_nat [OF wf] default_chunks_per_piece_def
            unat_word_ariths(2) mult.commute)
    qed
    show "\<exists>bs'. ?f bs x = Inr bs' \<and> ?P (done @ [x]) bs'"
    proof (cases "have ! ?n")
      case True
      obtain bs' where bs': "fill_range bs (range_of l ?n) True = Some bs'" "length bs' = length bs"
        "\<forall>x. fst (range_of l ?n) \<le> x \<and> x < snd (range_of l ?n) \<longrightarrow> bs' ! x"
        "\<forall>j < piece_count l. j \<noteq> ?n \<longrightarrow>
          (\<forall>x. fst (range_of l j) \<le> x \<and> x < snd (range_of l j) \<longrightarrow> bs' ! x = bs ! x)"
        using lay.fill_piece [OF wf x(1), of bs True] bs total by auto
      have "?P (done @ [x]) bs'"
        using bs bs' True by (auto simp: less_Suc_eq)
      then show ?thesis
        using bs'(1) True x(1,2) hv range by (simp add: Let_def get_bit_checked_def)
    next
      case False
      then have "?P (done @ [x]) bs" using bs by (auto simp: less_Suc_eq)
      then show ?thesis using False x(1,2) hv by (simp add: Let_def get_bit_checked_def)
    qed
  qed
  then show ?thesis
    using hv iter_piece_infos_nth(2) [OF wf, of 0] piece_count_bounds [OF wf]
    by (auto simp: compute_chunk_have_status_def total_pieces_nat [OF wf])
qed

section \<open>Operations keep the invariant\<close>

lemma ct_shapeD:
  assumes "ct_shape ct"
  shows "wf_lengths (ct_lengths ct)"
    "length (ct_queue_pieces ct) = 8 * piece_bitfield_bytes (ct_lengths ct)"
    "length (ct_have ct) = 8 * piece_bitfield_bytes (ct_lengths ct)"
    "length (ct_selected ct) = 8 * piece_bitfield_bytes (ct_lengths ct)"
    "length (ct_chunk_status ct) = 8 * chunk_bitfield_bytes (ct_lengths ct)"
  using assms by (simp_all add: ct_shape_def Let_def)

lemma ct_invD:
  assumes "ct_inv ct"
  shows "wf_lengths (ct_lengths ct)"
    "length (ct_queue_pieces ct) = 8 * piece_bitfield_bytes (ct_lengths ct)"
    "length (ct_have ct) = 8 * piece_bitfield_bytes (ct_lengths ct)"
    "length (ct_selected ct) = 8 * piece_bitfield_bytes (ct_lengths ct)"
    "length (ct_chunk_status ct) = 8 * chunk_bitfield_bytes (ct_lengths ct)"
    "hns_exact (ct_lengths ct) (ct_have ct) (ct_selected ct) (ct_hns ct)"
    "have_complete ct"
  using assms by (simp_all add: ct_inv_def ct_shape_def Let_def)

lemma valid_bit:
  assumes "wf_lengths l" "valid_index l i"
  shows "unat (vpi_get i) < piece_count l" "unat (vpi_get i) < 8 * piece_bitfield_bytes l"
  using assms piece_bits [of l] by (auto simp: valid_index_nat)

lemma validate_iff:
  "validate_piece_index l idx = Some i \<longleftrightarrow> i = ValidPieceIndex idx \<and> valid_index l i"
  by (auto simp: validate_piece_index_def valid_index_def)

lemma reserve_needed_piece_inv:
  assumes inv: "ct_inv ct" and i: "valid_index (ct_lengths ct) i"
  shows "reserve_needed_piece i ct =
      Inr (ct\<lparr> ct_queue_pieces := (ct_queue_pieces ct)[unat (vpi_get i) := False] \<rparr>)"
    "ct_inv (ct\<lparr> ct_queue_pieces := (ct_queue_pieces ct)[unat (vpi_get i) := False] \<rparr>)"
  using inv valid_bit(2) [OF ct_invD(1) [OF inv] i]
  by (simp_all add: reserve_needed_piece_def set_bit_checked_def ct_inv_def ct_shape_def have_complete_def Let_def)

text \<open>A piece that is not verified loses its chunks and enters the queue; other pieces keep theirs.\<close>

lemma mark_piece_broken_spec:
  assumes shape: "ct_shape ct" and i: "valid_index (ct_lengths ct) i"
  shows "\<exists>ct'. mark_piece_broken_if_not_have i ct = Inr ct' \<and> ct_shape ct'
    \<and> ct_lengths ct' = ct_lengths ct \<and> ct_have ct' = ct_have ct \<and> ct_selected ct' = ct_selected ct
    \<and> ct_hns ct' = ct_hns ct \<and> ct_per_file_bytes ct' = ct_per_file_bytes ct
    \<and> ct_queue_pieces ct' = (if ct_have ct ! unat (vpi_get i) then ct_queue_pieces ct
                              else (ct_queue_pieces ct)[unat (vpi_get i) := True])
    \<and> (\<forall>k < piece_count (ct_lengths ct).
         complete ct' k \<longleftrightarrow> complete ct k \<and> (k = unat (vpi_get i) \<longrightarrow> ct_have ct ! k))"
proof -
  let ?l = "ct_lengths ct" and ?i = "unat (vpi_get i)"
  note D = ct_shapeD [OF shape]
  have b: "?i < piece_count ?l" "?i < 8 * piece_bitfield_bytes ?l" using valid_bit [OF D(1) i] .
  show ?thesis
  proof (cases "ct_have ct ! ?i")
    case True
    then show ?thesis using b D shape by (auto simp: mark_piece_broken_if_not_have_def Let_def)
  next
    case False
    have "unat (total_chunks ?l) \<le> length (ct_chunk_status ct)" using D(5) chunk_bits by simp
    then obtain s where s: "fill_range (ct_chunk_status ct) (range_of ?l ?i) False = Some s"
      "length s = length (ct_chunk_status ct)"
      "\<forall>x. fst (range_of ?l ?i) \<le> x \<and> x < snd (range_of ?l ?i) \<longrightarrow> s ! x = False"
      "\<forall>j < piece_count ?l. j \<noteq> ?i \<longrightarrow>
         (\<forall>x. fst (range_of ?l j) \<le> x \<and> x < snd (range_of ?l j) \<longrightarrow> s ! x = ct_chunk_status ct ! x)"
      using lay.fill_piece [OF D(1) b(1)] by blast
    let ?ct' = "ct\<lparr> ct_queue_pieces := (ct_queue_pieces ct)[?i := True], ct_chunk_status := s \<rparr>"
    have "mark_piece_broken_if_not_have i ct = Inr ?ct'"
      using False b D s(1) by (simp add: mark_piece_broken_if_not_have_def Let_def set_bit_checked_def range_of_index)
    moreover have "\<not> complete ?ct' ?i"
      using s(3) lay.nonempty [OF D(1) b(1)] by (auto simp: range_ones_def)
    moreover have "complete ?ct' k \<longleftrightarrow> complete ct k" if "k < piece_count ?l" "k \<noteq> ?i" for k
      using s(4) that by (simp add: range_ones_def)
    moreover have "ct_shape ?ct'" using D s(2) by (simp add: ct_shape_def Let_def)
    ultimately show ?thesis using False by (intro exI [of _ ?ct']) auto
  qed
qed

lemma mark_piece_broken_inv:
  assumes inv: "ct_inv ct" and i: "valid_index (ct_lengths ct) i"
  shows "\<exists>ct'. mark_piece_broken_if_not_have i ct = Inr ct' \<and> ct_inv ct' \<and> ct_lengths ct' = ct_lengths ct
    \<and> ct_have ct' = ct_have ct \<and> ct_selected ct' = ct_selected ct \<and> ct_per_file_bytes ct' = ct_per_file_bytes ct"
proof -
  have s: "ct_shape ct" using inv by (simp add: ct_inv_def)
  then show ?thesis using mark_piece_broken_spec [OF s i] inv by (auto simp: ct_inv_def have_complete_def)
qed

lemma mark_piece_downloaded_spec:
  assumes shape: "ct_shape ct" and hns: "hns_exact (ct_lengths ct) (ct_have ct) (ct_selected ct) (ct_hns ct)"
    and i: "valid_index (ct_lengths ct) i"
  shows "\<exists>ct'. mark_piece_downloaded i ct = Inr ct' \<and> ct_shape ct'
    \<and> hns_exact (ct_lengths ct') (ct_have ct') (ct_selected ct') (ct_hns ct')
    \<and> ct_have ct' = (ct_have ct)[unat (vpi_get i) := True]
    \<and> ct_lengths ct' = ct_lengths ct \<and> ct_selected ct' = ct_selected ct
    \<and> ct_queue_pieces ct' = ct_queue_pieces ct \<and> ct_chunk_status ct' = ct_chunk_status ct
    \<and> ct_per_file_bytes ct' = ct_per_file_bytes ct"
proof -
  let ?l = "ct_lengths ct" and ?i = "unat (vpi_get i)" and ?have = "ct_have ct" and ?sel = "ct_selected ct"
  note D = ct_shapeD [OF shape]
  have b: "?i < piece_count ?l" "?i < 8 * piece_bitfield_bytes ?l" using valid_bit [OF D(1) i] .
  have n: "piece_count ?l \<le> length ?have" using piece_bits [OF D(1)] D(3) by simp
  show ?thesis
  proof (cases "?have ! ?i")
    case True
    then have "?have[?i := True] = ?have" by (metis list_update_id)
    then show ?thesis using True b D shape hns by (simp add: mark_piece_downloaded_def get_bit_checked_def Let_def)
  next
    case False
    let ?len = "ucast (piece_length ?l i) :: u64"
    let ?h = "(ct_hns ct)\<lparr> hns_have_bytes := hns_have_bytes (ct_hns ct) + ?len,
        hns_needed_bytes := (if ?sel ! ?i then hns_needed_bytes (ct_hns ct) - ?len else hns_needed_bytes (ct_hns ct)) \<rparr>"
    let ?ct' = "ct\<lparr> ct_have := ?have[?i := True], ct_hns := ?h \<rparr>"
    have "mark_piece_downloaded i ct = Inr ?ct'"
      using False b D by (simp add: mark_piece_downloaded_def get_bit_checked_def set_bit_checked_def Let_def)
    moreover have "hns_exact ?l (?have[?i := True]) ?sel ?h"
    proof -
      have len: "unat ?len = piece_bytes ?l ?i" using piece_length_nat [OF D(1) i] by simp
      have H: "bytes_where ?l (\<lambda>k. ?have[?i := True] ! k) (piece_count ?l) =
          bytes_where ?l (\<lambda>k. ?have ! k) (piece_count ?l) + piece_bytes ?l ?i"
        using False b n by (intro bytes_where_insert) (auto simp: nth_list_update)
      have N1: "bytes_where ?l (\<lambda>k. ?sel ! k \<and> \<not> ?have ! k) (piece_count ?l) =
          bytes_where ?l (\<lambda>k. ?sel ! k \<and> \<not> ?have[?i := True] ! k) (piece_count ?l) + piece_bytes ?l ?i" if "?sel ! ?i"
        using False b n that by (intro bytes_where_insert) (auto simp: nth_list_update)
      have N2: "bytes_where ?l (\<lambda>k. ?sel ! k \<and> \<not> ?have[?i := True] ! k) (piece_count ?l) =
          bytes_where ?l (\<lambda>k. ?sel ! k \<and> \<not> ?have ! k) (piece_count ?l)" if "\<not> ?sel ! ?i"
        using that b n by (intro bytes_where_cong) (auto simp: nth_list_update)
      have "unat (hns_have_bytes (ct_hns ct) + ?len) = unat (hns_have_bytes (ct_hns ct)) + piece_bytes ?l ?i"
        using bytes_where_bound [OF D(1) order_refl, of "\<lambda>k. ?have[?i := True] ! k"] hns H len
        by (simp add: hns_exact_def unat_word_ariths(1) flip: len)
      moreover have "unat (hns_needed_bytes (ct_hns ct) - ?len) = unat (hns_needed_bytes (ct_hns ct)) - piece_bytes ?l ?i"
        if "?sel ! ?i"
        using N1 [OF that] hns len by (subst unat_sub) (simp_all add: hns_exact_def word_le_nat_alt)
      ultimately show ?thesis using hns H N1 N2 by (simp add: hns_exact_def)
    qed
    ultimately show ?thesis using D by (simp add: ct_shape_def Let_def)
  qed
qed

lemma mark_piece_downloaded_inv:
  assumes inv: "ct_inv ct" and i: "valid_index (ct_lengths ct) i" and "complete ct (unat (vpi_get i))"
  shows "\<exists>ct'. mark_piece_downloaded i ct = Inr ct' \<and> ct_inv ct' \<and> ct_lengths ct' = ct_lengths ct
    \<and> ct_per_file_bytes ct' = ct_per_file_bytes ct"
  using mark_piece_downloaded_spec [of ct i] assms
  by (auto simp: ct_inv_def have_complete_def nth_update_bit)

section \<open>Receiving a chunk\<close>

lemma slice_update:
  assumes "a \<le> b" "b \<le> length bs" "j < b - a"
  shows "take a bs @ (take (b - a) (drop a bs))[j := v] @ drop b bs = bs[a + j := v]"
  using assms by (intro nth_equalityI) (auto simp: nth_append nth_list_update)

text \<open>The chunk of a received block, as a position in the chunk bit field.\<close>

definition block_bit :: "chunk_tracker \<Rightarrow> piece \<Rightarrow> nat option" where
  "block_bit ct p =
     (case validate_piece_index (ct_lengths ct) (pc_index p) of
        None \<Rightarrow> None
      | Some i \<Rightarrow> map_option (\<lambda>c. unat (ci_absolute_index c))
          (chunk_info_from_received_data (ct_lengths ct) i (pc_begin p) (of_nat (pc_len p))))"

lemma received_chunk_nat:
  assumes wf: "wf_lengths l" and i: "valid_index l i"
    and c: "chunk_info_from_received_data l i b s = Some c"
  shows "ci_piece_index c = i" "unat (ci_chunk_index c) < piece_chunks l (unat (vpi_get i))"
    "unat (ci_absolute_index c) = fst (range_of l (unat (vpi_get i))) + unat (ci_chunk_index c)"
proof -
  have "c \<in> set (iter_chunk_infos l i)" using c received_data_iff [OF wf i] by blast
  then obtain j where j: "j < piece_chunks l (unat (vpi_get i))" "c = chunk_at l i j"
    by (auto simp: iter_chunk_infos_closed [OF wf i])
  note n = chunk_at_nat [OF wf i j(1)]
  show "ci_piece_index c = i" using j(2) by (simp add: chunk_at_def)
  show "unat (ci_chunk_index c) < piece_chunks l (unat (vpi_get i))" using j n by simp
  show "unat (ci_absolute_index c) = fst (range_of l (unat (vpi_get i))) + unat (ci_chunk_index c)"
    using j n valid_bit(1) [OF wf i] by (simp add: range_of_nat [OF wf])
qed

lemma mark_chunk_downloaded_spec:
  assumes shape: "ct_shape ct" and len: "pc_len p < 2 ^ 32"
  shows "mark_chunk_downloaded p ct =
    (case block_bit ct p of
       None \<Rightarrow> Inr (None, ct)
     | Some x \<Rightarrow>
         let r = range_of (ct_lengths ct) (unat (pc_index p));
             bs' = (ct_chunk_status ct)[x := True]
         in if range_ones (ct_chunk_status ct) r then Inr (Some PreviouslyCompleted, ct)
            else Inr (Some (if range_ones bs' r then Completed else NotCompleted),
                      ct\<lparr> ct_chunk_status := bs' \<rparr>))"
proof (cases "validate_piece_index (ct_lengths ct) (pc_index p)")
  case None
  then show ?thesis by (simp add: mark_chunk_downloaded_def block_bit_def)
next
  case (Some i)
  let ?l = "ct_lengths ct" and ?bs = "ct_chunk_status ct"
  note D = ct_shapeD [OF shape]
  have i: "i = ValidPieceIndex (pc_index p)" "valid_index ?l i" using Some by (auto simp: validate_iff)
  show ?thesis
  proof (cases "chunk_info_from_received_data ?l i (pc_begin p) (of_nat (pc_len p))")
    case None
    then show ?thesis using Some len by (simp add: mark_chunk_downloaded_def block_bit_def)
  next
    case (Some c)
    note C = received_chunk_nat [OF D(1) i(2) Some]
    let ?k = "unat (vpi_get i)" and ?j = "unat (ci_chunk_index c)"
    let ?r = "range_of ?l ?k"
    have k: "?k < piece_count ?l" by (rule valid_bit(1) [OF D(1) i(2)])
    have r: "snd ?r - fst ?r = piece_chunks ?l ?k" using k by (simp add: range_of_nat [OF D(1)])
    have total: "unat (total_chunks ?l) \<le> length ?bs" using D(5) chunk_bits by simp
    have r': "fst ?r \<le> snd ?r" "snd ?r \<le> length ?bs"
      using lay.nonempty [OF D(1) k] lay.inside [OF D(1) k] total by simp_all
    have get: "get_range ?bs ?r = Some (take (snd ?r - fst ?r) (drop (fst ?r) ?bs))"
      using r' by (simp add: get_range_def)
    have ones: "all_ones (take (snd ?r - fst ?r) (drop (fst ?r) bs)) \<longleftrightarrow> range_ones bs ?r"
      if "length bs = length ?bs" for bs
      using get_range_all [of ?r bs] r' that by (auto simp: get_range_def)
    have j: "?j < snd ?r - fst ?r" using C(2) r by simp
    let ?new = "?bs[fst ?r + ?j := True]"
    have upd: "take (fst ?r) ?bs @ (take (snd ?r - fst ?r) (drop (fst ?r) ?bs))[?j := True] @ drop (snd ?r) ?bs = ?new"
      using slice_update [OF r' j] .
    have "(take (snd ?r - fst ?r) (drop (fst ?r) ?bs))[?j := True] = take (snd ?r - fst ?r) (drop (fst ?r) ?new)"
      using j r' by (intro nth_equalityI) (auto simp: nth_list_update)
    then have ones': "all_ones ((take (snd ?r - fst ?r) (drop (fst ?r) ?bs))[?j := True]) \<longleftrightarrow> range_ones ?new ?r"
      using ones [of ?new] by simp
    have "length (take (snd ?r - fst ?r) (drop (fst ?r) ?bs)) = snd ?r - fst ?r" using r' by simp
    then show ?thesis
      using \<open>validate_piece_index ?l (pc_index p) = Some i\<close> Some C len j get ones [of ?bs] ones' upd i(1)
      by (simp add: mark_chunk_downloaded_def block_bit_def Let_def range_of_index [symmetric] set_bit_checked_def)
  qed
qed

lemma block_bit_in_range:
  assumes shape: "ct_shape ct" and x: "block_bit ct p = Some x"
  shows "valid_index (ct_lengths ct) (ValidPieceIndex (pc_index p))"
    "fst (range_of (ct_lengths ct) (unat (pc_index p))) \<le> x"
    "x < snd (range_of (ct_lengths ct) (unat (pc_index p)))"
proof -
  obtain i c where i: "validate_piece_index (ct_lengths ct) (pc_index p) = Some i"
    and c: "chunk_info_from_received_data (ct_lengths ct) i (pc_begin p) (of_nat (pc_len p)) = Some c"
    and xc: "x = unat (ci_absolute_index c)"
    using x by (auto simp: block_bit_def split: option.splits)
  have iv: "i = ValidPieceIndex (pc_index p)" "valid_index (ct_lengths ct) i" using i by (auto simp: validate_iff)
  then show "valid_index (ct_lengths ct) (ValidPieceIndex (pc_index p))" by simp
  note wf = ct_shapeD(1) [OF shape]
  show "fst (range_of (ct_lengths ct) (unat (pc_index p))) \<le> x"
    "x < snd (range_of (ct_lengths ct) (unat (pc_index p)))"
    using received_chunk_nat [OF wf iv(2) c] valid_bit(1) [OF wf iv(2)] iv(1) xc
    by (simp_all add: range_of_nat [OF wf])
qed

lemma mark_chunk_downloaded_effect:
  assumes shape: "ct_shape ct" and len: "pc_len p < 2 ^ 32"
  shows "\<exists>r ct'. mark_chunk_downloaded p ct = Inr (r, ct') \<and> ct_shape ct' \<and> ct_lengths ct' = ct_lengths ct
    \<and> ct_have ct' = ct_have ct \<and> ct_selected ct' = ct_selected ct \<and> ct_queue_pieces ct' = ct_queue_pieces ct
    \<and> ct_per_file_bytes ct' = ct_per_file_bytes ct \<and> ct_hns ct' = ct_hns ct
    \<and> (\<forall>k < piece_count (ct_lengths ct). complete ct' k \<longleftrightarrow>
         complete ct k \<or> r = Some Completed \<and> k = unat (pc_index p))
    \<and> (r = Some PreviouslyCompleted \<longrightarrow> complete ct (unat (pc_index p)))
    \<and> (r = Some Completed \<longrightarrow> \<not> complete ct (unat (pc_index p)))
    \<and> (r \<noteq> None \<longrightarrow> valid_index (ct_lengths ct) (ValidPieceIndex (pc_index p)))"
proof (cases "block_bit ct p")
  case None
  then show ?thesis using shape by (simp add: mark_chunk_downloaded_spec [OF shape len])
next
  case (Some x)
  let ?l = "ct_lengths ct" and ?i = "unat (pc_index p)"
  let ?ct' = "ct\<lparr> ct_chunk_status := (ct_chunk_status ct)[x := True] \<rparr>"
  note B = block_bit_in_range [OF shape Some]
  note wf = ct_shapeD(1) [OF shape]
  have i: "?i < piece_count ?l" using valid_bit(1) [OF wf B(1)] by simp
  have "ct_shape ?ct'" using ct_shapeD [OF shape] by (simp add: ct_shape_def Let_def)
  moreover have "complete ?ct' k \<longleftrightarrow> complete ct k" if "k < piece_count ?l" "k \<noteq> ?i" for k
    using lay.complete_set_other [OF wf that(1) i that(2) B(2,3)] by simp
  ultimately show ?thesis
    using shape B(1) Some by (auto simp: mark_chunk_downloaded_spec [OF shape len] Let_def)
qed

lemma mark_chunk_downloaded_inv:
  assumes "ct_inv ct" and "pc_len p < 2 ^ 32"
  shows "\<exists>r ct'. mark_chunk_downloaded p ct = Inr (r, ct') \<and> ct_inv ct' \<and> ct_lengths ct' = ct_lengths ct
    \<and> ct_per_file_bytes ct' = ct_per_file_bytes ct"
  using mark_chunk_downloaded_effect [OF _ assms(2), of ct] assms(1)
  by (auto simp: ct_inv_def have_complete_def)

section \<open>Selecting files\<close>

abbreviation in_range :: "nat \<times> nat \<Rightarrow> nat \<Rightarrow> bool" where
  "in_range r k \<equiv> fst r \<le> k \<and> k < snd r"

text \<open>The pieces of the selected files; a range that does not fit the bit field is skipped.\<close>

definition wanted_piece :: "lengths \<Rightarrow> (nat \<Rightarrow> bool) \<Rightarrow> file_info list \<Rightarrow> nat \<Rightarrow> bool" where
  "wanted_piece l only fis k \<longleftrightarrow>
     (\<exists>i < length fis. only i \<and> \<not> fa_padding (fi_attrs (fis ! i))
        \<and> in_range (piece_range_usize (fis ! i)) k
        \<and> snd (piece_range_usize (fis ! i)) \<le> 8 * piece_bitfield_bytes l)"

lemma fill_opt_nth:
  "length (case fill_range bs r True of None \<Rightarrow> bs | Some b \<Rightarrow> b) = length bs"
  "k < length bs \<Longrightarrow> (case fill_range bs r True of None \<Rightarrow> bs | Some b \<Rightarrow> b) ! k
     = (bs ! k \<or> in_range r k \<and> snd r \<le> length bs)"
  using fill_range_Some [of r bs True]
  by (auto simp: fill_range_def nth_append split: if_splits)

lemma selected_fold:
  "length (foldl (\<lambda>bf (_, fi). case fill_range bf (piece_range_usize fi) True of None \<Rightarrow> bf | Some bf \<Rightarrow> bf) bs xs) = length bs"
  "k < length bs \<Longrightarrow>
   foldl (\<lambda>bf (_, fi). case fill_range bf (piece_range_usize fi) True of None \<Rightarrow> bf | Some bf \<Rightarrow> bf) bs xs ! k
     \<longleftrightarrow> bs ! k \<or> (\<exists>x \<in> set xs. in_range (piece_range_usize (snd x)) k \<and> snd (piece_range_usize (snd x)) \<le> length bs)"
  by (induction xs arbitrary: bs) (auto simp: fill_opt_nth case_prod_beta)

lemma compute_selected_pieces_exact:
  "length (compute_selected_pieces l only fis) = 8 * piece_bitfield_bytes l"
  "k < 8 * piece_bitfield_bytes l \<Longrightarrow> compute_selected_pieces l only fis ! k \<longleftrightarrow> wanted_piece l only fis k"
  by (auto simp: compute_selected_pieces_def selected_fold wanted_piece_def in_set_enumerate_eq)

lemma newly_selected_exact:
  assumes len: "length prev = 8 * piece_bitfield_bytes l" "length hv = 8 * piece_bitfield_bytes l"
    "length sel = 8 * piece_bitfield_bytes l"
  shows "\<exists>b. newly_selected l hv prev sel = Inr b \<and> length b = 8 * piece_bitfield_bytes l
    \<and> (\<forall>k < 8 * piece_bitfield_bytes l. b ! k \<longleftrightarrow> sel ! k \<and> \<not> prev ! k \<and> \<not> hv ! k)"
proof -
  let ?n = "8 * piece_bitfield_bytes l"
  let ?P = "\<lambda>done b. length b = ?n \<and> (\<forall>k < ?n. b ! k \<longleftrightarrow> k \<in> set done \<and> \<not> prev ! k \<and> \<not> hv ! k)"
  have "\<exists>b. newly_selected l hv prev sel = Inr b \<and> ?P (iter_ones sel) b"
    unfolding newly_selected_def
  proof (rule rfold_invariant)
    show "?P [] (zero_bytes (piece_bitfield_bytes l))" by simp
  next
    fix "done" i todo b
    assume split: "iter_ones sel = done @ i # todo" and b: "?P done b"
    have "i \<in> set (iter_ones sel)" unfolding split by simp
    then have "i < ?n" using len(3) by simp
    then show "\<exists>b'. rbind (get_bit_checked prev i) (\<lambda>p. if p then Inr b
              else rbind (get_bit_checked hv i) (\<lambda>h. if h then Inr b else set_bit_checked b i True)) = Inr b'
        \<and> ?P (done @ [i]) b'"
      using b len by (auto simp: get_bit_checked_def set_bit_checked_def nth_list_update)
  qed
  then show ?thesis using len(3) by auto
qed

text \<open>The effect of requeueing a set of pieces: those that are not verified are queued without chunks.\<close>

definition requeued :: "nat set \<Rightarrow> chunk_tracker \<Rightarrow> chunk_tracker \<Rightarrow> bool" where
  "requeued K ct ct' \<longleftrightarrow> ct_shape ct' \<and> ct_lengths ct' = ct_lengths ct \<and> ct_have ct' = ct_have ct
     \<and> ct_selected ct' = ct_selected ct \<and> ct_per_file_bytes ct' = ct_per_file_bytes ct \<and> ct_hns ct' = ct_hns ct
     \<and> (\<forall>k < piece_count (ct_lengths ct).
          (ct_queue_pieces ct' ! k \<longleftrightarrow> ct_queue_pieces ct ! k \<or> k \<in> K \<and> \<not> ct_have ct ! k)
          \<and> (complete ct' k \<longleftrightarrow> complete ct k \<and> (k \<in> K \<longrightarrow> ct_have ct ! k)))"

lemma requeue_one:
  assumes "requeued K ct ct'" and "valid_index (ct_lengths ct) i"
  shows "\<exists>ct''. mark_piece_broken_if_not_have i ct' = Inr ct'' \<and> requeued (insert (unat (vpi_get i)) K) ct ct''"
proof -
  have shape: "ct_shape ct'" and l: "ct_lengths ct' = ct_lengths ct" using assms(1) by (simp_all add: requeued_def)
  have "piece_count (ct_lengths ct) \<le> length (ct_queue_pieces ct')"
    using ct_shapeD(1,2) [OF shape] piece_bits [of "ct_lengths ct'"] l by simp
  then show ?thesis
    using mark_piece_broken_spec [OF shape, of i] assms
    by (auto simp: requeued_def nth_update_bit split: if_splits)
qed

lemma requeue_ones_spec:
  assumes shape: "ct_shape ct"
  shows "\<exists>ct'. requeue_ones ids ct = Inr ct' \<and> requeued (set ids) ct ct'"
  unfolding requeue_ones_def
proof (rule rfold_invariant)
  show "requeued (set []) ct ct" using shape by (simp add: requeued_def)
next
  fix "done" i todo ct'
  assume P: "requeued (set done) ct ct'"
  let ?l = "ct_lengths ct"
  have wf: "wf_lengths ?l" using ct_shapeD(1) [OF shape] .
  have l: "ct_lengths ct' = ?l" using P by (simp add: requeued_def)
  show "\<exists>ct''. (if i < 2 ^ 32
       then (case validate_piece_index (ct_lengths ct') (of_nat i) of
               None \<Rightarrow> Inr ct'
             | Some validated \<Rightarrow> mark_piece_broken_if_not_have validated ct')
       else Inr ct') = Inr ct'' \<and> requeued (set (done @ [i])) ct ct''"
  proof (cases "i < piece_count ?l")
    case True
    have iv: "valid_index ?l (ValidPieceIndex (of_nat i))" and iu: "unat (of_nat i :: u32) = i"
      using index_of_nat [OF wf True] .
    have "i < 2 ^ 32" using piece_count_bounds(2) [OF wf] True by simp
    moreover have "validate_piece_index ?l (of_nat i) = Some (ValidPieceIndex (of_nat i))"
      using iv by (simp add: validate_iff)
    ultimately show ?thesis using requeue_one [OF P iv] by (simp add: iu l)
  next
    case False
    have "validate_piece_index ?l (of_nat i) = None" if "i < 2 ^ 32"
    proof -
      have "unat (of_nat i :: u32) = i" using that by (simp add: unat_of_nat)
      then have "\<not> valid_index ?l (ValidPieceIndex (of_nat i))"
        using False by (simp add: valid_index_nat [OF wf])
      then show ?thesis using validate_iff [of ?l "of_nat i"] by (cases "validate_piece_index ?l (of_nat i)") auto
    qed
    then show ?thesis using P False by (auto simp: requeued_def l)
  qed
qed

lemma bits_or_nth: "length a = length b \<Longrightarrow> length (bits_or a b) = length a"
  "length a = length b \<Longrightarrow> k < length a \<Longrightarrow> bits_or a b ! k \<longleftrightarrow> a ! k \<or> b ! k"
  by (simp_all add: bits_or_def nth_append)

lemma bits_and_nth: "length a = length b \<Longrightarrow> length (bits_and a b) = length a"
  "length a = length b \<Longrightarrow> k < length a \<Longrightarrow> bits_and a b ! k \<longleftrightarrow> a ! k \<and> b ! k"
  by (simp_all add: bits_and_def nth_append)

lemma update_only_files_spec:
  assumes shape: "ct_shape ct"
  shows "\<exists>h ct'. update_only_files fis only ct = Inr (h, ct') \<and> ct_shape ct' \<and> ct_hns ct' = h
    \<and> hns_exact (ct_lengths ct') (ct_have ct') (ct_selected ct') h
    \<and> ct_lengths ct' = ct_lengths ct \<and> ct_have ct' = ct_have ct \<and> ct_per_file_bytes ct' = ct_per_file_bytes ct
    \<and> (\<forall>k < piece_count (ct_lengths ct).
         ct_selected ct' ! k = wanted_piece (ct_lengths ct) (\<lambda>i. i \<in> only) fis k
         \<and> ct_queue_pieces ct' ! k =
             ((ct_have ct ! k \<or> ct_selected ct' ! k)
              \<and> (ct_queue_pieces ct ! k \<or> ct_selected ct' ! k \<and> \<not> ct_selected ct ! k \<and> \<not> ct_have ct ! k))
         \<and> complete ct' k = (complete ct k \<and> \<not> (ct_selected ct' ! k \<and> \<not> ct_selected ct ! k \<and> \<not> ct_have ct ! k)))"
proof -
  let ?l = "ct_lengths ct"
  let ?sel = "compute_selected_pieces ?l (\<lambda>i. i \<in> only) fis"
  let ?ct1 = "ct\<lparr> ct_selected := ?sel \<rparr>"
  note D = ct_shapeD [OF shape]
  note pb = piece_bits [OF D(1)]
  have sel: "length ?sel = 8 * piece_bitfield_bytes ?l" by (rule compute_selected_pieces_exact)
  obtain b where b: "newly_selected ?l (ct_have ct) (ct_selected ct) ?sel = Inr b"
    "length b = 8 * piece_bitfield_bytes ?l"
    "\<forall>k < 8 * piece_bitfield_bytes ?l. b ! k \<longleftrightarrow> ?sel ! k \<and> \<not> ct_selected ct ! k \<and> \<not> ct_have ct ! k"
    using newly_selected_exact [OF D(4) D(3) sel] by blast
  have "ct_shape ?ct1" using D sel by (simp add: ct_shape_def Let_def)
  then obtain ct2 where c2: "requeue_ones (iter_ones b) ?ct1 = Inr ct2" and "requeued (set (iter_ones b)) ?ct1 ct2"
    using requeue_ones_spec by blast
  then have R: "ct_shape ct2" "ct_lengths ct2 = ?l" "ct_have ct2 = ct_have ct" "ct_selected ct2 = ?sel"
    "ct_per_file_bytes ct2 = ct_per_file_bytes ct"
    "\<forall>k < piece_count ?l. (ct_queue_pieces ct2 ! k \<longleftrightarrow> ct_queue_pieces ct ! k \<or> k \<in> set (iter_ones b) \<and> \<not> ct_have ct ! k)
       \<and> (complete ct2 k \<longleftrightarrow> complete ct k \<and> (k \<in> set (iter_ones b) \<longrightarrow> ct_have ct ! k))"
    by (auto simp: requeued_def)
  note D2 = ct_shapeD [OF R(1), unfolded R(2-4)]
  have hs: "length ?sel = length (ct_have ct)" using D2 by simp
  obtain h where h: "calc_hns ?l (ct_have ct) ?sel = Inr h" "hns_exact ?l (ct_have ct) ?sel h"
    using calc_hns_exact [OF D(1), of "ct_have ct" ?sel] pb D2 sel by auto
  let ?q = "bits_and (ct_queue_pieces ct2) (bits_or ?sel (ct_have ct))"
  let ?ct' = "ct2\<lparr> ct_queue_pieces := ?q, ct_hns := h \<rparr>"
  have run: "update_only_files fis only ct = Inr (h, ?ct')"
    using b(1) c2 R(2-4) h(1) by (simp add: update_only_files_def Let_def)
  have q: "length ?q = length (ct_queue_pieces ct2)"
    using D2 hs by (simp add: bits_and_nth bits_or_nth)
  have "ct_shape ?ct'" using R(1-4) q by (simp add: ct_shape_def Let_def)
  moreover have "?q ! k = ((ct_have ct ! k \<or> ?sel ! k)
              \<and> (ct_queue_pieces ct ! k \<or> ?sel ! k \<and> \<not> ct_selected ct ! k \<and> \<not> ct_have ct ! k))"
    if "k < piece_count ?l" for k
    using that R(6) b(2,3) D2 hs pb by (auto simp: bits_and_nth bits_or_nth)
  moreover have "complete ?ct' k = (complete ct k \<and> \<not> (?sel ! k \<and> \<not> ct_selected ct ! k \<and> \<not> ct_have ct ! k))"
    if "k < piece_count ?l" for k
    using that R(2,6) b(2,3) pb by auto
  ultimately show ?thesis
    using run R(2-5) h(2) pb by (auto simp: compute_selected_pieces_exact(2))
qed

lemma update_only_files_inv:
  assumes "ct_inv ct"
  shows "\<exists>h ct'. update_only_files fis only ct = Inr (h, ct') \<and> ct_inv ct' \<and> ct_lengths ct' = ct_lengths ct
    \<and> ct_per_file_bytes ct' = ct_per_file_bytes ct"
  using update_only_files_spec [of ct fis only] assms
  by (fastforce simp: ct_inv_def have_complete_def)

end
