(* ===== verification/Chunk_Tracker_Files.thy ===== *)
theory Chunk_Tracker_Files
  imports Chunk_Tracker_Correct Lengths_Correct
begin

text \<open>
  The byte counters that the chunk tracker keeps per file, the reachable states of a tracker with the
  guards of its callers, and the properties that the rest of the client relies on.
\<close>

section \<open>Bytes per file\<close>

definition file_end :: "file_info \<Rightarrow> nat" where
  "file_end fi = unat (fi_offset_in_torrent fi) + unat (fi_len fi)"

definition file_ok :: "lengths \<Rightarrow> file_info \<Rightarrow> bool" where
  "file_ok l fi \<longleftrightarrow> file_end fi \<le> unat (ln_total_length l)
     \<and> iter_pieces_within_offset l (fi_offset_in_torrent fi) (fi_len fi) = Inr (fi_piece_range fi)"

abbreviation file_overlap :: "lengths \<Rightarrow> nat \<Rightarrow> file_info \<Rightarrow> nat" where
  "file_overlap l k fi \<equiv> piece_overlap l k (unat (fi_offset_in_torrent fi)) (file_end fi)"

definition file_bytes_where :: "lengths \<Rightarrow> (nat \<Rightarrow> bool) \<Rightarrow> file_info \<Rightarrow> nat" where
  "file_bytes_where l P fi = (\<Sum>k < piece_count l. of_bool (P k) * file_overlap l k fi)"

lemma overlap_pos_iff:
  assumes "0 < unat (ln_piece_length l)"
  shows "0 < piece_overlap l k a e \<longleftrightarrow> (\<exists>b. a \<le> b \<and> b < e \<and> b div unat (ln_piece_length l) = k)"
proof
  let ?P = "unat (ln_piece_length l)"
  assume h: "0 < piece_overlap l k a e"
  let ?b = "max a (k * ?P)"
  have b: "a \<le> ?b" "?b < e" "k * ?P \<le> ?b" "?b < Suc k * ?P"
    using h by (simp_all add: piece_overlap_def)
  then have "?b div ?P = k" by (intro div_nat_eqI) (simp_all add: mult.commute)
  then show "\<exists>b. a \<le> b \<and> b < e \<and> b div ?P = k" using b by blast
next
  let ?P = "unat (ln_piece_length l)"
  assume "\<exists>b. a \<le> b \<and> b < e \<and> b div ?P = k"
  then obtain b where b: "a \<le> b" "b < e" "b div ?P = k" by blast
  then have "k * ?P \<le> b" "b < Suc k * ?P"
    using div_times_less_eq_dividend [of b ?P] dividend_less_div_times [OF assms, of b] by auto
  then show "0 < piece_overlap l k a e" using b by (simp add: piece_overlap_def)
qed

lemma file_range_iff:
  assumes wf: "wf_lengths l" and ok: "file_ok l fi"
  shows "in_range (piece_range_usize fi) k \<longleftrightarrow> 0 < file_overlap l k fi"
    and "in_range (piece_range_usize fi) k \<Longrightarrow> k < piece_count l"
proof -
  have e: "file_end fi \<le> unat (ln_total_length l)" using ok by (simp add: file_ok_def)
  then have "unat (fi_offset_in_torrent fi) + unat (fi_len fi) < 2 ^ 64"
    using unat_bound64 [of "ln_total_length l"] by (simp add: file_end_def)
  from iter_pieces_within_offset_nat [OF wf this]
  have R: "in_range (piece_range_usize fi) k \<longleftrightarrow> (\<exists>b. unat (fi_offset_in_torrent fi) \<le> b \<and> b < file_end fi
      \<and> b < unat (ln_total_length l) \<and> b div unat (ln_piece_length l) = k)"
    using ok by (auto simp: file_ok_def piece_range_usize_def file_end_def)
  show "in_range (piece_range_usize fi) k \<longleftrightarrow> 0 < file_overlap l k fi"
    unfolding R overlap_pos_iff [OF wf_lengthsD(2) [OF wf]] using e by auto
  assume "in_range (piece_range_usize fi) k"
  then obtain b where "b < unat (ln_total_length l)" "b div unat (ln_piece_length l) = k" using R by blast
  then have "k * unat (ln_piece_length l) < unat (ln_total_length l)"
    using div_times_less_eq_dividend [of b "unat (ln_piece_length l)"] by auto
  then show "k < piece_count l" by (simp add: less_piece_count [OF wf])
qed

lemma file_overlap_total:
  assumes "wf_lengths l" "file_ok l fi"
  shows "(\<Sum>k < piece_count l. file_overlap l k fi) = unat (fi_len fi)"
  using piece_overlap_total [OF assms(1), of "unat (fi_offset_in_torrent fi)" "file_end fi"] assms(2)
  by (simp add: file_ok_def file_end_def)

lemma file_bytes_where_le:
  assumes "wf_lengths l" "file_ok l fi"
  shows "file_bytes_where l P fi \<le> unat (fi_len fi)"
proof -
  have "file_bytes_where l P fi \<le> (\<Sum>k < piece_count l. file_overlap l k fi)"
    unfolding file_bytes_where_def by (intro sum_mono) simp
  then show ?thesis using file_overlap_total [OF assms] by simp
qed

text \<open>The file is complete exactly when all pieces of its range are there.\<close>

lemma file_bytes_where_full:
  assumes wf: "wf_lengths l" and ok: "file_ok l fi"
  shows "file_bytes_where l P fi = unat (fi_len fi) \<longleftrightarrow> (\<forall>k. in_range (piece_range_usize fi) k \<longrightarrow> P k)"
proof -
  have split: "unat (fi_len fi) = file_bytes_where l P fi + (\<Sum>k < piece_count l. of_bool (\<not> P k) * file_overlap l k fi)"
    unfolding file_overlap_total [OF wf ok, symmetric] file_bytes_where_def sum.distrib [symmetric]
    by (intro sum.cong) auto
  have "(\<Sum>k < piece_count l. of_bool (\<not> P k) * file_overlap l k fi) = 0 \<longleftrightarrow>
      (\<forall>k < piece_count l. 0 < file_overlap l k fi \<longrightarrow> P k)"
    by (auto simp: of_bool_def)
  then show ?thesis using split file_range_iff [OF wf ok] by auto
qed

lemma size_of_piece_in_file_overlap:
  assumes "wf_lengths l" "file_ok l fi"
  shows "unat (size_of_piece_in_file l p (fi_offset_in_torrent fi) (fi_len fi)) = file_overlap l (unat p) fi"
proof -
  have "unat (fi_offset_in_torrent fi) + unat (fi_len fi) < 2 ^ 64"
    using assms(2) unat_bound64 [of "ln_total_length l"] by (simp add: file_ok_def file_end_def)
  then show ?thesis by (simp add: size_of_piece_in_file_nat file_end_def)
qed

lemma sum_upt_where:
  fixes f :: "nat \<Rightarrow> nat"
  assumes "\<And>k. in_range r k \<Longrightarrow> k < n" "\<And>k. 0 < f k \<Longrightarrow> in_range r k"
  shows "(\<Sum>k \<in> {fst r..<snd r}. of_bool (P k) * f k) = (\<Sum>k<n. of_bool (P k) * f k)"
proof (rule sum.mono_neutral_left)
  show "\<forall>i \<in> {..<n} - {fst r..<snd r}. of_bool (P i) * f i = 0"
    using assms(2) by (metis Diff_iff atLeastLessThan_iff gr0I mult_0_right)
qed (use assms(1) in auto)

lemma file_have_bytes_exact:
  assumes wf: "wf_lengths l" and ok: "file_ok l fi" and hv: "piece_count l \<le> length hv"
  shows "\<exists>v. file_have_bytes l hv fi = Inr v \<and> unat v = file_bytes_where l (\<lambda>k. hv ! k) fi"
proof -
  let ?r = "piece_range_usize fi"
  let ?g = "\<lambda>k. of_bool (hv ! k) * file_overlap l k fi"
  note R = file_range_iff [OF wf ok]
  have total: "sum ?g {fst ?r..<snd ?r} = file_bytes_where l (\<lambda>k. hv ! k) fi"
    unfolding file_bytes_where_def using R by (intro sum_upt_where) blast+
  have bound: "sum_list (map ?g xs) < 18446744073709551616" if "[fst ?r..<snd ?r] = xs @ ys" for xs ys
  proof -
    have "sum_list (map ?g xs) \<le> sum_list (map ?g [fst ?r..<snd ?r])" unfolding that by simp
    also have "\<dots> = file_bytes_where l (\<lambda>k. hv ! k) fi" using total by (simp add: sum_list_distinct_conv_sum_set)
    also have "\<dots> \<le> unat (fi_len fi)" by (rule file_bytes_where_le [OF wf ok])
    finally show ?thesis using unat_bound64 [of "fi_len fi"] by linarith
  qed
  let ?f = "\<lambda>acc p. rbind (get_bit_checked hv p) (\<lambda>is_have.
      Inr (if is_have then acc + size_of_piece_in_file l (of_nat p) (fi_offset_in_torrent fi) (fi_len fi) else acc))"
  have "\<exists>v. rfold ?f 0 [fst ?r..<snd ?r] = Inr v \<and> unat v = sum_list (map ?g [fst ?r..<snd ?r])"
  proof (rule rfold_invariant)
    fix "done" p todo and acc :: u64
    assume split: "[fst ?r..<snd ?r] = done @ p # todo" and acc: "unat acc = sum_list (map ?g done)"
    have "p \<in> set [fst ?r..<snd ?r]" unfolding split by simp
    then have p: "p < piece_count l" using R(2) by simp
    then have pu: "unat (of_nat p :: u32) = p" using piece_count_bounds(2) [OF wf] by (simp add: unat_of_nat)
    have "sum_list (map ?g (done @ [p])) < 18446744073709551616" using bound [of "done @ [p]" todo] split by simp
    then have "hv ! p \<Longrightarrow> unat (acc + size_of_piece_in_file l (of_nat p) (fi_offset_in_torrent fi) (fi_len fi))
        = sum_list (map ?g done) + file_overlap l p fi"
      using acc by (simp add: unat_word_ariths(1) size_of_piece_in_file_overlap [OF wf ok] pu)
    then show "\<exists>acc'. ?f acc p = Inr acc' \<and> unat acc' = sum_list (map ?g (done @ [p]))"
      using p hv acc by (auto simp: get_bit_checked_def)
  qed simp
  then show ?thesis
    using total by (simp add: file_have_bytes_def piece_range_usize_def sum_list_distinct_conv_sum_set)
qed

lemma recalculate_exact:
  assumes wf: "wf_lengths l" and hv: "piece_count l \<le> length hv" and ok: "\<forall>fi \<in> set fis. file_ok l fi"
  shows "\<exists>slots. recalculate_per_file_bytes l hv (replicate (length fis) 0) fis = Inr slots
    \<and> map unat slots = map (file_bytes_where l (\<lambda>k. hv ! k)) fis"
  using ok
proof (induction fis)
  case (Cons fi fis)
  then show ?case using file_have_bytes_exact [OF wf _ hv, of fi] by fastforce
qed simp

section \<open>Creation\<close>

definition files_exact :: "file_info list \<Rightarrow> chunk_tracker \<Rightarrow> bool" where
  "files_exact fis ct \<longleftrightarrow>
     map unat (ct_per_file_bytes ct) = map (file_bytes_where (ct_lengths ct) (\<lambda>k. ct_have ct ! k)) fis"

lemma ct_new_spec:
  assumes wf: "wf_lengths l" and hv: "length hv = 8 * piece_bitfield_bytes l"
    and sel: "length sel = 8 * piece_bitfield_bytes l" and ok: "\<forall>fi \<in> set fis. file_ok l fi"
  shows "\<exists>ct. ct_new hv sel l fis = Inr ct \<and> ct_inv ct \<and> files_exact fis ct
    \<and> ct_lengths ct = l \<and> ct_have ct = hv \<and> ct_selected ct = sel
    \<and> (\<forall>k < piece_count l. ct_queue_pieces ct ! k \<longleftrightarrow> sel ! k \<and> \<not> hv ! k)
    \<and> (\<forall>k < piece_count l. \<forall>x. in_range (range_of l k) x \<longrightarrow> ct_chunk_status ct ! x = hv ! k)"
proof -
  have n: "piece_count l \<le> length hv" "piece_count l \<le> length sel" using piece_bits [OF wf] hv sel by simp_all
  obtain bs where bs: "compute_chunk_have_status l hv = Inr bs" "length bs = 8 * chunk_bitfield_bytes l"
    "\<forall>k < piece_count l. \<forall>x. fst (range_of l k) \<le> x \<and> x < snd (range_of l k) \<longrightarrow> bs ! x = hv ! k"
    using compute_chunk_have_status_exact [OF wf n(1)] by blast
  obtain h where h: "calc_hns l hv sel = Inr h" "hns_exact l hv sel h" using calc_hns_exact [OF wf n] by blast
  obtain slots where slots: "recalculate_per_file_bytes l hv (replicate (length fis) 0) fis = Inr slots"
    "map unat slots = map (file_bytes_where l (\<lambda>k. hv ! k)) fis"
    using recalculate_exact [OF wf n(1) ok] by blast
  let ?ct = "\<lparr> ct_queue_pieces = compute_queued_pieces_unchecked hv sel, ct_chunk_status = bs, ct_have = hv,
      ct_selected = sel, ct_per_file_bytes = slots, ct_lengths = l, ct_hns = h \<rparr>"
  have "ct_new hv sel l fis = Inr ?ct"
    using bs(1) h(1) slots(1) hv sel by (simp add: ct_new_def compute_queued_pieces_def)
  moreover have "have_complete ?ct" using bs(3) by (simp add: have_complete_def range_ones_def)
  then have "ct_inv ?ct"
    using wf hv sel bs(2) h(2) by (simp add: ct_inv_def ct_shape_def Let_def compute_queued_pieces_unchecked_def)
  ultimately show ?thesis
    using slots(2) n bs(3) by (auto simp: files_exact_def compute_queued_pieces_unchecked_def)
qed

section \<open>Reachable states\<close>

datatype ct_op =
    OpReserve valid_piece_index
  | OpBroken valid_piece_index
  | OpChunk piece
  | OpDownloaded valid_piece_index
  | OpFileHave valid_piece_index nat
  | OpOnlyFiles "nat set"

definition ct_exec :: "file_info list \<Rightarrow> ct_op \<Rightarrow> chunk_tracker \<Rightarrow> (chunk_tracker, ct_error) rust" where
  "ct_exec fis op ct =
     (case op of
        OpReserve i \<Rightarrow> reserve_needed_piece i ct
      | OpBroken i \<Rightarrow> mark_piece_broken_if_not_have i ct
      | OpChunk p \<Rightarrow> rbind (mark_chunk_downloaded p ct) (\<lambda>(_, ct). Inr ct)
      | OpDownloaded i \<Rightarrow> mark_piece_downloaded i ct
      | OpFileHave i file_id \<Rightarrow>
          rbind (update_file_have_on_piece_completed i file_id (fis ! file_id) ct) (\<lambda>(_, ct). Inr ct)
      | OpOnlyFiles only \<Rightarrow> rbind (update_only_files fis only ct) (\<lambda>(_, ct). Inr ct))"

text \<open>
  The guards of the callers: piece numbers are validated, a received block is shorter than \<open>2 ^ 32\<close>
  bytes, a piece is marked downloaded only after its last chunk arrived and its hash was checked, and
  file numbers come from the enumeration of the files.
\<close>

definition ct_guard :: "file_info list \<Rightarrow> ct_op \<Rightarrow> chunk_tracker \<Rightarrow> bool" where
  "ct_guard fis op ct =
     (case op of
        OpReserve i \<Rightarrow> valid_index (ct_lengths ct) i
      | OpBroken i \<Rightarrow> valid_index (ct_lengths ct) i
      | OpChunk p \<Rightarrow> pc_len p < 2 ^ 32
      | OpDownloaded i \<Rightarrow> valid_index (ct_lengths ct) i
          \<and> range_ones (ct_chunk_status ct) (range_of (ct_lengths ct) (unat (vpi_get i)))
      | OpFileHave i file_id \<Rightarrow> file_id < length fis
      | OpOnlyFiles only \<Rightarrow> True)"

inductive ct_reachable :: "lengths \<Rightarrow> file_info list \<Rightarrow> chunk_tracker \<Rightarrow> bool" for l fis where
  created: "ct_new hv sel l fis = Inr ct \<Longrightarrow> length hv = 8 * piece_bitfield_bytes l \<Longrightarrow> ct_reachable l fis ct"
| stepped: "ct_reachable l fis ct \<Longrightarrow> ct_guard fis op ct \<Longrightarrow> ct_exec fis op ct = Inr ct' \<Longrightarrow> ct_reachable l fis ct'"

lemma ct_new_lengths: "ct_new hv sel l fis = Inr ct \<Longrightarrow> length sel = length hv"
  by (auto simp: ct_new_def compute_queued_pieces_def split: if_splits)

lemma ct_exec_inv:
  assumes inv: "ct_inv ct" and n: "length (ct_per_file_bytes ct) = length fis" and guard: "ct_guard fis op ct"
  shows "\<exists>ct'. ct_exec fis op ct = Inr ct' \<and> ct_inv ct' \<and> ct_lengths ct' = ct_lengths ct
    \<and> length (ct_per_file_bytes ct') = length fis"
proof (cases op)
  case (OpReserve i)
  then show ?thesis using guard n reserve_needed_piece_inv [OF inv] by (simp add: ct_exec_def ct_guard_def)
next
  case (OpBroken i)
  then show ?thesis using guard n mark_piece_broken_inv [OF inv, of i] by (auto simp: ct_exec_def ct_guard_def)
next
  case (OpChunk p)
  then show ?thesis using guard n mark_chunk_downloaded_inv [OF inv, of p] by (auto simp: ct_exec_def ct_guard_def)
next
  case (OpDownloaded i)
  then show ?thesis using guard n mark_piece_downloaded_inv [OF inv, of i] by (auto simp: ct_exec_def ct_guard_def)
next
  case (OpFileHave i file_id)
  then show ?thesis
    using guard n inv
    by (simp add: ct_exec_def ct_guard_def update_file_have_on_piece_completed_def Let_def
        ct_inv_def ct_shape_def have_complete_def)
next
  case (OpOnlyFiles only)
  then show ?thesis using n update_only_files_inv [OF inv, of fis only] by (auto simp: ct_exec_def)
qed

lemma ct_reachable_inv:
  assumes "ct_reachable l fis ct" and wf: "wf_lengths l" and ok: "\<forall>fi \<in> set fis. file_ok l fi"
  shows "ct_inv ct \<and> ct_lengths ct = l \<and> length (ct_per_file_bytes ct) = length fis"
  using assms(1)
proof induction
  case (created hv sel ct)
  then show ?case
    using ct_new_spec [OF wf created(2) _ ok, of sel] ct_new_lengths [OF created(1)]
    by (auto simp: files_exact_def dest: map_eq_imp_length_eq)
next
  case (stepped ct op ct')
  then show ?case using ct_exec_inv [of ct fis op] by auto
qed

text \<open>A torrent of two pieces and one file, with nothing verified and everything selected.\<close>

definition sample_file :: file_info where
  "sample_file = \<lparr> fi_relative_filename = [97], fi_offset_in_torrent = 0, fi_piece_range = (0, 2),
     fi_attrs = \<lparr> fa_symlink = False, fa_hidden = False, fa_padding = False, fa_executable = False \<rparr>,
     fi_len = 40000 \<rparr>"

lemma sample_file_ok [simp]: "file_ok sample_lengths sample_file"
  by (simp add: file_ok_def sample_file_def sample_lengths_def file_end_def iter_pieces_within_offset_def
      div_ceil_def Let_def)

lemma sample_counts:
  "8 * piece_bitfield_bytes sample_lengths = 8" "piece_count sample_lengths = 2"
  "range_of sample_lengths 0 = (0, 2)" "range_of sample_lengths (Suc 0) = (2, 3)"
  by (simp_all add: piece_bitfield_bytes_def total_pieces_def piece_count_def range_of_def chunk_range_def
      chunks_per_piece_def sample_lengths_def div_ceil_def nceil_def CHUNK_SIZE_def Let_def)

lemma sample_tracker:
  "\<exists>ct. ct_new (replicate 8 False) (replicate 8 True) sample_lengths [sample_file] = Inr ct
     \<and> ct_reachable sample_lengths [sample_file] ct \<and> ct_lengths ct = sample_lengths
     \<and> ct_have ct = replicate 8 False \<and> ct_selected ct = replicate 8 True
     \<and> length (ct_chunk_status ct) = 8 \<and> (\<forall>x < 3. \<not> ct_chunk_status ct ! x)"
proof -
  obtain ct where ct: "ct_new (replicate 8 False) (replicate 8 True) sample_lengths [sample_file] = Inr ct"
    "ct_inv ct" "ct_lengths ct = sample_lengths" "ct_have ct = replicate 8 False" "ct_selected ct = replicate 8 True"
    "\<forall>k < 2. \<forall>x. in_range (range_of sample_lengths k) x \<longrightarrow> ct_chunk_status ct ! x = replicate 8 False ! k"
    using ct_new_spec [of sample_lengths "replicate 8 False" "replicate 8 True" "[sample_file]"]
    by (auto simp: sample_counts)
  have "length (ct_chunk_status ct) = 8"
    using ct_invD(5) [OF ct(2)] ct(3)
    by (simp add: chunk_bitfield_bytes_def total_chunks_def chunks_per_piece_def last_piece_id_def
        default_chunks_per_piece_def sample_lengths_def div_ceil_def CHUNK_SIZE_def)
  moreover have "\<not> ct_chunk_status ct ! x" if "x < 3" for x
    using that ct(6) [rule_format, of 0 x] ct(6) [rule_format, of 1 x] by (cases "x < 2") (auto simp: sample_counts)
  moreover have "ct_reachable sample_lengths [sample_file] ct"
    using ct(1) by (rule ct_reachable.created) (simp add: sample_counts)
  ultimately show ?thesis using ct by blast
qed



text \<open>
  C25: the tracker reports the torrent as finished exactly when every selected piece is verified, and
  what it reports as remaining is the number of bytes of the selected pieces that are not.
\<close>
theorem finished_iff_selected_verified:
  assumes "wf_lengths l" and "\<forall>fi \<in> set fis. file_ok l fi" and "ct_reachable l fis ct"
  shows "(is_finished ct \<longleftrightarrow> (\<forall>k < piece_count l. ct_selected ct ! k \<longrightarrow> ct_have ct ! k))
    \<and> unat (get_remaining_bytes ct) = bytes_where l (\<lambda>k. ct_selected ct ! k \<and> \<not> ct_have ct ! k) (piece_count l)
    \<and> unat (hns_progress (ct_hns ct)) = bytes_where l (\<lambda>k. ct_selected ct ! k \<and> ct_have ct ! k) (piece_count l)"
proof -
  have inv: "ct_inv ct" and l: "ct_lengths ct = l" using ct_reachable_inv [OF assms(3,1,2)] by simp_all
  have H: "hns_exact l (ct_have ct) (ct_selected ct) (ct_hns ct)" using ct_invD(6) [OF inv] l by simp
  let ?sel = "ct_selected ct" and ?have = "ct_have ct" and ?n = "piece_count l"
  have "is_finished ct \<longleftrightarrow> unat (hns_needed_bytes (ct_hns ct)) = 0"
    by (simp add: is_finished_def hns_finished_def unat_eq_0)
  moreover have split: "bytes_where l (\<lambda>k. ?sel ! k) ?n =
      bytes_where l (\<lambda>k. ?sel ! k \<and> ?have ! k) ?n + bytes_where l (\<lambda>k. ?sel ! k \<and> \<not> ?have ! k) ?n"
    unfolding bytes_where_def sum.distrib [symmetric] by (intro sum.cong) auto
  moreover have "unat (hns_progress (ct_hns ct)) =
      unat (hns_selected_bytes (ct_hns ct)) - unat (hns_needed_bytes (ct_hns ct))"
    unfolding hns_progress_def using H split by (intro unat_sub) (simp add: hns_exact_def word_le_nat_alt)
  ultimately show ?thesis
    using H bytes_where_eq_0 [OF assms(1)] by (simp add: hns_exact_def get_remaining_bytes_def)
qed

lemma finished_iff_selected_verified_witness:
  "\<exists>ct. ct_new (replicate 8 False) (replicate 8 True) sample_lengths [sample_file] = Inr ct
     \<and> \<not> is_finished ct \<and> unat (get_remaining_bytes ct) = 40000"
proof -
  obtain ct where ct: "ct_new (replicate 8 False) (replicate 8 True) sample_lengths [sample_file] = Inr ct"
    "ct_reachable sample_lengths [sample_file] ct" "ct_have ct = replicate 8 False" "ct_selected ct = replicate 8 True"
    using sample_tracker by blast
  have "bytes_where sample_lengths (\<lambda>k. replicate 8 True ! k \<and> \<not> replicate 8 False ! k) 2 = 40000"
  proof -
    have "{..<2 :: nat} = {0, 1}" by auto
    then show ?thesis by (simp add: bytes_where_def piece_bytes_def sample_lengths_def)
  qed
  moreover have "\<exists>k. k < (2 :: nat)" by (rule exI [of _ 0]) simp
  ultimately show ?thesis
    using ct finished_iff_selected_verified [of sample_lengths "[sample_file]" ct] by (auto simp: sample_counts)
qed

text \<open>
  C26: marking a received block. A block that is not a chunk of the torrent changes nothing and is
  reported as such; a block of a piece whose chunks are all there changes nothing; otherwise exactly the
  bit of the chunk is set, and the piece is reported complete exactly when it was the last one missing.
\<close>
theorem mark_chunk_downloaded_exact:
  assumes "wf_lengths l" and "\<forall>fi \<in> set fis. file_ok l fi" and "ct_reachable l fis ct" and "pc_len p < 2 ^ 32"
  shows "mark_chunk_downloaded p ct =
    (case block_bit ct p of
       None \<Rightarrow> Inr (None, ct)
     | Some x \<Rightarrow>
         let r = range_of l (unat (pc_index p)); bs' = (ct_chunk_status ct)[x := True]
         in if range_ones (ct_chunk_status ct) r then Inr (Some PreviouslyCompleted, ct)
            else Inr (Some (if range_ones bs' r then Completed else NotCompleted),
                      ct\<lparr> ct_chunk_status := bs' \<rparr>))"
proof -
  have inv: "ct_inv ct" and l: "ct_lengths ct = l" using ct_reachable_inv [OF assms(3,1,2)] by simp_all
  have "ct_shape ct" using inv by (simp add: ct_inv_def)
  from mark_chunk_downloaded_spec [OF this assms(4)] show ?thesis unfolding l .
qed

lemma mark_chunk_downloaded_exact_witness:
  "\<exists>ct ct'. ct_new (replicate 8 False) (replicate 8 True) sample_lengths [sample_file] = Inr ct
     \<and> mark_chunk_downloaded (pc_from_data 1 0 (replicate 7232 0)) ct = Inr (Some Completed, ct')"
proof -
  let ?p = "pc_from_data 1 0 (replicate 7232 0)"
  obtain ct where ct: "ct_new (replicate 8 False) (replicate 8 True) sample_lengths [sample_file] = Inr ct"
    "ct_reachable sample_lengths [sample_file] ct" "ct_lengths ct = sample_lengths"
    "length (ct_chunk_status ct) = 8" "\<forall>x < 3. \<not> ct_chunk_status ct ! x"
    using sample_tracker by blast
  have p: "pc_len ?p = 7232" "pc_index ?p = 1" "pc_begin ?p = 0" by (simp_all add: pc_len_def pc_from_data_def)
  have "block_bit ct ?p = Some 2"
    by (simp add: block_bit_def p ct(3) chunk_info_from_received_data_def chunk_size_def chunk_offset_in_piece_def
        chunks_per_piece_def piece_length_def validate_piece_index_def sample_lengths_def div_ceil_def
        last_element_size_def CHUNK_SIZE_def Let_def)
  moreover have "range_ones bs (2, 3) \<longleftrightarrow> bs ! 2" for bs
  proof -
    have "{2..<3 :: nat} = {2}" by auto
    then show ?thesis by (simp add: range_ones_def)
  qed
  ultimately show ?thesis
    using ct mark_chunk_downloaded_exact [of sample_lengths "[sample_file]" ct ?p]
    by (auto simp: p sample_counts Let_def)
qed

text \<open>
  C27: changing the selected files. Afterwards the selected pieces are those of the chosen files that are
  not padding; the queue holds the pieces it held before and the newly selected ones that are not
  verified, restricted to pieces that are selected or verified; verified pieces and the counters per
  file stay.
\<close>
theorem update_only_files_exact:
  assumes "wf_lengths l" and "\<forall>fi \<in> set fis. file_ok l fi" and "ct_reachable l fis ct"
  shows "\<exists>h ct'. update_only_files fis only ct = Inr (h, ct') \<and> ct_hns ct' = h \<and> ct_have ct' = ct_have ct
    \<and> ct_per_file_bytes ct' = ct_per_file_bytes ct
    \<and> (\<forall>k < piece_count l.
         ct_selected ct' ! k = wanted_piece l (\<lambda>i. i \<in> only) fis k
         \<and> ct_queue_pieces ct' ! k =
             ((ct_have ct ! k \<or> ct_selected ct' ! k)
              \<and> (ct_queue_pieces ct ! k \<or> ct_selected ct' ! k \<and> \<not> ct_selected ct ! k \<and> \<not> ct_have ct ! k)))"
  using ct_reachable_inv [OF assms(3,1,2)] update_only_files_spec [of ct fis only]
  by (auto simp: ct_inv_def)

lemma update_only_files_exact_witness:
  "\<exists>ct h ct'. ct_new (replicate 8 False) (replicate 8 True) sample_lengths [sample_file] = Inr ct
     \<and> update_only_files [sample_file] {} ct = Inr (h, ct') \<and> \<not> ct_selected ct' ! 0 \<and> \<not> ct_queue_pieces ct' ! 0"
proof -
  obtain ct where ct: "ct_new (replicate 8 False) (replicate 8 True) sample_lengths [sample_file] = Inr ct"
    "ct_reachable sample_lengths [sample_file] ct" "ct_have ct = replicate 8 False"
    using sample_tracker by blast
  then show ?thesis
    using update_only_files_exact [of sample_lengths "[sample_file]" ct "{}"]
    by (force simp: sample_counts wanted_piece_def)
qed

end
