(* ===== verification/Chunk_Tracker_Queue.thy ===== *)
theory Chunk_Tracker_Queue
  imports Chunk_Tracker_Files
begin

text \<open>
  The pieces that the chunk tracker offers for download, and the update of the counters per file when a
  piece is completed (\<^verbatim>\<open>chunk_tracker.rs\<close> and \<^verbatim>\<open>on_piece_completed\<close> of \<^verbatim>\<open>torrent_state/live/mod.rs\<close>).
\<close>

section \<open>The queue\<close>

abbreviation vpi_of :: "nat \<Rightarrow> valid_piece_index" where
  "vpi_of k \<equiv> ValidPieceIndex (of_nat k)"

lemma queued_of_file_exact:
  assumes shape: "ct_shape ct" and ok: "file_ok (ct_lengths ct) f"
  shows "\<exists>ids. queued_of_file ct f = Inr ids
    \<and> set ids = vpi_of ` {k. in_range (piece_range_usize f) k \<and> ct_queue_pieces ct ! k}"
proof -
  let ?l = "ct_lengths ct" and ?q = "ct_queue_pieces ct" and ?ps = "fi_iter_piece_priorities f"
  note D = ct_shapeD [OF shape]
  have mem: "set ?ps = {k. in_range (piece_range_usize f) k}"
    unfolding set_fi_iter_piece_priorities by auto
  let ?f = "\<lambda>acc i. rbind (get_bit_checked ?q i) (\<lambda>q.
         Inr (if q \<and> i < 2 ^ 32
              then (case validate_piece_index ?l (of_nat i) of
                      None \<Rightarrow> acc | Some v \<Rightarrow> acc @ [v])
              else acc))"
  have "\<exists>ids. rfold ?f [] ?ps = Inr ids \<and> set ids = vpi_of ` {k \<in> set ?ps. ?q ! k}"
  proof (rule rfold_invariant)
    fix "done" i todo and acc :: "valid_piece_index list"
    assume split: "?ps = done @ i # todo" and acc: "set acc = vpi_of ` {k \<in> set done. ?q ! k}"
    have "i \<in> set ?ps" unfolding split by simp
    then have i: "i < piece_count ?l" using file_range_iff(2) [OF D(1) ok] mem by blast
    have "i < length ?q" using i piece_bits [OF D(1)] D(2) by simp
    moreover have "i < 2 ^ 32" using i piece_count_bounds(2) [OF D(1)] by simp
    moreover have "validate_piece_index ?l (of_nat i) = Some (vpi_of i)"
      using index_of_nat(1) [OF D(1) i] by (simp add: validate_iff)
    moreover have "{k \<in> set (done @ [i]). ?q ! k} =
        (if ?q ! i then insert i {k \<in> set done. ?q ! k} else {k \<in> set done. ?q ! k})" by auto
    ultimately show "\<exists>acc'. ?f acc i = Inr acc' \<and> set acc' = vpi_of ` {k \<in> set (done @ [i]). ?q ! k}"
      using acc by (simp add: get_bit_checked_def)
  qed simp
  then show ?thesis using mem by (simp add: queued_of_file_def)
qed

lemma iter_queued_pieces_spec:
  assumes shape: "ct_shape ct" and ok: "\<forall>fi \<in> set fis. file_ok (ct_lengths ct) fi"
    and n: "length (ct_per_file_bytes ct) = length fis"
  shows "\<exists>ids. iter_queued_pieces ct prio fis = Inr ids
    \<and> set ids = vpi_of ` {k. ct_queue_pieces ct ! k \<and>
        (\<exists>p \<in> set prio. p < length fis \<and> in_range (piece_range_usize (fis ! p)) k
           \<and> ct_per_file_bytes ct ! p \<noteq> fi_len (fis ! p))}"
  unfolding iter_queued_pieces_def
proof (rule rfold_invariant)
  fix "done" p todo and acc :: "valid_piece_index list"
  assume acc: "set acc = vpi_of ` {k. ct_queue_pieces ct ! k \<and>
        (\<exists>p \<in> set done. p < length fis \<and> in_range (piece_range_usize (fis ! p)) k
           \<and> ct_per_file_bytes ct ! p \<noteq> fi_len (fis ! p))}"
  show "\<exists>acc'. (if p < length fis
       then if p < length (ct_per_file_bytes ct)
            then if ct_per_file_bytes ct ! p \<noteq> fi_len (fis ! p)
                 then rbind (queued_of_file ct (fis ! p)) (\<lambda>ids. Inr (acc @ ids))
                 else Inr acc
            else Inl Panic
       else Inr acc) = Inr acc' \<and> set acc' = vpi_of ` {k. ct_queue_pieces ct ! k \<and>
        (\<exists>p \<in> set (done @ [p]). p < length fis \<and> in_range (piece_range_usize (fis ! p)) k
           \<and> ct_per_file_bytes ct ! p \<noteq> fi_len (fis ! p))}"
  proof (cases "p < length fis \<and> ct_per_file_bytes ct ! p \<noteq> fi_len (fis ! p)")
    case True
    then obtain ids where "queued_of_file ct (fis ! p) = Inr ids"
      "set ids = vpi_of ` {k. in_range (piece_range_usize (fis ! p)) k \<and> ct_queue_pieces ct ! k}"
      using queued_of_file_exact [OF shape] ok by (meson nth_mem)
    then show ?thesis using True acc n by (auto simp: image_iff)
  next
    case False
    then show ?thesis using acc n by auto
  qed
qed simp

lemma is_file_finished_iff:
  assumes shape: "ct_shape ct" and ok: "file_ok (ct_lengths ct) fi"
  shows "is_file_finished ct fi \<longleftrightarrow> (\<forall>k. in_range (piece_range_usize fi) k \<longrightarrow> ct_have ct ! k)"
proof (cases "fst (piece_range_usize fi) < snd (piece_range_usize fi)")
  case True
  let ?r = "piece_range_usize fi"
  note D = ct_shapeD [OF shape]
  have "snd ?r - 1 < piece_count (ct_lengths ct)" using file_range_iff(2) [OF D(1) ok, of "snd ?r - 1"] True by simp
  then have "snd ?r \<le> length (ct_have ct)" using piece_bits [OF D(1)] D(3) by simp
  then show ?thesis
    using get_range_all [of ?r "ct_have ct"] True by (auto simp: is_file_finished_def range_ones_def)
next
  case False
  then show ?thesis by (auto simp: is_file_finished_def get_range_def all_ones_def)
qed



section \<open>Completing a piece\<close>

text \<open>
  The loop of \<^verbatim>\<open>TorrentStateLive::on_piece_completed\<close> (\<^verbatim>\<open>torrent_state/live/mod.rs\<close>) over the files: it
  skips files until one contains the piece and stops at the first file that does not.
\<close>

definition range_contains :: "u32 \<times> u32 \<Rightarrow> u32 \<Rightarrow> bool" where
  "range_contains r i \<longleftrightarrow> fst r \<le> i \<and> i < snd r"

definition completed_files :: "valid_piece_index \<Rightarrow> file_info list \<Rightarrow> (nat \<times> file_info) list" where
  "completed_files i fis =
     takeWhile (\<lambda>e. range_contains (fi_piece_range (snd e)) (vpi_get i))
       (dropWhile (\<lambda>e. \<not> range_contains (fi_piece_range (snd e)) (vpi_get i)) (List.enumerate 0 fis))"

definition update_completed_files ::
  "valid_piece_index \<Rightarrow> file_info list \<Rightarrow> chunk_tracker \<Rightarrow> (chunk_tracker, ct_error) rust" where
  "update_completed_files i fis ct =
     rfold (\<lambda>ct (idx, fi). rbind (update_file_have_on_piece_completed i idx fi ct) (\<lambda>(_, ct). Inr ct))
       ct (completed_files i fis)"

text \<open>
  The files as the metadata lays them out: one after the other.
\<close>

definition files_layout :: "file_info list \<Rightarrow> bool" where
  "files_layout fis \<longleftrightarrow>
     (\<forall>i. Suc i < length fis \<longrightarrow> unat (fi_offset_in_torrent (fis ! Suc i)) = file_end (fis ! i))"

lemma range_contains_iff:
  "range_contains (fi_piece_range fi) (vpi_get i) \<longleftrightarrow> in_range (piece_range_usize fi) (unat (vpi_get i))"
  by (simp add: range_contains_def piece_range_usize_def word_le_nat_alt word_less_nat_alt)

lemma layout_mono:
  assumes lay: "files_layout fis" and "i \<le> j" "j < length fis"
  shows "unat (fi_offset_in_torrent (fis ! i)) \<le> unat (fi_offset_in_torrent (fis ! j))"
  using assms(2,3)
proof (induction j rule: dec_induct)
  case (step j)
  then have "unat (fi_offset_in_torrent (fis ! Suc j)) = file_end (fis ! j)" using lay by (simp add: files_layout_def)
  then show ?case using step.IH step.prems by (simp add: file_end_def)
qed simp

lemma layout_end:
  assumes lay: "files_layout fis" and "i < j" "j < length fis"
  shows "file_end (fis ! i) \<le> unat (fi_offset_in_torrent (fis ! j))"
proof -
  have "unat (fi_offset_in_torrent (fis ! Suc i)) = file_end (fis ! i)" using assms by (simp add: files_layout_def)
  then show ?thesis using layout_mono [OF lay, of "Suc i" j] assms(2,3) by simp
qed

text \<open>Among files that are not empty, those that contain a piece are adjacent.\<close>

lemma contains_convex:
  assumes wf: "wf_lengths l" and ok: "\<forall>fi \<in> set fis. file_ok l fi" and lay: "files_layout fis"
    and nonempty: "\<forall>fi \<in> set fis. fi_len fi \<noteq> 0"
    and abc: "a \<le> b" "b \<le> c" "c < length fis"
    and "in_range (piece_range_usize (fis ! a)) k" "in_range (piece_range_usize (fis ! c)) k"
  shows "in_range (piece_range_usize (fis ! b)) k"
proof (cases "a = b \<or> b = c")
  case True
  then show ?thesis using assms by auto
next
  case False
  let ?P = "unat (ln_piece_length l)"
  have ab: "a < b" "b < c" using False abc by simp_all
  have ok': "file_ok l (fis ! a)" "file_ok l (fis ! b)" "file_ok l (fis ! c)" using ok abc by simp_all
  note R = file_range_iff(1) [OF wf]
  have a: "0 < file_overlap l k (fis ! a)" and c: "0 < file_overlap l k (fis ! c)"
    using assms(8,9) R [OF ok'(1)] R [OF ok'(3)] by simp_all
  have e: "file_end (fis ! a) \<le> unat (fi_offset_in_torrent (fis ! b))"
    "file_end (fis ! b) \<le> unat (fi_offset_in_torrent (fis ! c))"
    using layout_end [OF lay] ab abc by simp_all
  have "fi_len (fis ! b) \<noteq> 0" using nonempty abc by simp
  then have "unat (fi_offset_in_torrent (fis ! b)) < file_end (fis ! b)" by (simp add: file_end_def unat_gt_0)
  moreover have "k * ?P < file_end (fis ! a)" using a unfolding piece_overlap_def by linarith
  moreover have "unat (fi_offset_in_torrent (fis ! c)) < Suc k * ?P" using c unfolding piece_overlap_def by linarith
  ultimately have "0 < min (file_end (fis ! b)) (Suc k * ?P) - max (unat (fi_offset_in_torrent (fis ! b))) (k * ?P)"
    using e by linarith
  then have "0 < file_overlap l k (fis ! b)" by (simp only: piece_overlap_def)
  then show ?thesis using R [OF ok'(2)] by simp
qed

lemma take_drop_while_convex:
  assumes convex: "\<And>as x bs z cs w ds. xs = as @ x # bs @ z # cs @ w # ds \<Longrightarrow> P x \<Longrightarrow> P w \<Longrightarrow> P z"
  shows "takeWhile P (dropWhile (\<lambda>x. \<not> P x) xs) = filter P xs"
proof -
  define as ys where "as = takeWhile (\<lambda>x. \<not> P x) xs" and ys: "ys = dropWhile (\<lambda>x. \<not> P x) xs"
  define t d where "t = takeWhile P ys" and d: "d = dropWhile P ys"
  have "xs = as @ ys" "ys = t @ d" by (simp_all add: as_def ys t_def d)
  then have xs: "xs = as @ t @ d" by simp
  have Pas: "\<not> P x" if "x \<in> set as" for x using that by (auto simp: as_def dest: set_takeWhileD)
  have Pt: "P x" if "x \<in> set t" for x using that by (auto simp: t_def dest: set_takeWhileD)
  have "\<not> P w" if w: "w \<in> set d" for w
  proof
    assume Pw: "P w"
    obtain z d' where d': "d = z # d'" using w by (cases d) auto
    then have z: "\<not> P z" using hd_dropWhile [of P ys] d by simp
    then have "w \<in> set d'" using w d' Pw by auto
    then obtain cs ds where w': "d' = cs @ w # ds" by (metis split_list)
    have "ys \<noteq> []" using d d' by auto
    then have "P (hd ys)" using hd_dropWhile [of "\<lambda>x. \<not> P x" xs] ys by simp
    then obtain x t' where t': "t = x # t'" and Px: "P x" using \<open>ys \<noteq> []\<close> t_def by (cases ys) auto
    have "xs = as @ x # t' @ z # cs @ w # ds" by (simp add: xs t' d' w')
    from convex [OF this Px Pw] z show False by simp
  qed
  then have "filter P d = []" by (simp add: filter_empty_conv)
  moreover have "filter P as = []" using Pas by (simp add: filter_empty_conv)
  moreover have "filter P t = t" using Pt by (simp add: filter_id_conv)
  ultimately have "filter P xs = t" by (simp add: xs)
  then show ?thesis by (simp add: t_def ys)
qed

lemma completed_files_eq:
  assumes "wf_lengths l" and "\<forall>fi \<in> set fis. file_ok l fi" and "files_layout fis"
    and "\<forall>fi \<in> set fis. fi_len fi \<noteq> 0"
  shows "completed_files i fis =
    filter (\<lambda>e. in_range (piece_range_usize (snd e)) (unat (vpi_get i))) (List.enumerate 0 fis)"
  unfolding completed_files_def range_contains_iff
proof (rule take_drop_while_convex)
  fix as x bs z cs w ds
  assume split: "List.enumerate 0 fis = as @ x # bs @ z # cs @ w # ds"
    and x: "in_range (piece_range_usize (snd x)) (unat (vpi_get i))"
    and w: "in_range (piece_range_usize (snd w)) (unat (vpi_get i))"
  let ?a = "length as" and ?b = "length as + Suc (length bs)"
  let ?c = "?b + Suc (length cs)"
  have c: "?c < length fis" using arg_cong [OF split, of length] by simp
  have nth: "snd (List.enumerate 0 fis ! j) = fis ! j" if "j < length fis" for j
    using that by (simp add: nth_enumerate_eq)
  have "snd x = fis ! ?a" "snd z = fis ! ?b" "snd w = fis ! ?c"
    using nth [of ?a] nth [of ?b] nth [of ?c] c unfolding split by (simp_all add: nth_append)
  then show "in_range (piece_range_usize (snd z)) (unat (vpi_get i))"
    using contains_convex [OF assms, of ?a ?b ?c "unat (vpi_get i)"] x w c by simp
qed

lemma file_bytes_where_insert:
  assumes "k < piece_count l" "\<not> P k" "\<And>j. j < piece_count l \<Longrightarrow> Q j \<longleftrightarrow> P j \<or> j = k"
  shows "file_bytes_where l Q fi = file_bytes_where l P fi + file_overlap l k fi"
proof -
  have "file_bytes_where l Q fi =
      (\<Sum>j < piece_count l. of_bool (P j) * file_overlap l j fi + of_bool (j = k) * file_overlap l j fi)"
    unfolding file_bytes_where_def using assms by (intro sum.cong) auto
  also have "\<dots> = file_bytes_where l P fi + (\<Sum>j < piece_count l. of_bool (j = k) * file_overlap l j fi)"
    by (simp add: file_bytes_where_def sum.distrib)
  also have "(\<Sum>j < piece_count l. of_bool (j = k) * file_overlap l j fi) = file_overlap l k fi"
    using assms(1) by (simp add: of_bool_def if_distrib [of "\<lambda>x. x * _"] sum.delta cong: if_cong)
  finally show ?thesis .
qed

text \<open>The loop adds the part of the piece to the slot of every visited file.\<close>

lemma update_files_fold:
  assumes "distinct (map fst xs)" and "\<forall>(j, fi) \<in> set xs. j < length (ct_per_file_bytes ct) \<and> fi = fis ! j"
  shows "\<exists>ct'. rfold (\<lambda>ct (idx, fi). rbind (update_file_have_on_piece_completed i idx fi ct) (\<lambda>(_, ct). Inr ct)) ct xs
      = Inr ct' \<and> ct' = ct\<lparr> ct_per_file_bytes := ct_per_file_bytes ct' \<rparr>
    \<and> length (ct_per_file_bytes ct') = length (ct_per_file_bytes ct)
    \<and> (\<forall>j < length (ct_per_file_bytes ct). ct_per_file_bytes ct' ! j = ct_per_file_bytes ct ! j +
        (if j \<in> fst ` set xs
         then size_of_piece_in_file (ct_lengths ct) (vpi_get i) (fi_offset_in_torrent (fis ! j)) (fi_len (fis ! j))
         else 0))"
  using assms
proof (induction xs arbitrary: ct)
  case (Cons x xs)
  obtain j fi where x: "x = (j, fi)" by (cases x)
  let ?ct1 = "ct\<lparr> ct_per_file_bytes := (ct_per_file_bytes ct)[j := ct_per_file_bytes ct ! j +
      size_of_piece_in_file (ct_lengths ct) (vpi_get i) (fi_offset_in_torrent fi) (fi_len fi)] \<rparr>"
  have step: "\<exists>r. update_file_have_on_piece_completed i j fi ct = Inr (r, ?ct1)"
    using Cons.prems(2) x by (simp add: update_file_have_on_piece_completed_def Let_def)
  have "\<forall>(j, fi) \<in> set xs. j < length (ct_per_file_bytes ?ct1) \<and> fi = fis ! j" using Cons.prems(2) by auto
  from Cons.IH [OF _ this] Cons.prems(1) obtain ct' where ct':
    "rfold (\<lambda>ct (idx, fi). rbind (update_file_have_on_piece_completed i idx fi ct) (\<lambda>(_, ct). Inr ct)) ?ct1 xs = Inr ct'"
    "ct' = ?ct1\<lparr> ct_per_file_bytes := ct_per_file_bytes ct' \<rparr>"
    "length (ct_per_file_bytes ct') = length (ct_per_file_bytes ct)"
    "\<forall>m < length (ct_per_file_bytes ct). ct_per_file_bytes ct' ! m = ct_per_file_bytes ?ct1 ! m +
        (if m \<in> fst ` set xs
         then size_of_piece_in_file (ct_lengths ct) (vpi_get i) (fi_offset_in_torrent (fis ! m)) (fi_len (fis ! m))
         else 0)"
    by auto
  have fresh: "j \<notin> fst ` set xs" "fi = fis ! j" using Cons.prems x by auto
  have "ct' = ct\<lparr> ct_per_file_bytes := ct_per_file_bytes ct' \<rparr>" using ct'(2) by simp
  moreover have "ct_per_file_bytes ct' ! m = ct_per_file_bytes ct ! m +
      (if m \<in> fst ` set (x # xs)
       then size_of_piece_in_file (ct_lengths ct) (vpi_get i) (fi_offset_in_torrent (fis ! m)) (fi_len (fis ! m))
       else 0)" if "m < length (ct_per_file_bytes ct)" for m
    using ct'(4) that fresh by (cases "m = j") (simp_all add: x)
  ultimately show ?case
    using step ct'(1,3) x by (intro exI [of _ ct']) auto
qed simp

lemma enumerate_filter_facts:
  "distinct (map fst (filter Q (List.enumerate 0 fis)))"
  "(j, fi) \<in> set (filter Q (List.enumerate 0 fis)) \<longleftrightarrow> j < length fis \<and> fi = fis ! j \<and> Q (j, fi)"
  by (auto simp: distinct_map_filter in_set_enumerate_eq)

text \<open>
  C28: completing a piece. Without empty files, marking a verified piece downloaded and running the loop
  over its files keeps the counters exact: every file holds the number of its bytes in verified pieces.
\<close>
theorem piece_completion_keeps_file_bytes:
  assumes inv: "ct_inv ct" and i: "valid_index (ct_lengths ct) i" and new: "\<not> ct_have ct ! unat (vpi_get i)"
    and ok: "\<forall>fi \<in> set fis. file_ok (ct_lengths ct) fi" and lay: "files_layout fis"
    and nonempty: "\<forall>fi \<in> set fis. fi_len fi \<noteq> 0" and exact: "files_exact fis ct"
  shows "\<exists>ct1 ct2. mark_piece_downloaded i ct = Inr ct1 \<and> update_completed_files i fis ct1 = Inr ct2
    \<and> ct_have ct2 = (ct_have ct)[unat (vpi_get i) := True] \<and> files_exact fis ct2"
proof -
  let ?l = "ct_lengths ct" and ?i = "unat (vpi_get i)" and ?have = "ct_have ct"
  note D = ct_invD [OF inv]
  have shape: "ct_shape ct" using inv by (simp add: ct_inv_def)
  have k: "?i < piece_count ?l" "piece_count ?l \<le> length ?have"
    using valid_bit(1) [OF D(1) i] piece_bits [OF D(1)] D(3) by simp_all
  obtain ct1 where c1: "mark_piece_downloaded i ct = Inr ct1" "ct_have ct1 = ?have[?i := True]"
    "ct_lengths ct1 = ?l" "ct_per_file_bytes ct1 = ct_per_file_bytes ct"
    using mark_piece_downloaded_spec [OF shape D(6) i] by auto
  have n: "length (ct_per_file_bytes ct) = length fis"
    using exact map_eq_imp_length_eq unfolding files_exact_def by blast
  let ?Q = "\<lambda>e :: nat \<times> file_info. in_range (piece_range_usize (snd e)) ?i"
  have cf: "completed_files i fis = filter ?Q (List.enumerate 0 fis)"
    by (rule completed_files_eq [OF D(1) ok lay nonempty])
  have mem: "j \<in> fst ` set (completed_files i fis) \<longleftrightarrow> in_range (piece_range_usize (fis ! j)) ?i" if "j < length fis" for j
  proof -
    have "j \<in> fst ` set (completed_files i fis) \<longleftrightarrow> (\<exists>fi. (j, fi) \<in> set (completed_files i fis))" by force
    then show ?thesis using that unfolding cf enumerate_filter_facts(2) by simp
  qed
  have "distinct (map fst (completed_files i fis))"
    "\<forall>(j, fi) \<in> set (completed_files i fis). j < length (ct_per_file_bytes ct1) \<and> fi = fis ! j"
    unfolding cf using enumerate_filter_facts(2) [of _ _ ?Q fis] n c1(4) by (auto simp: enumerate_filter_facts(1))
  from update_files_fold [OF this, of i] obtain ct2 where c2: "update_completed_files i fis ct1 = Inr ct2"
    "ct2 = ct1\<lparr> ct_per_file_bytes := ct_per_file_bytes ct2 \<rparr>" "length (ct_per_file_bytes ct2) = length fis"
    "\<forall>j < length fis. ct_per_file_bytes ct2 ! j = ct_per_file_bytes ct ! j +
      (if j \<in> fst ` set (completed_files i fis)
       then size_of_piece_in_file ?l (vpi_get i) (fi_offset_in_torrent (fis ! j)) (fi_len (fis ! j)) else 0)"
    using n c1(3,4) by (auto simp: update_completed_files_def)
  have "unat (ct_per_file_bytes ct2 ! j) = file_bytes_where ?l (\<lambda>k. ?have[?i := True] ! k) (fis ! j)"
    if j: "j < length fis" for j
  proof -
    let ?fi = "fis ! j"
    have okj: "file_ok ?l ?fi" using ok j by simp
    have ins: "file_bytes_where ?l (\<lambda>k. ?have[?i := True] ! k) ?fi =
        file_bytes_where ?l (\<lambda>k. ?have ! k) ?fi + file_overlap ?l ?i ?fi"
      using k new by (intro file_bytes_where_insert) (auto simp: nth_update_bit)
    have old: "unat (ct_per_file_bytes ct ! j) = file_bytes_where ?l (\<lambda>k. ?have ! k) ?fi"
      using exact j n by (metis files_exact_def nth_map)
    have "file_bytes_where ?l (\<lambda>k. ?have[?i := True] ! k) ?fi < 18446744073709551616"
      using file_bytes_where_le [OF D(1) okj] unat_bound64 [of "fi_len ?fi"] by (meson le_less_trans)
    then have add: "unat (ct_per_file_bytes ct ! j + size_of_piece_in_file ?l (vpi_get i) (fi_offset_in_torrent ?fi) (fi_len ?fi))
        = file_bytes_where ?l (\<lambda>k. ?have[?i := True] ! k) ?fi"
      using ins old by (simp add: unat_word_ariths(1) size_of_piece_in_file_overlap [OF D(1) okj])
    show ?thesis
    proof (cases "in_range (piece_range_usize ?fi) ?i")
      case True
      then have "j \<in> fst ` set (completed_files i fis)" using mem [OF j] by simp
      then show ?thesis using c2(4) j add by simp
    next
      case False
      then have "j \<notin> fst ` set (completed_files i fis)" "file_overlap ?l ?i ?fi = 0"
        using mem [OF j] file_range_iff(1) [OF D(1) okj] by auto
      then show ?thesis using c2(4) j ins old by simp
    qed
  qed
  moreover have l2: "ct_lengths ct2 = ?l" "ct_have ct2 = ?have[?i := True]"
    using arg_cong [OF c2(2), of ct_lengths] arg_cong [OF c2(2), of ct_have] c1(2,3) by simp_all
  ultimately have "files_exact fis ct2"
    unfolding files_exact_def using c2(3) by (intro nth_equalityI) simp_all
  then show ?thesis using c1(1) c2(1) l2 by blast
qed

lemma piece_completion_keeps_file_bytes_witness:
  "\<exists>ct ct1 ct2. ct_new (replicate 8 False) (replicate 8 True) sample_lengths [sample_file] = Inr ct
     \<and> mark_piece_downloaded (ValidPieceIndex 0) ct = Inr ct1
     \<and> update_completed_files (ValidPieceIndex 0) [sample_file] ct1 = Inr ct2 \<and> files_exact [sample_file] ct2"
proof -
  obtain ct where ct: "ct_new (replicate 8 False) (replicate 8 True) sample_lengths [sample_file] = Inr ct"
    "ct_inv ct" "ct_lengths ct = sample_lengths" "files_exact [sample_file] ct" "ct_have ct = replicate 8 False"
    using ct_new_spec [of sample_lengths "replicate 8 False" "replicate 8 True" "[sample_file]"]
    by (auto simp: sample_counts)
  have "fi_len sample_file \<noteq> 0" by (simp add: sample_file_def)
  then show ?thesis
    using piece_completion_keeps_file_bytes [OF ct(2), of "ValidPieceIndex 0" "[sample_file]"] ct
    by (auto simp: files_layout_def)
qed

text \<open>Three files of which the one in the middle is empty.\<close>

definition gap_files :: "file_info list" where
  "gap_files =
     [sample_file\<lparr> fi_len := 20000, fi_piece_range := (0, 1) \<rparr>,
      sample_file\<lparr> fi_len := 0, fi_offset_in_torrent := 20000, fi_piece_range := (0, 0) \<rparr>,
      sample_file\<lparr> fi_len := 20000, fi_offset_in_torrent := 20000, fi_piece_range := (0, 2) \<rparr>]"

text \<open>
  An empty file ends the loop over the files of a completed piece early. In a torrent whose files
  are laid out correctly, the third file has bytes in piece 0, but completing piece 0 does not update
  its counter, because the empty file before it does not contain the piece.
\<close>
lemma empty_file_hides_later_files:
  "list_all (file_ok sample_lengths) gap_files \<and> files_layout gap_files
   \<and> map fst (completed_files (ValidPieceIndex 0) gap_files) = [0]
   \<and> size_of_piece_in_file sample_lengths 0 (fi_offset_in_torrent (gap_files ! 2)) (fi_len (gap_files ! 2)) = 12768"
proof -
  have "file_ok sample_lengths fi" if "fi \<in> set gap_files" for fi
    using that
    by (auto simp: gap_files_def file_ok_def sample_file_def sample_lengths_def file_end_def
        iter_pieces_within_offset_def div_ceil_def Let_def)
  moreover have "files_layout gap_files"
    by (auto simp: files_layout_def gap_files_def sample_file_def file_end_def less_Suc_eq)
  moreover have "map fst (completed_files (ValidPieceIndex 0) gap_files) = [0]"
    by (simp add: completed_files_def gap_files_def sample_file_def range_contains_def)
  moreover have "size_of_piece_in_file sample_lengths 0 (fi_offset_in_torrent (gap_files ! 2)) (fi_len (gap_files ! 2)) = 12768"
    by (simp add: size_of_piece_in_file_def gap_files_def sample_file_def sample_lengths_def
        default_piece_length_def Let_def)
  ultimately show ?thesis by (simp add: list_all_iff)
qed

end
