(* ===== verification/Piece_Tracker_Correct.thy ===== *)
theory Piece_Tracker_Correct
  imports Piece_Tracker Chunk_Tracker_Queue
begin

text \<open>
  The states of a piece. The tasks of the peers interleave at the locks of the torrent state; between
  taking a complete piece out of the in-flight table and recording the result of its hash check the
  piece is in none of the tables. The multiset \<open>ts_checking\<close> stands for the tasks in that section.
\<close>

section \<open>Steps\<close>

record tracker_state =
  ts_pt :: piece_tracker
  ts_checking :: "valid_piece_index multiset"

abbreviation ts_ct :: "tracker_state \<Rightarrow> chunk_tracker" where
  "ts_ct ts \<equiv> pt_chunks (ts_pt ts)"

abbreviation inflight_keys :: "piece_tracker \<Rightarrow> valid_piece_index set" where
  "inflight_keys pt \<equiv> fst ` set (pt_inflight pt)"

text \<open>
  With \<open>strict\<close>, streams do not ask for pieces under check, and a piece in flight or under check is not
  selected anew; without it the steps are those of the code.
\<close>

inductive ts_step :: "bool \<Rightarrow> file_info list \<Rightarrow> tracker_state \<Rightarrow> tracker_state \<Rightarrow> bool" for strict fis where
  acquire: "acquire_piece scale now req (ts_pt ts) = Inr (result, pt') \<Longrightarrow> aq_file_infos req = fis \<Longrightarrow>
     \<forall>p \<in> set (aq_priority_pieces req). valid_index (ct_lengths (ts_ct ts)) p \<Longrightarrow>
     (strict \<Longrightarrow> set (aq_priority_pieces req) \<inter> set_mset (ts_checking ts) = {}) \<Longrightarrow>
     ts_step strict fis ts (ts\<lparr> ts_pt := pt' \<rparr>)"
| wrote: "write_to_disk now addr p ci (ts_pt ts) = Inr (outcome, pt') \<Longrightarrow> pc_len p < 2 ^ 32 \<Longrightarrow>
     ci_piece_index ci = ValidPieceIndex (pc_index p) \<Longrightarrow>
     ts_step strict fis ts \<lparr> ts_pt = pt',
       ts_checking = (case outcome of CheckHash _ \<Rightarrow> add_mset (ci_piece_index ci) (ts_checking ts) | _ \<Rightarrow> ts_checking ts) \<rparr>"
| hash_ok: "i \<in># ts_checking ts \<Longrightarrow> mark_piece_hash_ok i (ts_pt ts) = Inr pt' \<Longrightarrow>
     ts_step strict fis ts \<lparr> ts_pt = pt', ts_checking = ts_checking ts - {#i#} \<rparr>"
| hash_failed: "i \<in># ts_checking ts \<Longrightarrow> mark_piece_hash_failed i (ts_pt ts) = Inr pt' \<Longrightarrow>
     ts_step strict fis ts \<lparr> ts_pt = pt', ts_checking = ts_checking ts - {#i#} \<rparr>"
| release: "release_pieces_owned_by peer (ts_pt ts) = Inr (n, pt') \<Longrightarrow> ts_step strict fis ts (ts\<lparr> ts_pt := pt' \<rparr>)"
| only_files: "pt_update_only_files fis only (ts_pt ts) = Inr (h, pt') \<Longrightarrow>
     (strict \<Longrightarrow> \<forall>i \<in> inflight_keys (ts_pt ts) \<union> set_mset (ts_checking ts).
        ct_selected (pt_chunks pt') ! unat (vpi_get i) \<longrightarrow> ct_selected (ts_ct ts) ! unat (vpi_get i)) \<Longrightarrow>
     ts_step strict fis ts (ts\<lparr> ts_pt := pt' \<rparr>)"
| file_have: "pt_update_file_have i file_id (fis ! file_id) (ts_pt ts) = Inr (r, pt') \<Longrightarrow> file_id < length fis \<Longrightarrow>
     ts_step strict fis ts (ts\<lparr> ts_pt := pt' \<rparr>)"

inductive ts_reachable :: "bool \<Rightarrow> lengths \<Rightarrow> file_info list \<Rightarrow> tracker_state \<Rightarrow> bool" for strict l fis where
  start: "ct_new hv sel l fis = Inr ct \<Longrightarrow> length hv = 8 * piece_bitfield_bytes l \<Longrightarrow>
     ts_reachable strict l fis \<lparr> ts_pt = pt_new ct, ts_checking = {#} \<rparr>"
| step: "ts_reachable strict l fis ts \<Longrightarrow> ts_step strict fis ts ts' \<Longrightarrow> ts_reachable strict l fis ts'"

section \<open>Invariants\<close>

definition ts_shape :: "lengths \<Rightarrow> file_info list \<Rightarrow> tracker_state \<Rightarrow> bool" where
  "ts_shape l fis ts \<longleftrightarrow> ct_shape (ts_ct ts) \<and> ct_lengths (ts_ct ts) = l
     \<and> hns_exact l (ct_have (ts_ct ts)) (ct_selected (ts_ct ts)) (ct_hns (ts_ct ts))
     \<and> length (ct_per_file_bytes (ts_ct ts)) = length fis
     \<and> hm_ok (pt_inflight (ts_pt ts))
     \<and> (\<forall>i \<in> inflight_keys (ts_pt ts) \<union> set_mset (ts_checking ts). valid_index l i)"

section \<open>One piece\<close>

text \<open>
  The state of one piece, abstracted from the tables: whether it is selected, verified, queued and in
  flight, whether all its chunks are written, and how many tasks check its hash.
\<close>

record piece_view =
  pv_sel :: bool
  pv_have :: bool
  pv_queue :: bool
  pv_complete :: bool
  pv_inflight :: bool
  pv_checking :: nat

inductive piece_step :: "bool \<Rightarrow> piece_view \<Rightarrow> piece_view \<Rightarrow> bool" for strict where
  stutter: "piece_step strict v v"
| reserve_queued: "pv_queue v \<Longrightarrow> piece_step strict v (v\<lparr> pv_queue := False, pv_inflight := True \<rparr>)"
| reserve_priority: "\<not> pv_have v \<Longrightarrow> \<not> pv_inflight v \<Longrightarrow> (strict \<Longrightarrow> pv_checking v = 0) \<Longrightarrow>
     piece_step strict v (v\<lparr> pv_queue := False, pv_inflight := True \<rparr>)"
| last_chunk: "pv_inflight v \<Longrightarrow> \<not> pv_complete v \<Longrightarrow>
     piece_step strict v (v\<lparr> pv_complete := True, pv_inflight := False, pv_checking := Suc (pv_checking v) \<rparr>)"
| verified: "0 < pv_checking v \<Longrightarrow> piece_step strict v (v\<lparr> pv_have := True, pv_checking := pv_checking v - 1 \<rparr>)"
| broken: "0 < pv_checking v \<Longrightarrow>
     piece_step strict v (v\<lparr> pv_queue := pv_queue v \<or> \<not> pv_have v, pv_complete := pv_complete v \<and> pv_have v,
       pv_checking := pv_checking v - 1 \<rparr>)"
| released: "pv_inflight v \<Longrightarrow>
     piece_step strict v (v\<lparr> pv_queue := pv_queue v \<or> \<not> pv_have v, pv_complete := pv_complete v \<and> pv_have v,
       pv_inflight := False \<rparr>)"
| selected: "newly = (sel' \<and> \<not> pv_sel v \<and> \<not> pv_have v) \<Longrightarrow>
     (strict \<Longrightarrow> pv_inflight v \<or> 0 < pv_checking v \<Longrightarrow> sel' \<Longrightarrow> pv_sel v) \<Longrightarrow>
     piece_step strict v (v\<lparr> pv_sel := sel', pv_queue := (pv_have v \<or> sel') \<and> (pv_queue v \<or> newly),
       pv_complete := pv_complete v \<and> \<not> newly \<rparr>)"

definition pv_none_lost :: "piece_view \<Rightarrow> bool" where
  "pv_none_lost v \<longleftrightarrow> (pv_sel v \<and> \<not> pv_have v \<longrightarrow> pv_queue v \<or> pv_inflight v \<or> 0 < pv_checking v)"

definition pv_exclusive :: "piece_view \<Rightarrow> bool" where
  "pv_exclusive v \<longleftrightarrow>
     (pv_complete v \<longleftrightarrow> pv_have v \<or> 0 < pv_checking v)
     \<and> (pv_queue v \<longrightarrow> \<not> pv_complete v \<and> \<not> pv_inflight v)
     \<and> (pv_inflight v \<longrightarrow> \<not> pv_complete v)
     \<and> (pv_have v \<longrightarrow> pv_checking v = 0) \<and> pv_checking v \<le> 1"

lemma piece_step_none_lost: "piece_step strict v v' \<Longrightarrow> pv_none_lost v \<Longrightarrow> pv_none_lost v'"
  by (induction rule: piece_step.induct) (auto simp: pv_none_lost_def)

lemma piece_step_exclusive: "piece_step True v v' \<Longrightarrow> pv_exclusive v \<Longrightarrow> pv_exclusive v'"
  by (induction rule: piece_step.induct) (auto simp: pv_exclusive_def)

definition view :: "tracker_state \<Rightarrow> nat \<Rightarrow> piece_view" where
  "view ts k =
     \<lparr> pv_sel = ct_selected (ts_ct ts) ! k, pv_have = ct_have (ts_ct ts) ! k,
       pv_queue = ct_queue_pieces (ts_ct ts) ! k, pv_complete = complete (ts_ct ts) k,
       pv_inflight = (vpi_of k \<in> inflight_keys (ts_pt ts)), pv_checking = count (ts_checking ts) (vpi_of k) \<rparr>"

section \<open>The operations step every piece\<close>

lemma vpi_of_get: "vpi_of (unat (vpi_get i)) = i"
  by (cases i) simp

lemma vpi_of_eq:
  assumes "wf_lengths l" "k < piece_count l"
  shows "vpi_of k = i \<longleftrightarrow> k = unat (vpi_get i)"
  using index_of_nat(2) [OF assms] by (cases i) auto

lemma try_steal_keeps:
  assumes "try_steal scale now req threshold pt = Some (result, pt')" and ok: "hm_ok (pt_inflight pt)"
  shows "pt_chunks pt' = pt_chunks pt \<and> inflight_keys pt' = inflight_keys pt \<and> hm_ok (pt_inflight pt')"
proof -
  obtain i info where "map_of (pt_inflight pt) i = Some info"
    "pt' = pt\<lparr> pt_inflight := hm_insert i (info\<lparr> ip_peer := aq_peer req, ip_started := now \<rparr>) (pt_inflight pt) \<rparr>"
    using assms(1) by (auto simp: try_steal_def Let_def split: option.splits if_splits)
  then show ?thesis
    using ok hm.keys_insert [OF ok] by (auto simp: hm.invar_insert dest: map_of_SomeD intro: rev_image_eqI)
qed

text \<open>Reserving piece \<open>i\<close>.\<close>

definition reserves :: "valid_piece_index \<Rightarrow> piece_tracker \<Rightarrow> piece_tracker \<Rightarrow> bool" where
  "reserves i pt pt' \<longleftrightarrow>
     pt_chunks pt' = (pt_chunks pt)\<lparr> ct_queue_pieces := (ct_queue_pieces (pt_chunks pt))[unat (vpi_get i) := False] \<rparr>
     \<and> inflight_keys pt' = insert i (inflight_keys pt) \<and> hm_ok (pt_inflight pt')"

lemma reserve_piece_reserves:
  assumes "ct_shape (pt_chunks pt)" "valid_index (ct_lengths (pt_chunks pt)) i" and ok: "hm_ok (pt_inflight pt)"
  shows "\<exists>pt'. reserve_piece now i peer pt = Inr (Reserved i, pt') \<and> reserves i pt pt'"
proof -
  have "unat (vpi_get i) < length (ct_queue_pieces (pt_chunks pt))"
    using ct_shapeD [OF assms(1)] valid_bit(2) assms(2) by simp
  then show ?thesis
    using hm.keys_insert [OF ok] hm.invar_insert [OF ok]
    by (simp add: reserve_piece_def reserve_needed_piece_def set_bit_checked_def reserves_def)
qed

lemma first_priority_spec:
  assumes shape: "ct_shape (pt_chunks pt)" and "\<forall>p \<in> set ps. valid_index (ct_lengths (pt_chunks pt)) p"
  shows "\<exists>r. first_priority pt has ps = Inr r \<and> (\<forall>i. r = Some i \<longrightarrow>
    i \<in> set ps \<and> \<not> ct_have (pt_chunks pt) ! unat (vpi_get i) \<and> i \<notin> inflight_keys pt)"
  using assms(2)
proof (induction ps)
  case (Cons p ps)
  have "unat (vpi_get p) < length (ct_have (pt_chunks pt))"
    using Cons.prems ct_shapeD [OF shape] valid_bit(2) by simp
  then show ?case
    using Cons by (auto simp: is_piece_have_def get_bit_checked_def map_of_eq_None_iff)
qed simp

lemma acquire_piece_effect:
  assumes shape: "ct_shape (pt_chunks pt)" and ok: "hm_ok (pt_inflight pt)"
    and files: "\<forall>fi \<in> set (aq_file_infos req). file_ok (ct_lengths (pt_chunks pt)) fi"
    and n: "length (ct_per_file_bytes (pt_chunks pt)) = length (aq_file_infos req)"
    and prio: "\<forall>p \<in> set (aq_priority_pieces req). valid_index (ct_lengths (pt_chunks pt)) p"
  shows "\<exists>result pt'. acquire_piece scale now req pt = Inr (result, pt') \<and>
    (pt_chunks pt' = pt_chunks pt \<and> inflight_keys pt' = inflight_keys pt \<and> hm_ok (pt_inflight pt')
     \<or> (\<exists>i. valid_index (ct_lengths (pt_chunks pt)) i \<and> reserves i pt pt' \<and>
          (ct_queue_pieces (pt_chunks pt) ! unat (vpi_get i)
           \<or> i \<in> set (aq_priority_pieces req) \<and> \<not> ct_have (pt_chunks pt) ! unat (vpi_get i) \<and> i \<notin> inflight_keys pt)))"
proof (cases "try_steal scale now req 10 pt")
  case (Some r)
  then show ?thesis using try_steal_keeps [OF _ ok] by (cases r) (auto simp: acquire_piece_def)
next
  case None
  obtain found where f: "first_priority pt (aq_peer_has_piece req) (aq_priority_pieces req) = Inr found"
    "\<forall>i. found = Some i \<longrightarrow> i \<in> set (aq_priority_pieces req)
       \<and> \<not> ct_have (pt_chunks pt) ! unat (vpi_get i) \<and> i \<notin> inflight_keys pt"
    using first_priority_spec [OF shape prio] by blast
  show ?thesis
  proof (cases found)
    case (Some i)
    then have "valid_index (ct_lengths (pt_chunks pt)) i" using f(2) prio by blast
    with reserve_piece_reserves [OF shape this ok] show ?thesis
      using f Some None by (fastforce simp: acquire_piece_def)
  next
    case none: None
    obtain ids where ids: "iter_queued_pieces (pt_chunks pt) (aq_file_priorities req) (aq_file_infos req) = Inr ids"
      "set ids \<subseteq> vpi_of ` {k. k < piece_count (ct_lengths (pt_chunks pt)) \<and> ct_queue_pieces (pt_chunks pt) ! k}"
      using iter_queued_pieces_spec [OF shape files n, of "aq_file_priorities req"]
        file_range_iff(2) [OF ct_shapeD(1) [OF shape]] files by (fastforce dest: nth_mem)
    show ?thesis
    proof (cases "find (aq_peer_has_piece req) ids")
      case (Some i)
      then have "i \<in> set ids" by (auto simp: find_Some_iff)
      then obtain k where k: "i = vpi_of k" "k < piece_count (ct_lengths (pt_chunks pt))" "ct_queue_pieces (pt_chunks pt) ! k"
        using ids(2) by auto
      then have "valid_index (ct_lengths (pt_chunks pt)) i" "ct_queue_pieces (pt_chunks pt) ! unat (vpi_get i)"
        using index_of_nat [OF ct_shapeD(1) [OF shape] k(2)] by simp_all
      with reserve_piece_reserves [OF shape this(1) ok] show ?thesis
        using f Some None none ids(1) by (fastforce simp: acquire_piece_def)
    next
      case noq: None
      show ?thesis
      proof (cases "try_steal scale now req 3 pt")
        case (Some r)
        then show ?thesis
          using f None none ids(1) noq try_steal_keeps [OF _ ok] by (cases r) (auto simp: acquire_piece_def)
      next
        case steal: None
        then show ?thesis using f None none ids(1) noq ok by (auto simp: acquire_piece_def)
      qed
    qed
  qed
qed

lemma write_to_disk_effect:
  assumes shape: "ct_shape (pt_chunks pt)" and ok: "hm_ok (pt_inflight pt)" and len: "pc_len p < 2 ^ 32"
    and ci: "ci_piece_index ci = ValidPieceIndex (pc_index p)"
  shows "\<exists>outcome pt'. write_to_disk now addr p ci pt = Inr (outcome, pt')
    \<and> ct_shape (pt_chunks pt') \<and> ct_lengths (pt_chunks pt') = ct_lengths (pt_chunks pt)
    \<and> ct_have (pt_chunks pt') = ct_have (pt_chunks pt) \<and> ct_selected (pt_chunks pt') = ct_selected (pt_chunks pt)
    \<and> ct_queue_pieces (pt_chunks pt') = ct_queue_pieces (pt_chunks pt) \<and> ct_hns (pt_chunks pt') = ct_hns (pt_chunks pt)
    \<and> ct_per_file_bytes (pt_chunks pt') = ct_per_file_bytes (pt_chunks pt) \<and> hm_ok (pt_inflight pt')
    \<and> ((\<forall>t. outcome \<noteq> CheckHash t) \<and> inflight_keys pt' = inflight_keys pt
         \<and> (\<forall>k < piece_count (ct_lengths (pt_chunks pt)). complete (pt_chunks pt') k = complete (pt_chunks pt) k)
       \<or> (\<exists>t. outcome = CheckHash t) \<and> ci_piece_index ci \<in> inflight_keys pt
         \<and> valid_index (ct_lengths (pt_chunks pt)) (ci_piece_index ci)
         \<and> inflight_keys pt' = inflight_keys pt - {ci_piece_index ci}
         \<and> \<not> complete (pt_chunks pt) (unat (pc_index p))
         \<and> (\<forall>k < piece_count (ct_lengths (pt_chunks pt)).
              complete (pt_chunks pt') k = (complete (pt_chunks pt) k \<or> k = unat (pc_index p))))"
proof (cases "map_of (pt_inflight pt) (ci_piece_index ci)")
  case None
  then show ?thesis using shape ok by (simp add: write_to_disk_def get_inflight_def)
next
  case (Some info)
  have key: "ci_piece_index ci \<in> inflight_keys pt" using map_of_SomeD [OF Some] by force
  obtain r ct' where m: "mark_chunk_downloaded p (pt_chunks pt) = Inr (r, ct')" "ct_shape ct'"
    "ct_lengths ct' = ct_lengths (pt_chunks pt)" "ct_have ct' = ct_have (pt_chunks pt)"
    "ct_selected ct' = ct_selected (pt_chunks pt)" "ct_queue_pieces ct' = ct_queue_pieces (pt_chunks pt)"
    "ct_per_file_bytes ct' = ct_per_file_bytes (pt_chunks pt)" "ct_hns ct' = ct_hns (pt_chunks pt)"
    "\<forall>k < piece_count (ct_lengths (pt_chunks pt)). complete ct' k \<longleftrightarrow>
       complete (pt_chunks pt) k \<or> r = Some Completed \<and> k = unat (pc_index p)"
    "r = Some Completed \<longrightarrow> \<not> complete (pt_chunks pt) (unat (pc_index p))"
    "r \<noteq> None \<longrightarrow> valid_index (ct_lengths (pt_chunks pt)) (ValidPieceIndex (pc_index p))"
    using mark_chunk_downloaded_effect [OF shape len] by blast
  show ?thesis
  proof (cases "ip_peer info = addr \<and> r = Some Completed")
    case True
    then show ?thesis
      using Some m ok key ci hm.keys_remove [OF ok] hm.invar_remove [OF ok]
      by (auto simp: write_to_disk_def get_inflight_def pt_mark_chunk_downloaded_def take_inflight_def)
  next
    case False
    then show ?thesis
      using Some m(1-9) shape ok
      by (cases r; cases "the r")
        (auto simp: write_to_disk_def get_inflight_def pt_mark_chunk_downloaded_def)
  qed
qed

lemma release_exact:
  assumes shape: "ct_shape (pt_chunks pt)"
    and valid: "\<forall>i \<in> inflight_keys pt. valid_index (ct_lengths (pt_chunks pt)) i"
  shows "\<exists>pt'. release_pieces_owned_by peer pt = Inr (length (pieces_owned_by peer pt), pt')
    \<and> requeued ((\<lambda>i. unat (vpi_get i)) ` set (pieces_owned_by peer pt)) (pt_chunks pt) (pt_chunks pt')
    \<and> pt_inflight pt' = filter (\<lambda>e. fst e \<notin> set (pieces_owned_by peer pt)) (pt_inflight pt)"
proof -
  let ?xs = "pieces_owned_by peer pt"
  let ?f = "\<lambda>pt piece. rbind (mark_piece_broken_if_not_have piece (pt_chunks pt)) (\<lambda>chunks.
               Inr \<lparr> pt_chunks = chunks, pt_inflight = hm_remove piece (pt_inflight pt) \<rparr>)"
  let ?P = "\<lambda>done pt'. requeued ((\<lambda>i. unat (vpi_get i)) ` set done) (pt_chunks pt) (pt_chunks pt')
    \<and> pt_inflight pt' = filter (\<lambda>e. fst e \<notin> set done) (pt_inflight pt)"
  have sub: "set ?xs \<subseteq> inflight_keys pt" by (auto simp: pieces_owned_by_def)
  have "\<exists>pt'. rfold ?f pt ?xs = Inr pt' \<and> ?P ?xs pt'"
  proof (rule rfold_invariant)
    show "?P [] pt" using shape by (simp add: requeued_def)
  next
    fix "done" i todo pt'
    assume split: "?xs = done @ i # todo" and P: "?P done pt'"
    have "i \<in> set ?xs" unfolding split by simp
    then have "valid_index (ct_lengths (pt_chunks pt)) i" using sub valid by blast
    from requeue_one [OF conjunct1 [OF P] this] obtain ct'' where ct'':
      "mark_piece_broken_if_not_have i (pt_chunks pt') = Inr ct''"
      "requeued (insert (unat (vpi_get i)) ((\<lambda>i. unat (vpi_get i)) ` set done)) (pt_chunks pt) ct''"
      by blast
    let ?pt'' = "\<lparr> pt_chunks = ct'', pt_inflight = hm_remove i (pt_inflight pt') \<rparr>"
    have "pt_inflight ?pt'' = filter (\<lambda>e. fst e \<notin> set (done @ [i])) (pt_inflight pt)"
      using P by (simp add: hm_remove_def conj_commute)
    moreover have "(\<lambda>i. unat (vpi_get i)) ` set (done @ [i]) = insert (unat (vpi_get i)) ((\<lambda>i. unat (vpi_get i)) ` set done)"
      by simp
    ultimately have "?P (done @ [i]) ?pt''" using ct''(2) by simp
    then show "\<exists>pt''. ?f pt' i = Inr pt'' \<and> ?P (done @ [i]) pt''"
      using ct''(1) by (intro exI [of _ ?pt'']) simp
  qed
  then obtain pt' where "rfold ?f pt ?xs = Inr pt'" "?P ?xs pt'" by blast
  then show ?thesis by (intro exI [of _ pt']) (simp add: release_pieces_owned_by_def Let_def)
qed

lemma release_effect:
  assumes shape: "ct_shape (pt_chunks pt)" and ok: "hm_ok (pt_inflight pt)"
    and valid: "\<forall>i \<in> inflight_keys pt. valid_index (ct_lengths (pt_chunks pt)) i"
  shows "\<exists>n pt' K. release_pieces_owned_by peer pt = Inr (n, pt') \<and> K \<subseteq> inflight_keys pt
    \<and> requeued ((\<lambda>i. unat (vpi_get i)) ` K) (pt_chunks pt) (pt_chunks pt')
    \<and> inflight_keys pt' = inflight_keys pt - K \<and> hm_ok (pt_inflight pt')"
proof -
  let ?xs = "pieces_owned_by peer pt"
  obtain pt' where R: "release_pieces_owned_by peer pt = Inr (length ?xs, pt')"
      "requeued ((\<lambda>i. unat (vpi_get i)) ` set ?xs) (pt_chunks pt) (pt_chunks pt')"
      "pt_inflight pt' = filter (\<lambda>e. fst e \<notin> set ?xs) (pt_inflight pt)"
    using release_exact [OF shape valid] by blast
  have "set ?xs \<subseteq> inflight_keys pt" by (auto simp: pieces_owned_by_def)
  moreover have "inflight_keys pt' = inflight_keys pt - set ?xs" unfolding R(3) by auto
  moreover have "hm_ok (pt_inflight pt')" unfolding R(3) using ok by (simp add: hm_ok_def distinct_map_filter)
  ultimately show ?thesis using R(1,2) by blast
qed

section \<open>Simulation\<close>

lemma ts_shapeD:
  assumes "ts_shape l fis ts"
  shows "ct_shape (ts_ct ts)" "ct_lengths (ts_ct ts) = l"
    "hns_exact l (ct_have (ts_ct ts)) (ct_selected (ts_ct ts)) (ct_hns (ts_ct ts))"
    "length (ct_per_file_bytes (ts_ct ts)) = length fis" "hm_ok (pt_inflight (ts_pt ts))"
    "i \<in> inflight_keys (ts_pt ts) \<Longrightarrow> valid_index l i" "i \<in># ts_checking ts \<Longrightarrow> valid_index l i" "wf_lengths l"
  using assms ct_shapeD(1) [of "ts_ct ts"] by (auto simp: ts_shape_def)

lemma simulate_reserve:
  assumes shape: "ts_shape l fis ts" and i: "valid_index l i" and r: "reserves i (ts_pt ts) pt'"
    and guard: "ct_queue_pieces (ts_ct ts) ! unat (vpi_get i)
      \<or> (strict \<longrightarrow> i \<notin># ts_checking ts) \<and> \<not> ct_have (ts_ct ts) ! unat (vpi_get i) \<and> i \<notin> inflight_keys (ts_pt ts)"
    and k: "k < piece_count l"
  shows "ts_shape l fis (ts\<lparr> ts_pt := pt' \<rparr>)" "piece_step strict (view ts k) (view (ts\<lparr> ts_pt := pt' \<rparr>) k)"
proof -
  note D = ts_shapeD [OF shape]
  have c: "pt_chunks pt' = (ts_ct ts)\<lparr> ct_queue_pieces := (ct_queue_pieces (ts_ct ts))[unat (vpi_get i) := False] \<rparr>"
    and keys: "inflight_keys pt' = insert i (inflight_keys (ts_pt ts))" and ok: "hm_ok (pt_inflight pt')"
    using r by (simp_all add: reserves_def)
  show "ts_shape l fis (ts\<lparr> ts_pt := pt' \<rparr>)"
    using shape i ok keys by (auto simp: ts_shape_def c ct_shape_def Let_def)
  note eq = vpi_of_eq [OF D(8) k]
  have len: "k < length (ct_queue_pieces (ts_ct ts))"
    using k piece_bits [OF D(8)] ct_shapeD(2) [OF D(1)] D(2) by simp
  show "piece_step strict (view ts k) (view (ts\<lparr> ts_pt := pt' \<rparr>) k)"
  proof (cases "k = unat (vpi_get i)")
    case True
    then have ki: "vpi_of k = i" using eq by simp
    have v: "view (ts\<lparr> ts_pt := pt' \<rparr>) k = (view ts k)\<lparr> pv_queue := False, pv_inflight := True \<rparr>"
      using len True by (simp add: view_def c keys ki)
    show ?thesis
    proof (cases "ct_queue_pieces (ts_ct ts) ! k")
      case True
      then show ?thesis unfolding v by (intro piece_step.reserve_queued) (simp add: view_def)
    next
      case False
      then show ?thesis
        unfolding v using guard True ki
        by (intro piece_step.reserve_priority) (simp_all add: view_def not_in_iff)
    qed
  next
    case False
    then have "view (ts\<lparr> ts_pt := pt' \<rparr>) k = view ts k"
      using eq by (simp add: view_def c keys)
    then show ?thesis by (simp add: piece_step.stutter)
  qed
qed

lemma simulate_requeue:
  assumes shape: "ts_shape l fis ts" and K: "K \<subseteq> inflight_keys (ts_pt ts) \<union> set_mset (ts_checking ts)"
    and req: "requeued ((\<lambda>i. unat (vpi_get i)) ` K) (ts_ct ts) (ts_ct ts')"
    and ok: "hm_ok (pt_inflight (ts_pt ts'))"
    and tables: "inflight_keys (ts_pt ts') \<subseteq> inflight_keys (ts_pt ts)" "set_mset (ts_checking ts') \<subseteq> set_mset (ts_checking ts)"
  shows "ts_shape l fis ts'"
    "k < piece_count l \<Longrightarrow> view ts' k =
      (view ts k)\<lparr> pv_queue := pv_queue (view ts k) \<or> vpi_of k \<in> K \<and> \<not> pv_have (view ts k),
        pv_complete := pv_complete (view ts k) \<and> (vpi_of k \<in> K \<longrightarrow> pv_have (view ts k)),
        pv_inflight := vpi_of k \<in> inflight_keys (ts_pt ts'), pv_checking := count (ts_checking ts') (vpi_of k) \<rparr>"
proof -
  note D = ts_shapeD [OF shape]
  show "ts_shape l fis ts'"
    using shape req ok tables by (auto simp: ts_shape_def requeued_def)
  assume k: "k < piece_count l"
  have mem: "k \<in> (\<lambda>i. unat (vpi_get i)) ` K \<longleftrightarrow> vpi_of k \<in> K"
    by (simp add: image_iff vpi_of_eq [OF D(8) k, symmetric])
  have E: "ct_have (ts_ct ts') = ct_have (ts_ct ts)" "ct_selected (ts_ct ts') = ct_selected (ts_ct ts)"
    "ct_queue_pieces (ts_ct ts') ! k \<longleftrightarrow> ct_queue_pieces (ts_ct ts) ! k \<or> vpi_of k \<in> K \<and> \<not> ct_have (ts_ct ts) ! k"
    "complete (ts_ct ts') k \<longleftrightarrow> complete (ts_ct ts) k \<and> (vpi_of k \<in> K \<longrightarrow> ct_have (ts_ct ts) ! k)"
    using req k unfolding requeued_def mem [symmetric] D(2) by blast+
  show "view ts' k =
      (view ts k)\<lparr> pv_queue := pv_queue (view ts k) \<or> vpi_of k \<in> K \<and> \<not> pv_have (view ts k),
        pv_complete := pv_complete (view ts k) \<and> (vpi_of k \<in> K \<longrightarrow> pv_have (view ts k)),
        pv_inflight := vpi_of k \<in> inflight_keys (ts_pt ts'), pv_checking := count (ts_checking ts') (vpi_of k) \<rparr>"
    unfolding view_def by (simp add: E)
qed

lemma simulate_write:
  assumes shape: "ts_shape l fis ts"
    and ts': "ts' = \<lparr> ts_pt = pt', ts_checking = (case outcome of
        CheckHash _ \<Rightarrow> add_mset (ci_piece_index ci) (ts_checking ts) | _ \<Rightarrow> ts_checking ts) \<rparr>"
    and run: "write_to_disk now addr p ci (ts_pt ts) = Inr (outcome, pt')" and len: "pc_len p < 2 ^ 32"
    and ci: "ci_piece_index ci = ValidPieceIndex (pc_index p)"
  shows "ts_shape l fis ts' \<and> (\<forall>k < piece_count l. piece_step strict (view ts k) (view ts' k))"
proof -
  note D = ts_shapeD [OF shape]
  obtain outcome' pt'' where W: "write_to_disk now addr p ci (ts_pt ts) = Inr (outcome', pt'')"
    and E: "ct_shape (pt_chunks pt'')" "ct_lengths (pt_chunks pt'') = ct_lengths (ts_ct ts)"
    "ct_have (pt_chunks pt'') = ct_have (ts_ct ts)" "ct_selected (pt_chunks pt'') = ct_selected (ts_ct ts)"
    "ct_queue_pieces (pt_chunks pt'') = ct_queue_pieces (ts_ct ts)" "ct_hns (pt_chunks pt'') = ct_hns (ts_ct ts)"
    "ct_per_file_bytes (pt_chunks pt'') = ct_per_file_bytes (ts_ct ts)" "hm_ok (pt_inflight pt'')"
    and C: "(\<forall>t. outcome' \<noteq> CheckHash t) \<and> inflight_keys pt'' = inflight_keys (ts_pt ts)
       \<and> (\<forall>k < piece_count (ct_lengths (ts_ct ts)). complete (pt_chunks pt'') k = complete (ts_ct ts) k)
     \<or> (\<exists>t. outcome' = CheckHash t) \<and> ci_piece_index ci \<in> inflight_keys (ts_pt ts)
       \<and> valid_index (ct_lengths (ts_ct ts)) (ci_piece_index ci)
       \<and> inflight_keys pt'' = inflight_keys (ts_pt ts) - {ci_piece_index ci}
       \<and> \<not> complete (ts_ct ts) (unat (pc_index p))
       \<and> (\<forall>k < piece_count (ct_lengths (ts_ct ts)).
            complete (pt_chunks pt'') k = (complete (ts_ct ts) k \<or> k = unat (pc_index p)))"
    using write_to_disk_effect [OF D(1,5) len ci] by blast
  have same: "outcome' = outcome" "pt'' = pt'" using W run by simp_all
  show ?thesis using C
  proof (elim disjE conjE)
    assume no: "\<forall>t. outcome' \<noteq> CheckHash t" and keys: "inflight_keys pt'' = inflight_keys (ts_pt ts)"
      and comp: "\<forall>k < piece_count (ct_lengths (ts_ct ts)). complete (pt_chunks pt'') k = complete (ts_ct ts) k"
    have chk: "ts_checking ts' = ts_checking ts" "ts_pt ts' = pt''"
      using no ts' same by (auto split: write_outcome.splits)
    then have "view ts' k = view ts k" if "k < piece_count l" for k
      using that E keys comp D(2) by (simp add: view_def)
    then show ?thesis
      using chk E keys D shape by (auto simp: ts_shape_def piece_step.stutter)
  next
    assume yes: "\<exists>t. outcome' = CheckHash t" and inf: "ci_piece_index ci \<in> inflight_keys (ts_pt ts)"
      and valid: "valid_index (ct_lengths (ts_ct ts)) (ci_piece_index ci)"
      and keys: "inflight_keys pt'' = inflight_keys (ts_pt ts) - {ci_piece_index ci}"
      and before: "\<not> complete (ts_ct ts) (unat (pc_index p))"
      and comp: "\<forall>k < piece_count (ct_lengths (ts_ct ts)).
            complete (pt_chunks pt'') k = (complete (ts_ct ts) k \<or> k = unat (pc_index p))"
    have chk: "ts_checking ts' = add_mset (ci_piece_index ci) (ts_checking ts)" "ts_pt ts' = pt''"
      using yes ts' same by auto
    have "ts_shape l fis ts'" using chk E keys D(2-8) valid shape by (auto simp: ts_shape_def)
    moreover have "piece_step strict (view ts k) (view ts' k)" if k: "k < piece_count l" for k
    proof (cases "k = unat (pc_index p)")
      case True
      then have kp: "vpi_of k = ci_piece_index ci" using vpi_of_eq [OF D(8) k] ci by simp
      have v: "view ts' k = (view ts k)\<lparr> pv_complete := True, pv_inflight := False,
          pv_checking := Suc (pv_checking (view ts k)) \<rparr>"
        using chk E keys comp k D(2) True kp by (simp add: view_def)
      show ?thesis unfolding v using inf before True kp by (intro piece_step.last_chunk) (simp_all add: view_def)
    next
      case False
      then have "vpi_of k \<noteq> ci_piece_index ci"
        using vpi_of_eq [OF D(8) k, of "ci_piece_index ci"] ci by (metis valid_piece_index.sel)
      then have "view ts' k = view ts k" using chk E keys comp k D(2) False by (simp add: view_def)
      then show ?thesis by (simp add: piece_step.stutter)
    qed
    ultimately show ?thesis by blast
  qed
qed

lemma simulate_verified:
  assumes shape: "ts_shape l fis ts"
    and ts': "ts' = \<lparr> ts_pt = pt', ts_checking = ts_checking ts - {#i#} \<rparr>"
    and chk: "i \<in># ts_checking ts" and run: "mark_piece_hash_ok i (ts_pt ts) = Inr pt'"
  shows "ts_shape l fis ts' \<and> (\<forall>k < piece_count l. piece_step strict (view ts k) (view ts' k))"
proof -
  note D = ts_shapeD [OF shape]
  have i: "valid_index l i" using D(7) chk .
  obtain ct' where ct': "pt' = (ts_pt ts)\<lparr> pt_chunks := ct' \<rparr>" "ct_shape ct'"
    "hns_exact (ct_lengths ct') (ct_have ct') (ct_selected ct') (ct_hns ct')"
    "ct_have ct' = (ct_have (ts_ct ts))[unat (vpi_get i) := True]" "ct_lengths ct' = l"
    "ct_selected ct' = ct_selected (ts_ct ts)" "ct_queue_pieces ct' = ct_queue_pieces (ts_ct ts)"
    "ct_chunk_status ct' = ct_chunk_status (ts_ct ts)" "ct_per_file_bytes ct' = ct_per_file_bytes (ts_ct ts)"
    using mark_piece_downloaded_spec [OF D(1), of i] D(2,3) i run by (auto simp: mark_piece_hash_ok_def)
  have "ts_shape l fis ts'"
    using shape ct' ts' by (auto simp: ts_shape_def dest: in_diffD)
  moreover have "piece_step strict (view ts k) (view ts' k)" if k: "k < piece_count l" for k
  proof (cases "vpi_of k = i")
    case True
    then have "k = unat (vpi_get i)" using vpi_of_eq [OF D(8) k] by simp
    moreover have "k < length (ct_have (ts_ct ts))"
      using k piece_bits [OF D(8)] ct_shapeD(3) [OF D(1)] D(2) by simp
    ultimately have v: "view ts' k = (view ts k)\<lparr> pv_have := True, pv_checking := pv_checking (view ts k) - 1 \<rparr>"
      using True ct' ts' D(2) by (simp add: view_def)
    show ?thesis unfolding v using True chk by (intro piece_step.verified) (simp add: view_def)
  next
    case False
    then have "k \<noteq> unat (vpi_get i)" using vpi_of_eq [OF D(8) k, of i] by simp
    then have "view ts' k = view ts k" using False ct' ts' D(2) by (simp add: view_def)
    then show ?thesis by (simp add: piece_step.stutter)
  qed
  ultimately show ?thesis by blast
qed

lemma simulate_broken:
  assumes shape: "ts_shape l fis ts"
    and ts': "ts' = \<lparr> ts_pt = pt', ts_checking = ts_checking ts - {#i#} \<rparr>"
    and chk: "i \<in># ts_checking ts" and run: "mark_piece_hash_failed i (ts_pt ts) = Inr pt'"
  shows "ts_shape l fis ts' \<and> (\<forall>k < piece_count l. piece_step strict (view ts k) (view ts' k))"
proof -
  note D = ts_shapeD [OF shape]
  have i: "valid_index (ct_lengths (ts_ct ts)) i" using D(2) D(7) chk by simp
  have "requeued {} (ts_ct ts) (ts_ct ts)" using D(1) by (simp add: requeued_def)
  from requeue_one [OF this i] have "pt_inflight pt' = pt_inflight (ts_pt ts)"
    and R: "requeued ((\<lambda>i. unat (vpi_get i)) ` {i}) (ts_ct ts) (ts_ct ts')"
    using ts' run by (auto simp: mark_piece_hash_failed_def)
  then have tables: "inflight_keys (ts_pt ts') = inflight_keys (ts_pt ts)" "hm_ok (pt_inflight (ts_pt ts'))"
    "ts_checking ts' = ts_checking ts - {#i#}"
    using ts' D(5) by simp_all
  have K: "{i} \<subseteq> inflight_keys (ts_pt ts) \<union> set_mset (ts_checking ts)" using chk by simp
  have sub: "inflight_keys (ts_pt ts') \<subseteq> inflight_keys (ts_pt ts)" "set_mset (ts_checking ts') \<subseteq> set_mset (ts_checking ts)"
    using tables by (auto dest: in_diffD)
  note sim = simulate_requeue [OF shape K R tables(2) sub]
  have "piece_step strict (view ts k) (view ts' k)" if k: "k < piece_count l" for k
  proof (cases "vpi_of k = i")
    case True
    have v: "view ts' k = (view ts k)\<lparr> pv_queue := pv_queue (view ts k) \<or> \<not> pv_have (view ts k),
        pv_complete := pv_complete (view ts k) \<and> pv_have (view ts k), pv_checking := pv_checking (view ts k) - 1 \<rparr>"
      unfolding sim(2) [OF k] using True tables by (simp add: view_def)
    show ?thesis unfolding v using True chk by (intro piece_step.broken) (simp add: view_def)
  next
    case False
    then have "view ts' k = view ts k" unfolding sim(2) [OF k] using tables by (simp add: view_def)
    then show ?thesis by (simp add: piece_step.stutter)
  qed
  then show ?thesis using sim(1) by blast
qed

lemma simulate_release:
  assumes shape: "ts_shape l fis ts"
    and ts': "ts' = ts\<lparr> ts_pt := pt' \<rparr>" and run: "release_pieces_owned_by peer (ts_pt ts) = Inr (n, pt')"
  shows "ts_shape l fis ts' \<and> (\<forall>k < piece_count l. piece_step strict (view ts k) (view ts' k))"
proof -
  note D = ts_shapeD [OF shape]
  obtain K where K: "K \<subseteq> inflight_keys (ts_pt ts)"
    and R: "requeued ((\<lambda>i. unat (vpi_get i)) ` K) (ts_ct ts) (pt_chunks pt')"
    and keys: "inflight_keys pt' = inflight_keys (ts_pt ts) - K" and ok: "hm_ok (pt_inflight pt')"
    using release_effect [OF D(1,5), of peer] D(2,6) run by auto
  have eqs: "ts_pt ts' = pt'" "ts_checking ts' = ts_checking ts" using ts' by simp_all
  have sim: "ts_shape l fis ts'" "k < piece_count l \<Longrightarrow> view ts' k =
    (view ts k)\<lparr> pv_queue := pv_queue (view ts k) \<or> vpi_of k \<in> K \<and> \<not> pv_have (view ts k),
      pv_complete := pv_complete (view ts k) \<and> (vpi_of k \<in> K \<longrightarrow> pv_have (view ts k)),
      pv_inflight := vpi_of k \<in> inflight_keys (ts_pt ts'), pv_checking := count (ts_checking ts') (vpi_of k) \<rparr>" for k
    using simulate_requeue [OF shape, of K ts'] K R keys ok eqs by auto
  have "piece_step strict (view ts k) (view ts' k)" if k: "k < piece_count l" for k
  proof (cases "vpi_of k \<in> K")
    case True
    have v: "view ts' k = (view ts k)\<lparr> pv_queue := pv_queue (view ts k) \<or> \<not> pv_have (view ts k),
        pv_complete := pv_complete (view ts k) \<and> pv_have (view ts k), pv_inflight := False \<rparr>"
      unfolding sim(2) [OF k] using True keys eqs by (simp add: view_def)
    show ?thesis unfolding v using True K by (intro piece_step.released) (auto simp: view_def)
  next
    case False
    then have "view ts' k = view ts k" unfolding sim(2) [OF k] using keys eqs by (simp add: view_def)
    then show ?thesis by (simp add: piece_step.stutter)
  qed
  then show ?thesis using sim(1) by blast
qed

lemma simulate_only_files:
  assumes shape: "ts_shape l fis ts"
    and ts': "ts' = ts\<lparr> ts_pt := pt' \<rparr>" and run: "pt_update_only_files fis only (ts_pt ts) = Inr (h, pt')"
    and guard: "strict \<Longrightarrow> \<forall>i \<in> inflight_keys (ts_pt ts) \<union> set_mset (ts_checking ts).
        ct_selected (pt_chunks pt') ! unat (vpi_get i) \<longrightarrow> ct_selected (ts_ct ts) ! unat (vpi_get i)"
  shows "ts_shape l fis ts' \<and> (\<forall>k < piece_count l. piece_step strict (view ts k) (view ts' k))"
proof -
  note D = ts_shapeD [OF shape]
  obtain ct' where U: "pt' = (ts_pt ts)\<lparr> pt_chunks := ct' \<rparr>" "ct_shape ct'" "ct_hns ct' = h"
    "hns_exact (ct_lengths ct') (ct_have ct') (ct_selected ct') h"
    "ct_lengths ct' = l" "ct_have ct' = ct_have (ts_ct ts)" "ct_per_file_bytes ct' = ct_per_file_bytes (ts_ct ts)"
    "\<forall>k < piece_count l. ct_queue_pieces ct' ! k =
           ((ct_have (ts_ct ts) ! k \<or> ct_selected ct' ! k)
            \<and> (ct_queue_pieces (ts_ct ts) ! k \<or> ct_selected ct' ! k \<and> \<not> ct_selected (ts_ct ts) ! k \<and> \<not> ct_have (ts_ct ts) ! k))
       \<and> complete ct' k = (complete (ts_ct ts) k \<and> \<not> (ct_selected ct' ! k \<and> \<not> ct_selected (ts_ct ts) ! k \<and> \<not> ct_have (ts_ct ts) ! k))"
    using update_only_files_spec [OF D(1), of fis only] D(2) run by (auto simp: pt_update_only_files_def)
  have "ts_shape l fis ts'" using shape U ts' by (auto simp: ts_shape_def)
  moreover have "piece_step strict (view ts k) (view ts' k)" if k: "k < piece_count l" for k
  proof -
    have v: "view ts' k = (view ts k)\<lparr> pv_sel := ct_selected ct' ! k,
        pv_queue := (pv_have (view ts k) \<or> ct_selected ct' ! k) \<and> (pv_queue (view ts k) \<or>
          ct_selected ct' ! k \<and> \<not> pv_sel (view ts k) \<and> \<not> pv_have (view ts k)),
        pv_complete := pv_complete (view ts k) \<and> \<not> (ct_selected ct' ! k \<and> \<not> pv_sel (view ts k) \<and> \<not> pv_have (view ts k)) \<rparr>"
      using U k ts' D(2) by (simp add: view_def)
    have "pv_sel (view ts k)" if "strict" "pv_inflight (view ts k) \<or> 0 < pv_checking (view ts k)" "ct_selected ct' ! k"
    proof -
      have m: "vpi_of k \<in> inflight_keys (ts_pt ts) \<union> set_mset (ts_checking ts)" using that(2) by (auto simp: view_def)
      have "unat (vpi_get (vpi_of k)) = k" using index_of_nat(2) [OF D(8) k] by simp
      then show ?thesis using bspec [OF guard [OF that(1)] m] that(3) U(1) by (simp add: view_def)
    qed
    then show ?thesis unfolding v by (intro piece_step.selected) blast+
  qed
  ultimately show ?thesis by blast
qed

lemma ts_step_simulates:
  assumes "ts_step strict fis ts ts'" and shape: "ts_shape l fis ts" and files: "\<forall>fi \<in> set fis. file_ok l fi"
  shows "ts_shape l fis ts' \<and> (\<forall>k < piece_count l. piece_step strict (view ts k) (view ts' k))"
proof -
  note D = ts_shapeD [OF shape]
  note pos = piece_count_bounds(1) [OF D(8)]
  show ?thesis using assms(1)
  proof cases
    case (acquire scale now req result pt')
    note A = acquire_piece_effect [OF D(1,5), of req scale now]
    have "aq_file_infos req = fis" "\<forall>p \<in> set (aq_priority_pieces req). valid_index (ct_lengths (ts_ct ts)) p"
      using acquire by simp_all
    with A acquire(2) files D(2,4) consider
        (same) "pt_chunks pt' = ts_ct ts" "inflight_keys pt' = inflight_keys (ts_pt ts)" "hm_ok (pt_inflight pt')"
      | (reserve) i where "valid_index l i" "reserves i (ts_pt ts) pt'"
        "ct_queue_pieces (ts_ct ts) ! unat (vpi_get i) \<or> i \<in> set (aq_priority_pieces req)
          \<and> \<not> ct_have (ts_ct ts) ! unat (vpi_get i) \<and> i \<notin> inflight_keys (ts_pt ts)"
      by auto
    then show ?thesis
    proof cases
      case same
      then have "view ts' k = view ts k" for k using acquire(1) by (simp add: view_def)
      then show ?thesis
        using same shape acquire(1) by (auto simp: ts_shape_def piece_step.stutter)
    next
      case reserve
      have "strict \<longrightarrow> i \<in> set (aq_priority_pieces req) \<longrightarrow> i \<notin># ts_checking ts" using acquire(5) by auto
      then show ?thesis
        using simulate_reserve [OF shape reserve(1,2), of strict] reserve(3) acquire(1) pos by blast
    qed
  next
    case (wrote now addr p ci outcome pt')
    from simulate_write [OF shape this] show ?thesis .
  next
    case (hash_ok i pt')
    from simulate_verified [OF shape this] show ?thesis .
  next
    case (hash_failed i pt')
    from simulate_broken [OF shape this] show ?thesis .
  next
    case (release peer n pt')
    from simulate_release [OF shape this] show ?thesis .
  next
    case (only_files only h pt')
    from simulate_only_files [OF shape this] show ?thesis .
  next
    case (file_have i file_id r pt')
    then obtain xs where "pt' = (ts_pt ts)\<lparr> pt_chunks := (ts_ct ts)\<lparr> ct_per_file_bytes := xs \<rparr> \<rparr>" "length xs = length fis"
      using D(4) by (auto simp: pt_update_file_have_def update_file_have_on_piece_completed_def Let_def split: if_splits)
    then have "view ts' k = view ts k" "ts_shape l fis ts'" for k
      using file_have(1) shape by (auto simp: view_def ts_shape_def ct_shape_def Let_def)
    then show ?thesis by (simp add: piece_step.stutter)
  qed
qed

section \<open>Reachable states\<close>

lemma ts_start:
  assumes new: "ct_new hv sel l fis = Inr ct" and hv: "length hv = 8 * piece_bitfield_bytes l"
    and wf: "wf_lengths l" and files: "\<forall>fi \<in> set fis. file_ok l fi"
  shows "ts_shape l fis \<lparr> ts_pt = pt_new ct, ts_checking = {#} \<rparr>"
    "k < piece_count l \<Longrightarrow> view \<lparr> ts_pt = pt_new ct, ts_checking = {#} \<rparr> k =
      \<lparr> pv_sel = sel ! k, pv_have = hv ! k, pv_queue = (sel ! k \<and> \<not> hv ! k), pv_complete = hv ! k,
        pv_inflight = False, pv_checking = 0 \<rparr>"
proof -
  have sel: "length sel = 8 * piece_bitfield_bytes l" using ct_new_lengths [OF new] hv by simp
  have C: "ct_inv ct" "files_exact fis ct" "ct_lengths ct = l" "ct_have ct = hv" "ct_selected ct = sel"
    "\<forall>k < piece_count l. ct_queue_pieces ct ! k \<longleftrightarrow> sel ! k \<and> \<not> hv ! k"
    "\<forall>k < piece_count l. \<forall>x. in_range (range_of l k) x \<longrightarrow> ct_chunk_status ct ! x = hv ! k"
    using ct_new_spec [OF wf hv sel files] new by auto
  have "length (ct_per_file_bytes ct) = length fis"
    using C(2) map_eq_imp_length_eq unfolding files_exact_def by blast
  then show "ts_shape l fis \<lparr> ts_pt = pt_new ct, ts_checking = {#} \<rparr>"
    using C(1,3) by (simp add: ts_shape_def pt_new_def ct_inv_def hm.invar_empty)
  assume k: "k < piece_count l"
  have "range_ones (ct_chunk_status ct) (range_of l k) \<longleftrightarrow> hv ! k"
    using C(7) k lay.nonempty [OF wf k] by (auto simp: range_ones_def)
  then show "view \<lparr> ts_pt = pt_new ct, ts_checking = {#} \<rparr> k =
      \<lparr> pv_sel = sel ! k, pv_have = hv ! k, pv_queue = (sel ! k \<and> \<not> hv ! k), pv_complete = hv ! k,
        pv_inflight = False, pv_checking = 0 \<rparr>"
    using C k by (simp add: view_def pt_new_def)
qed

lemma ts_reachable_shape:
  assumes "ts_reachable strict l fis ts" and wf: "wf_lengths l" and files: "\<forall>fi \<in> set fis. file_ok l fi"
  shows "ts_shape l fis ts"
  using assms(1)
proof induction
  case (start hv sel ct)
  then show ?case using ts_start(1) wf files by blast
next
  case (step ts ts')
  then show ?case using ts_step_simulates files by blast
qed

lemma ts_reachable_view:
  assumes "ts_reachable strict l fis ts" and wf: "wf_lengths l" and files: "\<forall>fi \<in> set fis. file_ok l fi"
    and k: "k < piece_count l"
  shows "pv_none_lost (view ts k)" "strict \<Longrightarrow> pv_exclusive (view ts k)"
proof -
  have "pv_none_lost (view ts k) \<and> (strict \<longrightarrow> pv_exclusive (view ts k))"
    using assms(1)
  proof induction
    case (start hv sel ct)
    then show ?case
      using ts_start(2) [OF start wf files k] by (simp add: pv_none_lost_def pv_exclusive_def)
  next
    case (step ts ts')
    have st: "piece_step strict (view ts k) (view ts' k)"
      using ts_step_simulates [OF step(2) ts_reachable_shape [OF step(1) wf files] files] k by blast
    have "pv_none_lost (view ts' k)" using piece_step_none_lost [OF st] step.IH by blast
    moreover have "pv_exclusive (view ts' k)" if strict
      using piece_step_exclusive [of "view ts k" "view ts' k"] st step.IH that by simp
    ultimately show ?case by blast
  qed
  then show "pv_none_lost (view ts k)" "strict \<Longrightarrow> pv_exclusive (view ts k)" by blast+
qed

text \<open>The sample torrent with piece 0 reserved for a peer.\<close>

definition sample_peer :: socket_addr where
  "sample_peer = sa_new (V4 0) 6881"

definition sample_request :: acquire_request where
  "sample_request = \<lparr> aq_peer = sample_peer, aq_peer_avg_time = None, aq_priority_pieces = [ValidPieceIndex 0],
     aq_file_priorities = [], aq_file_infos = [sample_file], aq_peer_has_piece = (\<lambda>_. True), aq_can_steal = (\<lambda>_. True) \<rparr>"

lemma sample_acquired:
  "\<exists>ct pt'. ct_new (replicate 8 False) (replicate 8 True) sample_lengths [sample_file] = Inr ct
     \<and> acquire_piece (\<lambda>_ _. 0) 0 sample_request (pt_new ct) = Inr (Reserved (ValidPieceIndex 0), pt')
     \<and> reserves (ValidPieceIndex 0) (pt_new ct) pt'
     \<and> ts_reachable strict sample_lengths [sample_file] \<lparr> ts_pt = pt_new ct, ts_checking = {#} \<rparr>
     \<and> ts_step strict [sample_file] \<lparr> ts_pt = pt_new ct, ts_checking = {#} \<rparr> \<lparr> ts_pt = pt', ts_checking = {#} \<rparr>"
proof -
  obtain ct where ct: "ct_new (replicate 8 False) (replicate 8 True) sample_lengths [sample_file] = Inr ct"
    "ct_have ct = replicate 8 False" "ct_lengths ct = sample_lengths"
    using sample_tracker by blast
  let ?ts = "\<lparr> ts_pt = pt_new ct, ts_checking = {#} \<rparr>"
  have len: "length (replicate 8 False) = 8 * piece_bitfield_bytes sample_lengths" by (simp add: sample_counts)
  have reach: "ts_reachable strict sample_lengths [sample_file] ?ts" by (rule ts_reachable.start [OF ct(1) len])
  have shape: "ts_shape sample_lengths [sample_file] ?ts" using ts_reachable_shape [OF reach] by simp
  have "ct_shape (pt_chunks (pt_new ct))" "hm_ok (pt_inflight (pt_new ct))" using ts_shapeD(1,5) [OF shape] by simp_all
  from reserve_piece_reserves [OF this(1) _ this(2), of "ValidPieceIndex 0" 0 sample_peer]
  obtain pt' where pt': "reserve_piece 0 (ValidPieceIndex 0) sample_peer (pt_new ct) = Inr (Reserved (ValidPieceIndex 0), pt')"
    "reserves (ValidPieceIndex 0) (pt_new ct) pt'"
    using ct(3) by (auto simp: pt_new_def)
  have run: "acquire_piece (\<lambda>_ _. 0) 0 sample_request (pt_new ct) = Inr (Reserved (ValidPieceIndex 0), pt')"
    using pt'(1) ct(2)
    by (simp add: acquire_piece_def try_steal_def sample_request_def is_piece_have_def get_bit_checked_def pt_new_def)
  have "ts_step strict [sample_file] ?ts (?ts\<lparr> ts_pt := pt' \<rparr>)"
    using run ct(3) by (intro ts_step.acquire [of "\<lambda>_ _. 0" 0 sample_request]) (auto simp: sample_request_def pt_new_def)
  then show ?thesis using ct(1) run pt'(2) reach by auto
qed

section \<open>Properties\<close>







text \<open>
  Without these conditions the states overlap. Deselecting and reselecting the file of a piece that a
  peer is downloading puts the piece back into the queue while it stays in the in-flight table, so that a
  second peer can reserve it.
\<close>
lemma piece_states_can_overlap:
  "\<exists>ts. ts_reachable False sample_lengths [sample_file] ts
     \<and> ct_queue_pieces (ts_ct ts) ! 0 \<and> is_inflight (vpi_of 0) (ts_pt ts)"
proof -
  obtain ct pt1 where r: "reserves (ValidPieceIndex 0) (pt_new ct) pt1"
    "ct_new (replicate 8 False) (replicate 8 True) sample_lengths [sample_file] = Inr ct"
    "ts_reachable False sample_lengths [sample_file] \<lparr> ts_pt = pt_new ct, ts_checking = {#} \<rparr>"
    "ts_step False [sample_file] \<lparr> ts_pt = pt_new ct, ts_checking = {#} \<rparr> \<lparr> ts_pt = pt1, ts_checking = {#} \<rparr>"
    using sample_acquired by blast
  let ?ts = "\<lambda>pt. \<lparr> ts_pt = pt, ts_checking = {#} \<rparr>"
  have reach1: "ts_reachable False sample_lengths [sample_file] (?ts pt1)" using r(3,4) by (rule ts_reachable.step)
  have next_state: "\<exists>pt'. ts_reachable False sample_lengths [sample_file] (?ts pt')
      \<and> pt_inflight pt' = pt_inflight pt \<and> ct_have (pt_chunks pt') = ct_have (pt_chunks pt)
      \<and> ct_selected (pt_chunks pt') ! 0 = (0 \<in> only)
      \<and> (0 \<in> only \<and> \<not> ct_selected (pt_chunks pt) ! 0 \<and> \<not> ct_have (pt_chunks pt) ! 0 \<longrightarrow> ct_queue_pieces (pt_chunks pt') ! 0)"
    if reach: "ts_reachable False sample_lengths [sample_file] (?ts pt)" for pt and only :: "nat set"
  proof -
    have shape: "ts_shape sample_lengths [sample_file] (?ts pt)" using ts_reachable_shape [OF reach] by simp
    obtain h ct' where U: "update_only_files [sample_file] only (pt_chunks pt) = Inr (h, ct')"
      "ct_have ct' = ct_have (pt_chunks pt)"
      "ct_selected ct' ! 0 = wanted_piece sample_lengths (\<lambda>i. i \<in> only) [sample_file] 0"
      "ct_queue_pieces ct' ! 0 =
             ((ct_have (pt_chunks pt) ! 0 \<or> ct_selected ct' ! 0)
              \<and> (ct_queue_pieces (pt_chunks pt) ! 0 \<or> ct_selected ct' ! 0 \<and> \<not> ct_selected (pt_chunks pt) ! 0 \<and> \<not> ct_have (pt_chunks pt) ! 0))"
      using update_only_files_spec [of "pt_chunks pt" "[sample_file]" only] ts_shapeD(1,2) [OF shape]
      by (auto simp: sample_counts)
    have sel: "wanted_piece sample_lengths (\<lambda>i. i \<in> only) [sample_file] 0 \<longleftrightarrow> 0 \<in> only"
      by (simp add: wanted_piece_def sample_file_def piece_range_usize_def sample_counts)
    let ?pt' = "pt\<lparr> pt_chunks := ct' \<rparr>"
    have "ts_step False [sample_file] (?ts pt) ((?ts pt)\<lparr> ts_pt := ?pt' \<rparr>)"
      by (rule ts_step.only_files [of _ only _ h]) (simp_all add: pt_update_only_files_def U(1))
    then have "ts_reachable False sample_lengths [sample_file] (?ts ?pt')"
      using ts_reachable.step [OF reach] by simp
    then show ?thesis using U(2-4) sel by (intro exI [of _ ?pt']) auto
  qed
  obtain pt2 where p2: "ts_reachable False sample_lengths [sample_file] (?ts pt2)"
    "pt_inflight pt2 = pt_inflight pt1" "ct_have (pt_chunks pt2) = ct_have (pt_chunks pt1)"
    "\<not> ct_selected (pt_chunks pt2) ! 0"
    using next_state [OF reach1, of "{}"] by auto
  obtain pt3 where p3: "ts_reachable False sample_lengths [sample_file] (?ts pt3)"
    "pt_inflight pt3 = pt_inflight pt1"
    "\<not> ct_have (pt_chunks pt1) ! 0 \<longrightarrow> ct_queue_pieces (pt_chunks pt3) ! 0"
    using next_state [OF p2(1), of "{0}"] p2 by auto
  have "ct_have ct = replicate 8 False" using r(2) sample_tracker by auto
  then have "\<not> ct_have (pt_chunks pt1) ! 0" "is_inflight (vpi_of 0) pt3"
    using r(1) p3(2) by (auto simp: reserves_def is_inflight_def map_of_eq_None_iff pt_new_def)
  then show ?thesis using p3 by (intro exI [of _ "?ts pt3"]) simp
qed

end
