(* ===== verification/Peer_Protocol_Correct.thy ===== *)
theory Peer_Protocol_Correct
  imports Peer_Protocol
begin

text \<open>
  Correctness of the peer wire protocol of theory \<open>Peer_Protocol\<close>: the wire format as a function,
  the serializer writes it, the decoder reads it back for every cut of the receive buffer, consumes
  exactly one frame and never panics.
\<close>

section \<open>The wire format\<close>

definition wire_frame :: "u8 \<Rightarrow> bytes \<Rightarrow> bytes" where
  "wire_frame msg_id body = to_be32 (of_nat (length body) + 1) @ msg_id # body"

definition wire_request :: "request \<Rightarrow> bytes" where
  "wire_request r = to_be32 (rq_index r) @ to_be32 (rq_begin r) @ to_be32 (rq_length r)"

fun wire :: "message \<Rightarrow> bytes" where
  "wire (Request r) = wire_frame MSGID_REQUEST (wire_request r)"
| "wire (Cancel r) = wire_frame MSGID_CANCEL (wire_request r)"
| "wire (RejectRequest r) = wire_frame MSGID_REJECT_REQUEST (wire_request r)"
| "wire (Bitfield b) = wire_frame MSGID_BITFIELD b"
| "wire KeepAlive = to_be32 0"
| "wire (Have v) = wire_frame MSGID_HAVE (to_be32 v)"
| "wire Choke = wire_frame MSGID_CHOKE []"
| "wire Unchoke = wire_frame MSGID_UNCHOKE []"
| "wire Interested = wire_frame MSGID_INTERESTED []"
| "wire NotInterested = wire_frame MSGID_NOT_INTERESTED []"
| "wire (Port p) = wire_frame MSGID_PORT (to_be16 p)"
| "wire (SuggestPiece p) = wire_frame MSGID_SUGGEST_PIECE (to_be32 p)"
| "wire HaveAll = wire_frame MSGID_HAVE_ALL []"
| "wire HaveNone = wire_frame MSGID_HAVE_NONE []"
| "wire (AllowedFast p) = wire_frame MSGID_ALLOWED_FAST (to_be32 p)"
| "wire (Piece p) =
     wire_frame MSGID_PIECE (to_be32 (pc_index p) @ to_be32 (pc_begin p) @ pc_block_0 p @ pc_block_1 p)"
| "wire (Extended e) = []"

fun is_extended :: "message \<Rightarrow> bool" where
  "is_extended (Extended e) = True"
| "is_extended _ = False"

text \<open>Writing front to back: what is written so far is a prefix of the slice.\<close>

lemma write_at_step:
  "length pre = n \<Longrightarrow> n + length src \<le> length out \<Longrightarrow>
   write_at n src (pre @ drop n out) = Inr ((pre @ src) @ drop (n + length src) out)"
  by (simp add: write_at_def add.commute)

lemma write_at_0: "length src \<le> length out \<Longrightarrow> write_at 0 src out = Inr (src @ drop (length src) out)"
  by (simp add: write_at_def)

lemma write_preamble_ok:
  "5 \<le> length out \<Longrightarrow> write_preamble n i out = Inr ((to_be32 (n + 1) @ [i]) @ drop 5 out)"
  by (simp add: write_preamble_def write_at_def)

lemmas ser_defs = serialize_request_def serialize_empty_def serialize_u32_def rq_serialize_def
  pc_serialize_def wire_frame_def wire_request_def len_defs pc_len_def Let_def

lemma serialize_wire:
  assumes "\<not> is_extended m" "length (wire m) \<le> length out"
  shows "msg_serialize m out ids = Inr (length (wire m), wire m @ drop (length (wire m)) out)"
proof -
  have 4: "write_at 0 (to_be32 0) out = Inr (to_be32 0 @ drop 4 out)" if "4 \<le> length out"
    using that write_at_0 [of "to_be32 0" out] by simp
  show ?thesis using assms
    by (cases m) (simp_all add: ser_defs check_len_def write_preamble_ok write_at_step 4 add_ac
        del: append_assoc)
qed

lemma serialize_no_space:
  "\<not> is_extended m \<Longrightarrow> length out < length (wire m) \<Longrightarrow> msg_serialize m out ids = Inl (Err NoSpaceInBuffer)"
  by (cases m) (simp_all add: ser_defs check_len_def)


section \<open>Decoding\<close>

text \<open>A message as the decoder returns it: the block of a piece may be cut in two.\<close>

fun msg_joined :: "message \<Rightarrow> message" where
  "msg_joined (Piece p) = Piece (pc_from_data (pc_index p) (pc_begin p) (pc_block_0 p @ pc_block_1 p))"
| "msg_joined m = m"

text \<open>Messages that fit the frame and that the decoder accepts.\<close>

fun msg_ok :: "message \<Rightarrow> bool" where
  "msg_ok (Bitfield b) \<longleftrightarrow> b \<noteq> [] \<and> length b < 2 ^ 32 - 1"
| "msg_ok (Piece p) \<longleftrightarrow> 0 < pc_len p \<and> pc_len p + 8 < 2 ^ 32 - 1"
| "msg_ok (Extended e) \<longleftrightarrow> False"
| "msg_ok m \<longleftrightarrow> True"

lemma frame_prefix:
  assumes "length body < 2 ^ 32 - 1"
  shows "unat (of_nat (length body) + 1 :: u32) = Suc (length body)"
proof -
  have e: "(of_nat (length body) + 1 :: u32) = of_nat (Suc (length body))" by simp
  show ?thesis unfolding e by (rule unat_small_u32) (use assms in simp)
qed

lemma length_wire_frame [simp]: "length (wire_frame i body) = 5 + length body"
  by (simp add: wire_frame_def)

lemma deserialize_frame:
  assumes "b0 @ b1 = wire_frame i body @ rest" "length body < 2 ^ 32 - 1"
  obtains p d where "msg_deserialize C b0 b1 = msg_deserialize_body C i p d"
    "unat p = Suc (length body)" "db_view d = body @ rest" "b1 = [] \<Longrightarrow> buf_1 d = []"
proof -
  let ?p = "of_nat (length body) + 1 :: u32"
  have v: "db_view (DoubleBufHelper_new b0 b1) = to_be32 ?p @ i # body @ rest"
    using assms(1) by (simp add: wire_frame_def)
  obtain d1 where d1: "read_u32_be (DoubleBufHelper_new b0 b1) = (Inr ?p, d1)" "db_view d1 = i # body @ rest"
    using read_u32_append [OF v] by blast
  obtain d where d: "read_u8 d1 = (Some i, d)" "db_view d = body @ rest"
    using read_u8_append [OF d1(2)] by blast
  have p: "unat ?p = Suc (length body)" by (rule frame_prefix [OF assms(2)])
  then have "?p \<noteq> 0" by (metis nat.distinct(1) unat_0)
  then have "msg_deserialize C b0 b1 = msg_deserialize_body C i ?p d"
    using d1(1) d p by (simp add: msg_deserialize_def)
  moreover have "b1 = [] \<Longrightarrow> buf_1 d = []"
    using d1(1) d(1)
    by (auto simp: read_u32_be_def consume_def read_u8_def DoubleBufHelper_new_def
        split: if_splits list.splits)
  ultimately show ?thesis using that d(2) p by blast
qed

lemma deserialize_simple:
  assumes "b0 @ b1 = wire_frame i body @ rest" "length body < 2 ^ 32 - 1"
    and "\<And>p d. unat p = Suc (length body) \<Longrightarrow> db_view d = body @ rest \<Longrightarrow>
      msg_deserialize_body C i p d = Inr (m, 5 + length body)"
  shows "msg_deserialize C b0 b1 = Inr (m, length (wire_frame i body))"
  using deserialize_frame [OF assms(1,2)] assms(3) by (metis length_wire_frame)

lemma consume_variable_append:
  assumes "db_view d = block @ rest" "length block = n"
  obtains x y d' where "consume_variable n d = (Inr (x, y), d')" "x @ y = block"
proof -
  have "take n (db_view d) = block" using assms by simp
  then have "take n (buf_0 d) @ take (n - length (buf_0 d)) (buf_1 d) = block"
    unfolding db_view_def take_append .
  then show ?thesis using that assms by (simp add: consume_variable_view)
qed

lemma msg_body_simps [simp]:
  "unwrap (Inr a, b) f = f a b"
  "check_msg_len n p i n k = k"
  by (simp_all add: unwrap_def check_msg_len_def)

lemma deserialize_body_empty:
  assumes "unat p = Suc 0"
  shows "msg_deserialize_body C MSGID_CHOKE p d = Inr (Choke, 5)"
    "msg_deserialize_body C MSGID_UNCHOKE p d = Inr (Unchoke, 5)"
    "msg_deserialize_body C MSGID_INTERESTED p d = Inr (Interested, 5)"
    "msg_deserialize_body C MSGID_NOT_INTERESTED p d = Inr (NotInterested, 5)"
    "msg_deserialize_body C MSGID_HAVE_ALL p d = Inr (HaveAll, 5)"
    "msg_deserialize_body C MSGID_HAVE_NONE p d = Inr (HaveNone, 5)"
  using assms by (simp_all add: msg_deserialize_body_def msgid_defs)

lemma deserialize_body_u32:
  assumes "unat p = 5" "db_view d = to_be32 v @ rest"
  shows "msg_deserialize_body C MSGID_HAVE p d = Inr (Have v, 9)"
    "msg_deserialize_body C MSGID_SUGGEST_PIECE p d = Inr (SuggestPiece v, 9)"
    "msg_deserialize_body C MSGID_ALLOWED_FAST p d = Inr (AllowedFast v, 9)"
proof -
  obtain d' where "read_u32_be d = (Inr v, d')" using read_u32_append [OF assms(2)] by blast
  then show "msg_deserialize_body C MSGID_HAVE p d = Inr (Have v, 9)"
    "msg_deserialize_body C MSGID_SUGGEST_PIECE p d = Inr (SuggestPiece v, 9)"
    "msg_deserialize_body C MSGID_ALLOWED_FAST p d = Inr (AllowedFast v, 9)"
    using assms(1) by (simp_all add: msg_deserialize_body_def msgid_defs)
qed

lemma deserialize_body_port:
  assumes "unat p = 3" "db_view d = to_be16 v @ rest"
  shows "msg_deserialize_body C MSGID_PORT p d = Inr (Port v, 7)"
proof -
  obtain d' where "consume 2 d = (Inr (to_be16 v), d')"
    using db.consume_append [OF assms(2), of 2] by auto
  then show ?thesis using assms(1) by (simp add: msg_deserialize_body_def msgid_defs)
qed

lemma deserialize_body_request:
  assumes "unat p = 13" "db_view d = wire_request r @ rest"
  shows "msg_deserialize_body C MSGID_REQUEST p d = Inr (Request r, 17)"
    "msg_deserialize_body C MSGID_CANCEL p d = Inr (Cancel r, 17)"
    "msg_deserialize_body C MSGID_REJECT_REQUEST p d = Inr (RejectRequest r, 17)"
proof -
  obtain d' where "consume 12 d = (Inr (wire_request r), d')"
    using db.consume_append [OF assms(2), of 12] by (auto simp: wire_request_def)
  then show "msg_deserialize_body C MSGID_REQUEST p d = Inr (Request r, 17)"
    "msg_deserialize_body C MSGID_CANCEL p d = Inr (Cancel r, 17)"
    "msg_deserialize_body C MSGID_REJECT_REQUEST p d = Inr (RejectRequest r, 17)"
    using assms(1) by (simp_all add: msg_deserialize_body_def msgid_defs wire_request_def)
qed

lemma deserialize_body_piece:
  assumes "unat p = 9 + length block" "block \<noteq> []"
    and "db_view d = (to_be32 index @ to_be32 begin @ block) @ rest"
  shows "\<exists>x y. x @ y = block \<and> msg_deserialize_body C MSGID_PIECE p d =
    Inr (Piece \<lparr> pc_index = index, pc_begin = begin, pc_block_0 = x, pc_block_1 = y \<rparr>, 13 + length block)"
proof -
  have v: "db_view d = to_be32 index @ to_be32 begin @ block @ rest" using assms(3) by simp
  obtain d1 where d1: "read_u32_be d = (Inr index, d1)" "db_view d1 = to_be32 begin @ block @ rest"
    using read_u32_append [OF v] by blast
  obtain d2 where d2: "read_u32_be d1 = (Inr begin, d2)" "db_view d2 = block @ rest"
    using read_u32_append [OF d1(2)] by blast
  obtain x y d3 where d3: "consume_variable (length block) d2 = (Inr (x, y), d3)" "x @ y = block"
    using consume_variable_append [OF d2(2)] by blast
  have "0 < length block" using assms(2) by simp
  then have "msg_deserialize_body C MSGID_PIECE p d =
      Inr (Piece \<lparr> pc_index = index, pc_begin = begin, pc_block_0 = x, pc_block_1 = y \<rparr>, 13 + length block)"
    using assms(1) d1(1) d2(1) d3(1)
    by (simp add: msg_deserialize_body_def msgid_defs INTEGER_LEN_def Let_def)
  then show ?thesis using d3(2) by blast
qed

lemma deserialize_body_bitfield:
  assumes "unat p = Suc (length b)" "b \<noteq> []" "db_view d = b @ rest"
  shows "msg_deserialize_body C MSGID_BITFIELD p d =
    (if get_contiguous d (length b) = None then Inl (Err NeedContiguous) else Inr (Bitfield b, 5 + length b))"
proof -
  have "0 < length b" using assms(2) by simp
  then show ?thesis
    using assms(1,3) get_contiguous_view [of d "length b"]
    by (auto simp: msg_deserialize_body_def msgid_defs Let_def split: option.split)
qed


lemma length_wire_request [simp]: "length (wire_request r) = 12"
  by (simp add: wire_request_def)

lemmas body_simps = deserialize_body_empty deserialize_body_u32 deserialize_body_port
  deserialize_body_request

lemma deserialize_wire_simple:
  assumes "msg_ok m" "b0 @ b1 = wire m @ rest" "\<forall>b. m \<noteq> Bitfield b" "\<forall>p. m \<noteq> Piece p"
  shows "msg_deserialize C b0 b1 = Inr (m, length (wire m))"
proof (cases m)
  case KeepAlive
  then have v: "db_view (DoubleBufHelper_new b0 b1) = to_be32 0 @ rest" using assms(2) by simp
  obtain d1 where "read_u32_be (DoubleBufHelper_new b0 b1) = (Inr 0, d1)"
    using read_u32_append [OF v] by blast
  then show ?thesis using KeepAlive by (simp add: msg_deserialize_def)
next
  case (Request r)
  then show ?thesis
    using assms(2) deserialize_simple [of b0 b1 MSGID_REQUEST "wire_request r" rest C m] by (simp add: body_simps)
next
  case (Cancel r)
  then show ?thesis
    using assms(2) deserialize_simple [of b0 b1 MSGID_CANCEL "wire_request r" rest C m] by (simp add: body_simps)
next
  case (RejectRequest r)
  then show ?thesis
    using assms(2) deserialize_simple [of b0 b1 MSGID_REJECT_REQUEST "wire_request r" rest C m] by (simp add: body_simps)
next
  case (Have v)
  then show ?thesis
    using assms(2) deserialize_simple [of b0 b1 MSGID_HAVE "to_be32 v" rest C m] by (simp add: body_simps)
next
  case (SuggestPiece v)
  then show ?thesis
    using assms(2) deserialize_simple [of b0 b1 MSGID_SUGGEST_PIECE "to_be32 v" rest C m] by (simp add: body_simps)
next
  case (AllowedFast v)
  then show ?thesis
    using assms(2) deserialize_simple [of b0 b1 MSGID_ALLOWED_FAST "to_be32 v" rest C m] by (simp add: body_simps)
next
  case (Port v)
  then show ?thesis
    using assms(2) deserialize_simple [of b0 b1 MSGID_PORT "to_be16 v" rest C m] by (simp add: body_simps)
next
  case Choke
  then show ?thesis
    using assms(2) deserialize_simple [of b0 b1 MSGID_CHOKE "[]" rest C m] by (simp add: body_simps)
next
  case Unchoke
  then show ?thesis
    using assms(2) deserialize_simple [of b0 b1 MSGID_UNCHOKE "[]" rest C m] by (simp add: body_simps)
next
  case Interested
  then show ?thesis
    using assms(2) deserialize_simple [of b0 b1 MSGID_INTERESTED "[]" rest C m] by (simp add: body_simps)
next
  case NotInterested
  then show ?thesis
    using assms(2) deserialize_simple [of b0 b1 MSGID_NOT_INTERESTED "[]" rest C m] by (simp add: body_simps)
next
  case HaveAll
  then show ?thesis
    using assms(2) deserialize_simple [of b0 b1 MSGID_HAVE_ALL "[]" rest C m] by (simp add: body_simps)
next
  case HaveNone
  then show ?thesis
    using assms(2) deserialize_simple [of b0 b1 MSGID_HAVE_NONE "[]" rest C m] by (simp add: body_simps)
qed (use assms in simp_all)

lemma deserialize_wire:
  assumes ok: "msg_ok m" and v: "b0 @ b1 = wire m @ rest"
  shows "(\<exists>m'. msg_deserialize C b0 b1 = Inr (m', length (wire m)) \<and> msg_joined m' = msg_joined m) \<or>
    (\<exists>b. m = Bitfield b \<and> b1 \<noteq> [] \<and> msg_deserialize C b0 b1 = Inl (Err NeedContiguous))"
proof -
  consider b where "m = Bitfield b" | p where "m = Piece p" | "\<forall>b. m \<noteq> Bitfield b" "\<forall>p. m \<noteq> Piece p"
    by blast
  then show ?thesis
  proof cases
    case 1
    then have w: "b0 @ b1 = wire_frame MSGID_BITFIELD b @ rest" and b: "b \<noteq> []" "length b < 2 ^ 32 - 1"
      using ok v by simp_all
    obtain p d where d: "msg_deserialize C b0 b1 = msg_deserialize_body C MSGID_BITFIELD p d"
      "unat p = Suc (length b)" "db_view d = b @ rest" "b1 = [] \<Longrightarrow> buf_1 d = []"
      using deserialize_frame [OF w b(2)] by blast
    have "get_contiguous d (length b) \<noteq> None" if "b1 = []"
      using d(3) d(4) [OF that] by (auto simp: get_contiguous_def db_view_def)
    then show ?thesis
      using d(1) deserialize_body_bitfield [OF d(2) b(1) d(3)] 1 by auto
  next
    case 2
    let ?blk = "pc_block_0 p @ pc_block_1 p"
    let ?body = "to_be32 (pc_index p) @ to_be32 (pc_begin p) @ ?blk"
    have w: "b0 @ b1 = wire_frame MSGID_PIECE ?body @ rest" and l: "?blk \<noteq> []" "length ?body < 2 ^ 32 - 1"
      using ok v 2 by (auto simp: pc_len_def)
    obtain q d where d: "msg_deserialize C b0 b1 = msg_deserialize_body C MSGID_PIECE q d"
      "unat q = Suc (length ?body)" "db_view d = ?body @ rest"
      using deserialize_frame [OF w l(2)] by blast
    have "unat q = 9 + length ?blk" unfolding d(2) by simp
    from deserialize_body_piece [OF this l(1) d(3)] obtain x y where xy: "x @ y = ?blk"
      "msg_deserialize C b0 b1 = Inr (Piece \<lparr> pc_index = pc_index p, pc_begin = pc_begin p,
         pc_block_0 = x, pc_block_1 = y \<rparr>, 13 + length ?blk)"
      unfolding d(1) by blast
    then show ?thesis using 2 by (auto simp: pc_from_data_def)
  next
    case 3
    then show ?thesis using deserialize_wire_simple [OF ok v] by blast
  qed
qed

section \<open>Frames\<close>

lemma no_panic_if: "(b \<Longrightarrow> no_panic x) \<Longrightarrow> (\<not> b \<Longrightarrow> no_panic y) \<Longrightarrow> no_panic (if b then x else y)"
  by simp

lemma unwrap_no_panic: "\<exists>a b. r = (Inr a, b) \<and> no_panic (f a b) \<Longrightarrow> no_panic (unwrap r f)"
  by (auto simp: unwrap_def)

lemma check_no_panic: "(n = e \<Longrightarrow> no_panic k) \<Longrightarrow> no_panic (check_msg_len n p i e k)"
  by (simp add: check_msg_len_def)

lemma read_u32_enough:
  "4 \<le> length (db_view d) \<Longrightarrow> \<exists>w d'. read_u32_be d = (Inr w, d') \<and> db_view d' = drop 4 (db_view d) \<and>
     w = from_be32 (take 4 (db_view d))"
  using db.consume_enough [of 4 d] by (cases "consume 4 d") (auto simp: read_u32_be_def)

lemma consume_enough_ex: "n \<le> length (db_view d) \<Longrightarrow> \<exists>x d'. consume n d = (Inr x, d')"
  using db.consume_enough [of n d] by (cases "consume n d") auto

lemma u32_no_panic:
  assumes "n \<le> length (db_view d)"
  shows "no_panic (check_msg_len n p i 4 (unwrap (read_u32_be d) (\<lambda>h _. Inr (f h))))"
proof (rule check_no_panic)
  assume "n = 4"
  then obtain w d' where "read_u32_be d = (Inr w, d')" using assms read_u32_enough [of d] by auto
  then show "no_panic (unwrap (read_u32_be d) (\<lambda>h _. Inr (f h)))" by simp
qed

lemma consume_no_panic:
  assumes "n \<le> length (db_view d)"
  shows "no_panic (check_msg_len n p i k (unwrap (consume k d) (\<lambda>h _. Inr (f h))))"
proof (rule check_no_panic)
  assume "n = k"
  then obtain w d' where "consume k d = (Inr w, d')" using assms consume_enough_ex by blast
  then show "no_panic (unwrap (consume k d) (\<lambda>h _. Inr (f h)))" by simp
qed

lemma piece_no_panic:
  assumes "n \<le> length (db_view d)" "\<not> n < INTEGER_LEN * 2 + 1"
  shows "no_panic (unwrap (read_u32_be d) (\<lambda>index buf. unwrap (read_u32_be buf) (\<lambda>begin buf.
      unwrap (consume_variable (n - INTEGER_LEN * 2) buf) (\<lambda>(b0, b1) _. Inr (g index begin b0 b1)))))"
proof -
  have n: "9 \<le> n" using assms(2) by (simp add: INTEGER_LEN_def)
  then obtain w1 d1 where 1: "read_u32_be d = (Inr w1, d1)" "db_view d1 = drop 4 (db_view d)"
    using assms(1) read_u32_enough [of d] by auto
  have "4 \<le> length (db_view d1)" unfolding 1(2) length_drop using n assms(1) by linarith
  then obtain w2 d2 where 2: "read_u32_be d1 = (Inr w2, d2)" "db_view d2 = drop 8 (db_view d)"
    using 1(2) read_u32_enough [of d1] by auto
  have "\<not> length (db_view d2) < n - INTEGER_LEN * 2"
    using 2(2) assms(1) by (simp add: INTEGER_LEN_def)
  then show ?thesis using 1(1) 2(1) by (simp add: consume_variable_view)
qed

lemma body_no_panic:
  assumes "unat p - 1 \<le> length (db_view d)"
  shows "no_panic (msg_deserialize_body C i p d)"
  unfolding msg_deserialize_body_def Let_def
  by (intro no_panic_if u32_no_panic consume_no_panic piece_no_panic no_panic_rbind
      ext_deserialize_no_panic assms)
    (simp_all add: check_no_panic split: option.split)

definition total_is :: "nat \<Rightarrow> (message \<times> nat, msg_de_error) rust \<Rightarrow> bool" where
  "total_is n r \<longleftrightarrow> (\<forall>m k. r = Inr (m, k) \<longrightarrow> k = n)"

lemma total_is_simps [simp]: "total_is n (Inr (m, n))" "total_is n (Inl e)"
  by (simp_all add: total_is_def)

lemma total_is_if: "total_is n x \<Longrightarrow> total_is n y \<Longrightarrow> total_is n (if b then x else y)"
  by simp

lemma total_is_check: "total_is n x \<Longrightarrow> total_is n (check_msg_len l p i e x)"
  by (simp add: check_msg_len_def)

lemma total_is_unwrap: "(\<And>a b. total_is n (f a b)) \<Longrightarrow> total_is n (unwrap r f)"
  by (simp add: unwrap_def split: prod.split sum.split)

lemma total_is_rbind: "(\<And>a. total_is n (f a)) \<Longrightarrow> total_is n (rbind r f)"
  by (cases r) simp_all

lemma body_total_len:
  assumes "unat p = Suc q"
  shows "total_is (unat p + 4) (msg_deserialize_body C i p d)"
proof -
  have "PREAMBLE_LEN + (unat p - 1) = unat p + 4" using assms by (simp add: len_defs)
  then show ?thesis
    unfolding msg_deserialize_body_def Let_def
    by (intro total_is_if total_is_check total_is_unwrap total_is_rbind) (simp_all split: option.split prod.split)
qed

lemma deserialize_no_panic: "no_panic (msg_deserialize C b0 b1)"
proof -
  obtain r d1 where 1: "read_u32_be (DoubleBufHelper_new b0 b1) = (r, d1)" by (cases "read_u32_be (DoubleBufHelper_new b0 b1)")
  show ?thesis
  proof (cases r)
    case (Inr w)
    obtain i d where 2: "read_u8 d1 = (i, d)" by (cases "read_u8 d1")
    have "no_panic (msg_deserialize_body C k w d)" if "\<not> db_len d < unat w - 1" for k
      using that by (intro body_no_panic) simp
    then show ?thesis using 1 2 Inr by (simp add: msg_deserialize_def Let_def split: option.split)
  qed (use 1 in \<open>simp add: msg_deserialize_def\<close>)
qed

lemma deserialize_frame_len:
  assumes "msg_deserialize C b0 b1 = Inr (m, n)"
  shows "4 \<le> length (b0 @ b1) \<and> n = unat (from_be32 (take 4 (b0 @ b1))) + 4 \<and> n \<le> length (b0 @ b1)"
proof -
  let ?d = "DoubleBufHelper_new b0 b1"
  have 4: "4 \<le> length (b0 @ b1)"
  proof (rule ccontr)
    assume "\<not> ?thesis"
    then have "consume 4 ?d = (Inl (4 - length (b0 @ b1)), ?d)" using db.consume_short [of ?d 4] by simp
    then show False using assms by (simp add: msg_deserialize_def read_u32_be_def)
  qed
  then obtain w d1 where d1: "read_u32_be ?d = (Inr w, d1)" "db_view d1 = drop 4 (b0 @ b1)"
    "w = from_be32 (take 4 (b0 @ b1))"
    using read_u32_enough [of ?d] by auto
  show ?thesis
  proof (cases "w = 0")
    case True
    then show ?thesis using assms d1 4 by (simp add: msg_deserialize_def)
  next
    case False
    then obtain q where w: "unat w = Suc q" using unat_0_iff [of w] by (cases "unat w") auto
    have "read_u8 d1 \<noteq> (None, d1)"
      using assms d1(1) False by (auto simp: msg_deserialize_def)
    then obtain i d where d: "read_u8 d1 = (Some i, d)" and v: "db_view d1 = i # db_view d"
      using read_u8_view [of d1] by blast
    have "unat w - 1 \<le> length (db_view d)" "msg_deserialize_body C i w d = Inr (m, n)"
      using assms d1(1) False d by (auto simp: msg_deserialize_def Let_def split: if_splits)
    moreover have "length (db_view d1) = Suc (length (db_view d))" using v by simp
    then have "length (b0 @ b1) = 5 + length (db_view d)" using 4 unfolding d1(2) length_drop by linarith
    ultimately show ?thesis using body_total_len [OF w, of C i d] w d1(3) by (simp add: total_is_def)
  qed
qed

section \<open>Properties\<close>

text \<open>
  C3: every message of the protocol other than an extension message, once serialized into a slice
  that is large enough, is read back from the written bytes and whatever follows them, wherever the
  receive buffer is cut; the number of consumed bytes is the number of written ones. A bit field
  whose bytes are cut is reported as not contiguous instead.
\<close>

theorem message_roundtrip:
  assumes "msg_ok m" and "length (wire m) \<le> length out"
  shows "\<exists>out'. msg_serialize m out ids = Inr (length (wire m), out')
    \<and> drop (length (wire m)) out' = drop (length (wire m)) out
    \<and> (\<forall>b0 b1 rest. b0 @ b1 = take (length (wire m)) out' @ rest \<longrightarrow>
        (\<exists>m'. msg_deserialize C b0 b1 = Inr (m', length (wire m)) \<and> msg_joined m' = msg_joined m) \<or>
        (\<exists>b. m = Bitfield b \<and> b1 \<noteq> [] \<and> msg_deserialize C b0 b1 = Inl (Err NeedContiguous)))"
proof -
  have "\<not> is_extended m" using assms(1) by (cases m) auto
  then have s: "msg_serialize m out ids = Inr (length (wire m), wire m @ drop (length (wire m)) out)"
    by (rule serialize_wire [OF _ assms(2)])
  have t: "take (length (wire m)) (wire m @ drop (length (wire m)) out) = wire m" by simp
  show ?thesis
    by (rule exI [of _ "wire m @ drop (length (wire m)) out"], unfold t)
      (intro conjI allI impI s deserialize_wire [OF assms(1)]; simp)
qed

definition no_codecs :: ext_codecs where
  "no_codecs = \<lparr> ec_atoi = atoi_ref, ec_handshake = \<lambda>_. Inl NotSupported, ec_pex = \<lambda>_. Inl NotSupported,
     ec_um_header = um_header_ref \<rparr>"

theorem message_roundtrip_witness:
  "\<exists>out'. msg_serialize (Have 7) (replicate 10 0) my_ids = Inr (length (wire (Have 7)), out')
    \<and> drop (length (wire (Have 7))) out' = drop (length (wire (Have 7))) (replicate 10 0)
    \<and> (\<forall>b0 b1 rest. b0 @ b1 = take (length (wire (Have 7))) out' @ rest \<longrightarrow>
        (\<exists>m'. msg_deserialize no_codecs b0 b1 = Inr (m', length (wire (Have 7))) \<and> msg_joined m' = msg_joined (Have 7)) \<or>
        (\<exists>b. Have 7 = Bitfield b \<and> b1 \<noteq> [] \<and> msg_deserialize no_codecs b0 b1 = Inl (Err NeedContiguous)))"
  by (rule message_roundtrip) simp_all


text \<open>
  C33: when the decoder returns a message, the consumed length is the length prefix plus its own
  four bytes, and all of it is in the buffer: the receive loop never skips bytes it has not read.
\<close>

theorem message_frame_exact:
  assumes "msg_deserialize C b0 b1 = Inr (m, n)"
  shows "n = unat (from_be32 (take 4 (b0 @ b1))) + 4 \<and> n \<le> length (b0 @ b1)"
  using deserialize_frame_len [OF assms] by blast

theorem message_frame_exact_witness:
  "msg_deserialize no_codecs [0, 0, 0] [1, 0, 9] = Inr (Choke, 5) \<and>
   5 = unat (from_be32 (take 4 ([0, 0, 0] @ [1, 0, 9]))) + 4 \<and> (5 :: nat) \<le> length ([0, 0, 0] @ [1, 0, 9 :: u8])"
proof -
  have "msg_deserialize no_codecs [0, 0, 0] [1, 0, 9] = Inr (Choke, 5)"
    using deserialize_wire_simple [of Choke "[0, 0, 0]" "[1, 0, 9]" "[9]" no_codecs]
    by (simp add: wire_frame_def to_be32_def MSGID_CHOKE_def be_digits_numeral)
  with message_frame_exact [OF this] show ?thesis by blast
qed

text \<open>
  An extension message without an extension id is complete on the wire, but the decoder
  answers that one more byte is needed, whatever bytes follow: the receive loop waits for data that
  can never help.
\<close>

lemma empty_extended_message_stalls:
  "msg_deserialize C ([0, 0, 0, 1, 20] @ rest) [] = Inl (Err (NotEnoughData 1 (Some MSGID_EXTENDED)))"
proof -
  have w: "([0, 0, 0, 1, 20] @ rest) @ [] = wire_frame MSGID_EXTENDED [] @ rest"
    by (simp add: wire_frame_def to_be32_def MSGID_EXTENDED_def be_digits_numeral)
  obtain p d where d: "msg_deserialize C ([0, 0, 0, 1, 20] @ rest) [] = msg_deserialize_body C MSGID_EXTENDED p d"
    "unat p = Suc 0"
    by (rule deserialize_frame [OF w, of C]) simp_all
  have "read_u8 (with_max_len d 0) = (None, with_max_len d 0)"
    by (simp add: with_max_len_def read_u8_def)
  then show ?thesis unfolding d(1) using d(2)
    by (simp add: msg_deserialize_body_def msgid_defs ext_deserialize_def)
qed

lemma hs_roundtrip_lemma:
  assumes "length (hs_info_hash h) = 20" "length (hs_peer_id h) = 20" "68 \<le> length buf"
  shows "hs_serialize h buf = Inr (68, [19] @ PSTR_BT1 @ to_be64 (hs_reserved h) @ hs_info_hash h @ hs_peer_id h @ drop 68 buf)"
    "hs_deserialize ([19] @ PSTR_BT1 @ to_be64 (hs_reserved h) @ hs_info_hash h @ hs_peer_id h @ rest) = Inr (h, 68)"
proof -
  have l: "length PSTR_BT1 = 19" by (simp add: PSTR_BT1_def ascii_def)
  show "hs_serialize h buf = Inr (68, [19] @ PSTR_BT1 @ to_be64 (hs_reserved h) @ hs_info_hash h @ hs_peer_id h @ drop 68 buf)"
    using assms l by (simp add: hs_serialize_def write_at_def)
  show "hs_deserialize ([19] @ PSTR_BT1 @ to_be64 (hs_reserved h) @ hs_info_hash h @ hs_peer_id h @ rest) = Inr (h, 68)"
    using assms l by (simp add: hs_deserialize_def Let_def)
qed

text \<open>
  A handshake is read back from the 68 bytes it was written as, and the handshake this client
  builds announces the extension protocol, DHT and the fast extension.
\<close>

lemma handshake_roundtrip:
  assumes "length info_hash = 20" and "length peer_id = 20" and "68 \<le> length buf"
  shows "\<exists>out. hs_serialize (hs_new info_hash peer_id) buf = Inr (68, out)
    \<and> hs_deserialize (take 68 out @ rest) = Inr (hs_new info_hash peer_id, 68)
    \<and> supports_extended (hs_new info_hash peer_id) \<and> supports_dht (hs_new info_hash peer_id)
    \<and> supports_fast (hs_new info_hash peer_id)"
proof -
  let ?h = "hs_new info_hash peer_id"
  have h: "length (hs_info_hash ?h) = 20" "length (hs_peer_id ?h) = 20" "hs_reserved ?h = 0x100005"
    using assms by (simp_all add: hs_new_def)
  have l: "length PSTR_BT1 = 19" by (simp add: PSTR_BT1_def ascii_def)
  note s = hs_roundtrip_lemma [OF h(1,2) assms(3)]
  have "take 68 ([19] @ PSTR_BT1 @ to_be64 (hs_reserved ?h) @ hs_info_hash ?h @ hs_peer_id ?h @ drop 68 buf) =
      [19] @ PSTR_BT1 @ to_be64 (hs_reserved ?h) @ hs_info_hash ?h @ hs_peer_id ?h"
    using h l by simp
  then have "hs_deserialize (take 68 ([19] @ PSTR_BT1 @ to_be64 (hs_reserved ?h) @ hs_info_hash ?h @ hs_peer_id ?h @ drop 68 buf) @ rest)
      = Inr (?h, 68)"
    using s(2) by simp
  moreover have "supports_extended ?h" "supports_dht ?h" "supports_fast ?h"
    by (simp_all add: supports_extended_def supports_dht_def supports_fast_def h(3) to_be64_def be_digits_numeral)
  ultimately show ?thesis using s(1) by blast
qed

theorem handshake_roundtrip_witness:
  "\<exists>out. hs_serialize (hs_new (replicate 20 1) (replicate 20 2)) (replicate 70 0) = Inr (68, out)
    \<and> hs_deserialize (take 68 out @ [3]) = Inr (hs_new (replicate 20 1) (replicate 20 2), 68)
    \<and> supports_extended (hs_new (replicate 20 1) (replicate 20 2))
    \<and> supports_dht (hs_new (replicate 20 1) (replicate 20 2))
    \<and> supports_fast (hs_new (replicate 20 1) (replicate 20 2))"
  by (rule handshake_roundtrip) simp_all



end
