(* ===== verification/Hash_Id.thy ===== *)
theory Hash_Id
  imports Wire_Bytes "HOL-Library.List_Lexorder"
begin

text \<open>
  Identifiers, \<^verbatim>\<open>crates/librtbit-core/src/hash_id.rs\<close>. An \<^verbatim>\<open>Id<N>\<close> is an array of \<open>N\<close> bytes and its
  derived order is the lexicographic order of the bytes. The lemmas relate the operations to the number
  that the bytes spell in big-endian order. Decoding of hexadecimal and base 32 strings is done by other
  crates and a parameter.
\<close>

unbundle bit_operations_syntax

type_synonym id = bytes

datatype id_error = BufferLength nat nat | HexError | Base32Error | StringLength nat nat

definition id_from_bytes :: "nat \<Rightarrow> bytes \<Rightarrow> (id, id_error) rust" where
  "id_from_bytes N b = (if length b \<noteq> N then Inl (Err (BufferLength N (length b))) else Inr b)"

definition id_distance :: "id \<Rightarrow> id \<Rightarrow> id" where
  "id_distance a b = map2 (XOR) a b"

definition bit_mask :: "u8 \<Rightarrow> u8" where
  "bit_mask n = push_bit (unat (7 - n mod 8)) 1"

definition id_get_bit :: "id \<Rightarrow> u8 \<Rightarrow> (bool, unit) rust" where
  "id_get_bit a n =
     (let i = unat (n div 8) in if i < length a then Inr (a ! i AND bit_mask n > 0) else Inl Panic)"

definition id_set_bit :: "id \<Rightarrow> u8 \<Rightarrow> bool \<Rightarrow> (id, unit) rust" where
  "id_set_bit a n value =
     (let i = unat (n div 8)
      in if i < length a
         then Inr (a[i := (if value then a ! i OR bit_mask n else a ! i AND NOT (bit_mask n))])
         else Inl Panic)"

definition id_set_bits_range :: "id \<Rightarrow> u8 \<times> u8 \<Rightarrow> bool \<Rightarrow> (id, unit) rust" where
  "id_set_bits_range a r value =
     rfold (\<lambda>a n. id_set_bit a (of_nat n) value) a [unat (fst r)..<unat (snd r)]"

text \<open>
  \<^verbatim>\<open>from_str\<close>. The base 32 size is computed as \<^verbatim>\<open>(N / 5).ceil() * 8\<close> in floating point, which is exact for
  the sizes in use. \<^verbatim>\<open>copy_from_slice\<close> panics when the decoded bytes have another length.
\<close>

definition id_from_str ::
  "(bytes \<Rightarrow> bytes option) \<Rightarrow> (bytes \<Rightarrow> bytes option) \<Rightarrow> nat \<Rightarrow> bytes \<Rightarrow> (id, id_error) rust" where
  "id_from_str hex_decode base32_decode N s =
     (let base32_encoded_size = nceil N 5 * 8
      in if length s = N * 2
         then (case hex_decode s of None \<Rightarrow> Inl (Err HexError) | Some out \<Rightarrow> Inr out)
         else if length s = base32_encoded_size
         then (case base32_decode s of
                 None \<Rightarrow> Inl (Err Base32Error)
               | Some decoded \<Rightarrow> if length decoded = N then Inr decoded else Inl Panic)
         else Inl (Err (StringLength (N * 2) base32_encoded_size)))"

definition truncate_for_dht :: "id \<Rightarrow> id" where
  "truncate_for_dht a = take 20 a"

text \<open>
  A base 32 string with padding decodes to fewer bytes than its length suggests: 24 digits followed by
  \<^verbatim>\<open>AA======\<close> have the length expected for 20 bytes and encode 16.
\<close>

lemma id_from_str_padded_panics:
  assumes "length s \<noteq> N * 2" and "length s = nceil N 5 * 8" and "base32_decode s = Some d" and "length d \<noteq> N"
  shows "id_from_str hex_decode base32_decode N s = Inl Panic"
  using assms by (simp add: id_from_str_def Let_def)

section \<open>Order\<close>

lemma be_value_Cons: "be_value (b # bs) = unat b * 256 ^ length bs + be_value bs"
proof (induction bs rule: rev_induct)
  case Nil
  show ?case by (simp add: be_value_def)
next
  case (snoc x xs)
  have "be_value (b # xs @ [x]) = be_value (b # xs) * 256 + unat x"
    using be_value_snoc [of "b # xs" x] by simp
  then show ?case using snoc by (simp add: be_value_snoc algebra_simps)
qed

lemma be_value_inject: "length a = length b \<Longrightarrow> be_value a = be_value b \<longleftrightarrow> a = b"
  using be_digits_value [of a] be_digits_value [of b] by metis

lemma be_value_less: "length a = length b \<Longrightarrow> a < b \<longleftrightarrow> be_value a < be_value b"
proof (induction a arbitrary: b)
  case Nil
  then show ?case by simp
next
  case (Cons x xs)
  then obtain y ys where b: "b = y # ys" and len: "length xs = length ys" by (cases b) auto
  have bx: "be_value xs < 256 ^ length ys" "be_value ys < 256 ^ length ys"
    using be_value_bound [of xs] be_value_bound [of ys] len by simp_all
  have IH: "xs < ys \<longleftrightarrow> be_value xs < be_value ys" using Cons.IH [OF len] .
  consider "x < y" | "x = y" | "y < x" by (metis less_linear)
  then show ?case
  proof cases
    case 1
    then have "Suc (unat x) \<le> unat y" by (simp add: word_less_nat_alt Suc_le_eq)
    then have "Suc (unat x) * 256 ^ length ys \<le> unat y * 256 ^ length ys" by (rule mult_le_mono1)
    then have "unat x * 256 ^ length ys + be_value xs < unat y * 256 ^ length ys + be_value ys" using bx by simp
    then show ?thesis using 1 b len by (simp add: be_value_Cons)
  next
    case 2
    then show ?thesis using b len IH by (simp add: be_value_Cons)
  next
    case 3
    then have "Suc (unat y) \<le> unat x" by (simp add: word_less_nat_alt Suc_le_eq)
    then have "Suc (unat y) * 256 ^ length ys \<le> unat x * 256 ^ length ys" by (rule mult_le_mono1)
    then have "unat y * 256 ^ length ys + be_value ys < unat x * 256 ^ length ys + be_value xs" using bx by simp
    then show ?thesis using 3 b len by (auto simp: be_value_Cons)
  qed
qed

lemma be_value_le: "length a = length b \<Longrightarrow> a \<le> b \<longleftrightarrow> be_value a \<le> be_value b"
  using be_value_less [of b a] by (simp add: not_less [symmetric])

section \<open>Bits\<close>

lemma bit_mult_add:
  fixes m b :: nat
  assumes "b < 2 ^ j"
  shows "bit (m * 2 ^ j + b) k = (if k < j then bit b k else bit m (k - j))"
proof -
  have "take_bit j (m * 2 ^ j + b) = b" "drop_bit j (m * 2 ^ j + b) = m"
    using assms by (simp_all add: take_bit_eq_mod drop_bit_eq_div)
  moreover have "bit (m * 2 ^ j + b) k =
      (if k < j then bit (take_bit j (m * 2 ^ j + b)) k else bit (drop_bit j (m * 2 ^ j + b)) (k - j))"
    by (simp add: bit_take_bit_iff bit_drop_bit_eq)
  ultimately show ?thesis by metis
qed

lemmas bit_mult_add_byte = bit_mult_add [of _ 8, simplified]

text \<open>Bit number \<open>k\<close> of the value, counted from the least significant one.\<close>

lemma bit_be_value:
  assumes "k < 8 * length a"
  shows "bit (be_value a) k = bit (a ! (length a - 1 - k div 8)) (k mod 8)"
  using assms
proof (induction a arbitrary: k rule: rev_induct)
  case (snoc b bs)
  have b: "unat b < 256" using unsigned_less [of b] by simp
  show ?case
  proof (cases "k < 8")
    case True
    then show ?thesis by (simp add: be_value_snoc bit_mult_add_byte [OF b] bit_unsigned_iff)
  next
    case False
    have j: "k - 8 < 8 * length bs" using snoc.prems False by simp
    have "(k - 8) div 8 = k div 8 - 1" "(k - 8) mod 8 = k mod 8" using False by (simp_all add: le_div_geq le_mod_geq)
    moreover have "length (bs @ [b]) - 1 - k div 8 = length bs - 1 - (k div 8 - 1)" "length bs - 1 - (k div 8 - 1) < length bs"
      using j False by (simp_all add: div_greater_zero_iff)
    ultimately show ?thesis
      using False snoc.IH [OF j] by (simp add: be_value_snoc bit_mult_add_byte [OF b] nth_append)
  qed
qed simp

lemma bit_be_value_out: "8 * length a \<le> k \<Longrightarrow> \<not> bit (be_value a) k"
proof -
  assume k: "8 * length a \<le> k"
  have "be_value a < 2 ^ (8 * length a)" using be_value_bound [of a] by (simp add: power_mult)
  also have "\<dots> \<le> 2 ^ k" using k by (intro power_increasing) simp_all
  finally show ?thesis by (simp add: bit_iff_odd)
qed

text \<open>Bit \<open>n\<close> of an identifier counts from its most significant bit.\<close>

abbreviation bit_pos :: "id \<Rightarrow> u8 \<Rightarrow> nat" where
  "bit_pos a n \<equiv> 8 * length a - 1 - unat n"

lemma u8_div_mod: "unat (n div 8 :: u8) = unat n div 8" "unat (7 - n mod 8 :: u8) = 7 - unat n mod 8"
proof -
  show "unat (n div 8 :: u8) = unat n div 8" by (simp add: unat_div)
  have m: "unat (n mod 8 :: u8) = unat n mod 8" by (simp add: unat_mod)
  then have "n mod 8 \<le> (7 :: u8)" by (simp add: word_le_nat_alt)
  then show "unat (7 - n mod 8 :: u8) = 7 - unat n mod 8" using m by (simp add: unat_sub)
qed

lemma bit_pos_split:
  assumes "unat n < 8 * length a"
  shows "bit_pos a n div 8 = length a - 1 - unat n div 8" and "bit_pos a n mod 8 = 7 - unat n mod 8"
proof -
  have "bit_pos a n = 8 * (length a - 1 - unat n div 8) + (7 - unat n mod 8)"
  proof -
    define q m where "q = unat n div 8" and "m = unat n mod 8"
    have "unat n = 8 * q + m" "m < 8" "q < length a" using assms by (simp_all add: q_def m_def)
    then show ?thesis unfolding q_def [symmetric] m_def [symmetric] by linarith
  qed
  moreover have "7 - unat n mod 8 < 8" by simp
  moreover have "x div 8 = y \<and> x mod 8 = r" if "x = 8 * y + r" "r < 8" for x y r :: nat using that by simp
  ultimately show "bit_pos a n div 8 = length a - 1 - unat n div 8" "bit_pos a n mod 8 = 7 - unat n mod 8"
    by blast+
qed

lemma bit_bit_mask: "bit (bit_mask n) k \<longleftrightarrow> k = 7 - unat n mod 8"
proof -
  have "7 - unat n mod 8 < LENGTH(8)" by simp
  then show ?thesis by (auto simp: bit_mask_def u8_div_mod push_bit_of_1 bit_exp_iff)
qed

lemma and_mask_pos: "a AND bit_mask n > 0 \<longleftrightarrow> bit a (7 - unat n mod 8)" for a :: u8
proof -
  have B: "bit (a AND bit_mask n) k \<longleftrightarrow> bit a k \<and> k = 7 - unat n mod 8" for k
    by (simp only: bit_and_iff bit_bit_mask)
  have "a AND bit_mask n = 0 \<longleftrightarrow> \<not> bit a (7 - unat n mod 8)"
  proof
    assume "a AND bit_mask n = 0"
    then have "\<not> bit (a AND bit_mask n) (7 - unat n mod 8)" by simp
    then show "\<not> bit a (7 - unat n mod 8)" unfolding B by simp
  next
    assume no: "\<not> bit a (7 - unat n mod 8)"
    show "a AND bit_mask n = 0"
    proof (rule bit_eqI)
      fix k
      show "bit (a AND bit_mask n) k = bit (0 :: u8) k" unfolding B using no by (simp only: bit_0_eq bot_apply bot_bool_def) metis
    qed
  qed
  then show ?thesis by (simp add: word_gt_0)
qed

lemma id_get_bit_value:
  assumes "unat n < 8 * length a"
  shows "id_get_bit a n = Inr (bit (be_value a) (bit_pos a n))"
proof -
  have "unat n div 8 < length a" using assms by simp
  moreover have "length a - 1 - (length a - 1 - unat n div 8) = unat n div 8" using assms by simp
  moreover have "bit_pos a n < 8 * length a" using assms by simp
  ultimately show ?thesis
    unfolding id_get_bit_def Let_def u8_div_mod and_mask_pos bit_be_value [OF \<open>bit_pos a n < 8 * length a\<close>]
      bit_pos_split [OF assms] by simp
qed

lemma id_set_bit_value:
  assumes n: "unat n < 8 * length a"
  shows "\<exists>a'. id_set_bit a n v = Inr a' \<and> length a' = length a
     \<and> (\<forall>k. bit (be_value a') k = (if k = bit_pos a n then v else bit (be_value a) k))"
proof -
  let ?i = "unat n div 8"
  let ?x = "if v then a ! ?i OR bit_mask n else a ! ?i AND NOT (bit_mask n)"
  have i: "?i < length a" using n by simp
  have "bit (be_value (a[?i := ?x])) k = (if k = bit_pos a n then v else bit (be_value a) k)" for k
  proof (cases "k < 8 * length a")
    case False
    then show ?thesis using n by (auto simp: bit_be_value_out)
  next
    case True
    let ?j = "length a - 1 - k div 8"
    have j: "?j < length a" using i by simp
    have eq: "k = bit_pos a n \<longleftrightarrow> ?j = ?i \<and> k mod 8 = 7 - unat n mod 8"
    proof
      assume "k = bit_pos a n"
      then show "?j = ?i \<and> k mod 8 = 7 - unat n mod 8" using bit_pos_split [OF n] i by simp
    next
      assume "?j = ?i \<and> k mod 8 = 7 - unat n mod 8"
      moreover have "k div 8 < length a" using True by simp
      ultimately have "k div 8 = bit_pos a n div 8" "k mod 8 = bit_pos a n mod 8"
        unfolding bit_pos_split [OF n] by linarith+
      then show "k = bit_pos a n" by (metis mult_div_mod_eq)
    qed
    have "k mod 8 < 8" by simp
    have "bit (be_value (a[?i := ?x])) k = bit (a[?i := ?x] ! ?j) (k mod 8)"
      using bit_be_value [of k "a[?i := ?x]"] True by simp
    also have "\<dots> = (if ?j = ?i \<and> k mod 8 = 7 - unat n mod 8 then v else bit (a ! ?j) (k mod 8))"
      using i j \<open>k mod 8 < 8\<close> by (cases "?j = ?i") (auto simp: bit_or_iff bit_and_iff bit_not_iff bit_bit_mask simp del: One_nat_def)
    finally show ?thesis unfolding eq bit_be_value [OF True] .
  qed
  then show ?thesis using i by (auto simp: id_set_bit_def u8_div_mod Let_def)
qed

end
