(* ===== verification/Peers.thy ===== *)
theory Peers
  imports Peer_Protocol Piece_Tracker Hash_Id
begin

text \<open>
  The peers of a torrent, \<^verbatim>\<open>crates/librtbit/src/torrent_state/live/peer/mod.rs\<close> and
  \<^verbatim>\<open>live/peers/mod.rs\<close>: the state of a peer, the table of peers, and the counters that are kept in step with
  it. The methods of \<^verbatim>\<open>Peer\<close> change the counters of the \<^verbatim>\<open>PeerStates\<close> they get; in the model they take and
  return both. A channel to a peer's writer is a number, and what is sent is a list of channel and
  request. The exponential backoff of a peer belongs to another crate and is not part of its state.
\<close>

type_synonym peer_tx = nat

datatype connection_kind = Tcp | Utp | Socks

record live_peer_state =
  lp_peer_id :: id
  lp_peer_interested :: bool
  lp_bitfield :: bits
  lp_inflight_requests :: "chunk_info list"
  lp_tx :: peer_tx
  lp_connection_kind :: connection_kind

datatype peer_state = Queued | Connecting peer_tx | Live live_peer_state | Dead | NotNeeded

record peer_counters =
  pc_fetched_bytes :: u64
  pc_uploaded_bytes :: u64
  pc_total_time_connecting_ms :: u64
  pc_incoming_connections :: u32
  pc_outgoing_connection_attempts :: u32
  pc_outgoing_connections :: u32
  pc_errors :: u32
  pc_fetched_chunks :: u32
  pc_downloaded_and_checked_pieces :: u32
  pc_downloaded_and_checked_bytes :: u64
  pc_total_piece_download_ms :: u64
  pc_times_stolen_from_me :: u32
  pc_times_i_stole :: u32

record peer =
  pr_addr :: socket_addr
  pr_state :: peer_state
  pr_stats :: peer_counters
  pr_outgoing_address :: "socket_addr option"
  pr_last_state_change :: nat

record aggregate_peer_stats =
  ag_queued :: u32
  ag_connecting :: u32
  ag_live :: u32
  ag_live_tcp :: u32
  ag_live_utp :: u32
  ag_live_socks :: u32
  ag_seen :: u32
  ag_dead :: u32
  ag_not_needed :: u32
  ag_steals :: u32

record peer_states =
  ps_session_stats :: aggregate_peer_stats
  ps_live_outgoing_peers :: "socket_addr set"
  ps_stats :: aggregate_peer_stats
  ps_states :: "(socket_addr \<times> peer) list"

datatype writer_request =
    WMessage message
  | WUtMetadata ut_metadata
  | WUtPex ut_pex
  | WUtHolepunch holepunch_message
  | WReadChunkRequest chunk_info
  | WDisconnect

section \<open>Counters\<close>

definition peer_counters_default :: peer_counters where
  "peer_counters_default =
     \<lparr> pc_fetched_bytes = 0, pc_uploaded_bytes = 0, pc_total_time_connecting_ms = 0, pc_incoming_connections = 0,
       pc_outgoing_connection_attempts = 0, pc_outgoing_connections = 0, pc_errors = 0, pc_fetched_chunks = 0,
       pc_downloaded_and_checked_pieces = 0, pc_downloaded_and_checked_bytes = 0, pc_total_piece_download_ms = 0,
       pc_times_stolen_from_me = 0, pc_times_i_stole = 0 \<rparr>"

definition counters_on_piece_completed :: "u64 \<Rightarrow> u64 \<Rightarrow> peer_counters \<Rightarrow> peer_counters" where
  "counters_on_piece_completed piece_len elapsed_ms c =
     c\<lparr> pc_total_piece_download_ms := pc_total_piece_download_ms c + elapsed_ms,
        pc_downloaded_and_checked_pieces := pc_downloaded_and_checked_pieces c + 1,
        pc_downloaded_and_checked_bytes := pc_downloaded_and_checked_bytes c + piece_len \<rparr>"

text \<open>The average in milliseconds.\<close>

definition average_piece_download_time :: "peer_counters \<Rightarrow> u64 option" where
  "average_piece_download_time c =
     (let downloaded_pieces = pc_downloaded_and_checked_pieces c;
          total_download_time = pc_total_piece_download_ms c
      in if total_download_time = 0 \<or> downloaded_pieces = 0 then None
         else Some (total_download_time div ucast downloaded_pieces))"

fun agg_counter :: "peer_state \<Rightarrow> (u32 \<Rightarrow> u32) \<Rightarrow> aggregate_peer_stats \<Rightarrow> aggregate_peer_stats" where
  "agg_counter (Connecting _) f a = a\<lparr> ag_connecting := f (ag_connecting a) \<rparr>"
| "agg_counter (Live _) f a = a\<lparr> ag_live := f (ag_live a) \<rparr>"
| "agg_counter Queued f a = a\<lparr> ag_queued := f (ag_queued a) \<rparr>"
| "agg_counter Dead f a = a\<lparr> ag_dead := f (ag_dead a) \<rparr>"
| "agg_counter NotNeeded f a = a\<lparr> ag_not_needed := f (ag_not_needed a) \<rparr>"

definition live_kind_counter :: "live_peer_state \<Rightarrow> (u32 \<Rightarrow> u32) \<Rightarrow> aggregate_peer_stats \<Rightarrow> aggregate_peer_stats" where
  "live_kind_counter l f a =
     (case lp_connection_kind l of
        Tcp \<Rightarrow> a\<lparr> ag_live_tcp := f (ag_live_tcp a) \<rparr>
      | Utp \<Rightarrow> a\<lparr> ag_live_utp := f (ag_live_utp a) \<rparr>
      | Socks \<Rightarrow> a\<lparr> ag_live_socks := f (ag_live_socks a) \<rparr>)"

definition atomic_inc :: "u32 \<Rightarrow> u32" where
  "atomic_inc c = c + 1"

definition atomic_dec :: "u32 \<Rightarrow> u32" where
  "atomic_dec c = c - 1"

definition agg_inc :: "peer_state \<Rightarrow> aggregate_peer_stats \<Rightarrow> aggregate_peer_stats" where
  "agg_inc s a = agg_counter s atomic_inc (case s of Live l \<Rightarrow> live_kind_counter l atomic_inc a | _ \<Rightarrow> a)"

definition agg_dec :: "peer_state \<Rightarrow> aggregate_peer_stats \<Rightarrow> aggregate_peer_stats" where
  "agg_dec s a = agg_counter s atomic_dec (case s of Live l \<Rightarrow> live_kind_counter l atomic_dec a | _ \<Rightarrow> a)"

definition agg_incdec :: "peer_state \<Rightarrow> peer_state \<Rightarrow> aggregate_peer_stats \<Rightarrow> aggregate_peer_stats" where
  "agg_incdec old new a = agg_inc new (agg_dec old a)"

definition inc_steals :: "aggregate_peer_stats \<Rightarrow> aggregate_peer_stats" where
  "inc_steals a = a\<lparr> ag_steals := atomic_inc (ag_steals a) \<rparr>"

definition both_stats :: "(aggregate_peer_stats \<Rightarrow> aggregate_peer_stats) \<Rightarrow> peer_states \<Rightarrow> peer_states" where
  "both_stats f ps = ps\<lparr> ps_session_stats := f (ps_session_stats ps), ps_stats := f (ps_stats ps) \<rparr>"

section \<open>A peer\<close>

definition live_peer_state_new :: "id \<Rightarrow> peer_tx \<Rightarrow> bool \<Rightarrow> connection_kind \<Rightarrow> live_peer_state" where
  "live_peer_state_new peer_id tx initial_interested kind =
     \<lparr> lp_peer_id = peer_id, lp_peer_interested = initial_interested, lp_bitfield = [],
       lp_inflight_requests = [], lp_tx = tx, lp_connection_kind = kind \<rparr>"

definition has_full_torrent :: "nat \<Rightarrow> live_peer_state \<Rightarrow> bool" where
  "has_full_torrent n l =
     (case get_range (lp_bitfield l) (0, n) of None \<Rightarrow> False | Some s \<Rightarrow> all_ones s)"

definition new_live_for_incoming_connection ::
  "nat \<Rightarrow> socket_addr \<Rightarrow> id \<Rightarrow> peer_tx \<Rightarrow> connection_kind \<Rightarrow> peer_states \<Rightarrow> peer \<times> peer_states" where
  "new_live_for_incoming_connection now addr peer_id tx kind ps =
     (let state = Live (live_peer_state_new peer_id tx True kind)
      in (\<lparr> pr_addr = addr, pr_state = state, pr_stats = peer_counters_default,
            pr_outgoing_address = None, pr_last_state_change = now \<rparr>,
          both_stats (agg_inc state) ps))"

definition new_with_outgoing_address :: "nat \<Rightarrow> socket_addr \<Rightarrow> peer" where
  "new_with_outgoing_address now addr =
     \<lparr> pr_addr = addr, pr_state = Queued, pr_stats = peer_counters_default,
       pr_outgoing_address = Some addr, pr_last_state_change = now \<rparr>"

fun is_live :: "peer_state \<Rightarrow> bool" where
  "is_live (Live _) = True"
| "is_live _ = False"

fun take_live_no_counters :: "peer_state \<Rightarrow> live_peer_state option" where
  "take_live_no_counters (Live l) = Some l"
| "take_live_no_counters _ = None"

definition get_live :: "peer \<Rightarrow> live_peer_state option" where
  "get_live p = (case pr_state p of Live l \<Rightarrow> Some l | _ \<Rightarrow> None)"

definition set_state :: "nat \<Rightarrow> peer_state \<Rightarrow> peer \<times> peer_states \<Rightarrow> peer_state \<times> peer \<times> peer_states" where
  "set_state now new = (\<lambda>(p, ps).
     let ps1 = both_stats (agg_incdec (pr_state p) new) ps;
         out = ps_live_outgoing_peers ps1;
         out' = (case pr_outgoing_address p of
                   None \<Rightarrow> out
                 | Some addr \<Rightarrow>
                     let out1 = (if is_live (pr_state p) then out - {addr} else out)
                     in if is_live new \<and> pc_outgoing_connections (pr_stats p) > 0 then insert addr out1 else out1)
     in (pr_state p, p\<lparr> pr_last_state_change := now, pr_state := new \<rparr>, ps1\<lparr> ps_live_outgoing_peers := out' \<rparr>))"

definition take_state :: "nat \<Rightarrow> peer \<times> peer_states \<Rightarrow> peer_state \<times> peer \<times> peer_states" where
  "take_state now = set_state now Queued"

definition set_not_needed :: "nat \<Rightarrow> peer \<times> peer_states \<Rightarrow> peer_state \<times> peer \<times> peer_states" where
  "set_not_needed now = set_state now NotNeeded"

definition peer_destroy :: "peer \<Rightarrow> peer_states \<Rightarrow> peer_states" where
  "peer_destroy p ps =
     (let ps1 = both_stats (agg_dec (pr_state p)) ps
      in case (pr_outgoing_address p, pr_state p) of
           (Some addr, Live _) \<Rightarrow> ps1\<lparr> ps_live_outgoing_peers := ps_live_outgoing_peers ps1 - {addr} \<rparr>
         | _ \<Rightarrow> ps1)"

definition reconnect_not_needed_peer ::
  "nat \<Rightarrow> peer \<times> peer_states \<Rightarrow> socket_addr option \<times> peer \<times> peer_states" where
  "reconnect_not_needed_peer now = (\<lambda>(p, ps).
     case pr_state p of
       NotNeeded \<Rightarrow>
         (case pr_outgoing_address p of
            None \<Rightarrow> (None, p, ps)
          | Some a \<Rightarrow> if pr_addr p = a then (Some a, snd (set_state now Queued (p, ps))) else (Some a, p, ps))
     | _ \<Rightarrow> (None, p, ps))"

text \<open>\<open>tx\<close> is the channel that \<^verbatim>\<open>unbounded_channel\<close> opens.\<close>

definition idle_to_connecting ::
  "nat \<Rightarrow> peer_tx \<Rightarrow> peer \<times> peer_states \<Rightarrow> peer_tx option \<times> peer \<times> peer_states" where
  "idle_to_connecting now tx = (\<lambda>(p, ps).
     if pr_state p = Queued \<or> pr_state p = NotNeeded
     then (Some tx, snd (set_state now (Connecting tx) (p, ps)))
     else (None, p, ps))"

datatype incoming_connection_result = AlreadyActive

definition incoming_connection :: "nat \<Rightarrow> id \<Rightarrow> peer_tx \<Rightarrow> connection_kind \<Rightarrow> peer \<times> peer_states \<Rightarrow>
    (peer \<times> peer_states, incoming_connection_result) rust" where
  "incoming_connection now peer_id tx kind = (\<lambda>(p, ps).
     case pr_state p of
       Connecting _ \<Rightarrow> Inl (Err AlreadyActive)
     | Live _ \<Rightarrow> Inl (Err AlreadyActive)
     | _ \<Rightarrow>
       (case take_state now (p, ps) of
          (prev, p1, ps1) \<Rightarrow>
            (case prev of
               Connecting _ \<Rightarrow> Inl Panic
             | Live _ \<Rightarrow> Inl Panic
             | _ \<Rightarrow> Inr (snd (set_state now (Live (live_peer_state_new peer_id tx True kind)) (p1, ps1))))))"

definition connecting_to_live :: "nat \<Rightarrow> id \<Rightarrow> connection_kind \<Rightarrow> peer \<times> peer_states \<Rightarrow>
    live_peer_state option \<times> peer \<times> peer_states" where
  "connecting_to_live now peer_id kind = (\<lambda>(p, ps).
     case pr_state p of
       Connecting tx \<Rightarrow>
         (case take_state now (p, ps) of
            (_, p1, ps1) \<Rightarrow>
              let r = snd (set_state now (Live (live_peer_state_new peer_id tx False kind)) (p1, ps1))
              in (get_live (fst r), r))
     | _ \<Rightarrow> (None, p, ps))"

section \<open>The table of peers\<close>

definition peer_states_drop :: "peer_states \<Rightarrow> peer_states" where
  "peer_states_drop ps = foldl (\<lambda>ps (_, p). peer_destroy p ps) (ps\<lparr> ps_states := [] \<rparr>) (ps_states ps)"

definition seed_leecher_counts :: "nat \<Rightarrow> peer_states \<Rightarrow> u32 \<times> u32" where
  "seed_leecher_counts n ps =
     foldl (\<lambda>(seeders, leechers) (_, p).
         case get_live p of
           Some live \<Rightarrow> if has_full_torrent n live then (seeders + 1, leechers) else (seeders, leechers + 1)
         | None \<Rightarrow> (seeders, leechers)) (0, 0) (ps_states ps)"

definition add_if_not_seen :: "nat \<Rightarrow> socket_addr \<Rightarrow> peer_states \<Rightarrow> socket_addr option \<times> peer_states" where
  "add_if_not_seen now addr ps =
     (case map_of (ps_states ps) addr of
        Some _ \<Rightarrow> (None, ps)
      | None \<Rightarrow>
          let ps1 = ps\<lparr> ps_states := hm_insert addr (new_with_outgoing_address now addr) (ps_states ps) \<rparr>;
              ps2 = both_stats (\<lambda>a. a\<lparr> ag_queued := atomic_inc (ag_queued a) \<rparr>) ps1;
              ps3 = both_stats (\<lambda>a. a\<lparr> ag_seen := atomic_inc (ag_seen a) \<rparr>) ps2
          in (Some addr, ps3))"

definition with_peer :: "socket_addr \<Rightarrow> (peer \<Rightarrow> 'r) \<Rightarrow> peer_states \<Rightarrow> 'r option" where
  "with_peer addr f ps = map_option f (map_of (ps_states ps) addr)"

definition with_peer_mut :: "socket_addr \<Rightarrow> (peer \<times> peer_states \<Rightarrow> 'r \<times> peer \<times> peer_states) \<Rightarrow> peer_states \<Rightarrow>
    'r option \<times> peer_states" where
  "with_peer_mut addr f ps =
     (case map_of (ps_states ps) addr of
        None \<Rightarrow> (None, ps)
      | Some p \<Rightarrow> (case f (p, ps) of (r, p', ps') \<Rightarrow> (Some r, ps'\<lparr> ps_states := hm_insert addr p' (ps_states ps') \<rparr>)))"

definition with_live :: "socket_addr \<Rightarrow> (live_peer_state \<Rightarrow> 'r) \<Rightarrow> peer_states \<Rightarrow> 'r option" where
  "with_live addr f ps = Option.bind (with_peer addr (\<lambda>p. map_option f (get_live p)) ps) (\<lambda>r. r)"

text \<open>The closure of \<^verbatim>\<open>with_live_mut\<close> sees the live state only.\<close>

definition with_live_mut :: "socket_addr \<Rightarrow> (live_peer_state \<Rightarrow> 'r \<times> live_peer_state) \<Rightarrow> peer_states \<Rightarrow>
    'r option \<times> peer_states" where
  "with_live_mut addr f ps =
     (case with_peer_mut addr
             (\<lambda>(p, ps). case pr_state p of
                         Live l \<Rightarrow> (case f l of (r, l') \<Rightarrow> (Some r, p\<lparr> pr_state := Live l' \<rparr>, ps))
                       | _ \<Rightarrow> (None, p, ps)) ps of
        (r, ps') \<Rightarrow> (Option.bind r (\<lambda>r. r), ps'))"

definition drop_peer :: "socket_addr \<Rightarrow> peer_states \<Rightarrow> peer option \<times> peer_states" where
  "drop_peer handle ps =
     (case map_of (ps_states ps) handle of
        None \<Rightarrow> (None, ps)
      | Some p \<Rightarrow> (Some p, both_stats (agg_dec (pr_state p)) (ps\<lparr> ps_states := hm_remove handle (ps_states ps) \<rparr>)))"

definition is_peer_not_interested_and_has_full_torrent :: "socket_addr \<Rightarrow> nat \<Rightarrow> peer_states \<Rightarrow> bool" where
  "is_peer_not_interested_and_has_full_torrent handle n ps =
     (case with_live handle (\<lambda>live. \<not> lp_peer_interested live \<and> has_full_torrent n live) ps of
        None \<Rightarrow> False | Some r \<Rightarrow> r)"

definition mark_peer_interested :: "socket_addr \<Rightarrow> bool \<Rightarrow> peer_states \<Rightarrow> bool option \<times> peer_states" where
  "mark_peer_interested handle is_interested =
     with_live_mut handle (\<lambda>live. (lp_peer_interested live, live\<lparr> lp_peer_interested := is_interested \<rparr>))"

definition update_bitfield :: "socket_addr \<Rightarrow> bits \<Rightarrow> peer_states \<Rightarrow> unit option \<times> peer_states" where
  "update_bitfield handle bitfield = with_live_mut handle (\<lambda>live. ((), live\<lparr> lp_bitfield := bitfield \<rparr>))"

datatype peers_error = BugInvalidPeerState | BugPeerNotFound

definition mark_peer_connecting ::
  "nat \<Rightarrow> peer_tx \<Rightarrow> socket_addr \<Rightarrow> peer_states \<Rightarrow> (peer_tx, peers_error) rust \<times> peer_states" where
  "mark_peer_connecting now tx h ps =
     (case with_peer_mut h (idle_to_connecting now tx) ps of
        (None, ps') \<Rightarrow> (Inl (Err BugPeerNotFound), ps')
      | (Some None, ps') \<Rightarrow> (Inl (Err BugInvalidPeerState), ps')
      | (Some (Some rx), ps') \<Rightarrow> (Inr rx, ps'))"

definition mark_peer_not_needed :: "nat \<Rightarrow> socket_addr \<Rightarrow> peer_states \<Rightarrow> peer_state option \<times> peer_states" where
  "mark_peer_not_needed now handle = with_peer_mut handle (set_not_needed now)"

definition upd_counters :: "(peer_counters \<Rightarrow> peer_counters) \<Rightarrow> socket_addr \<Rightarrow> peer_states \<Rightarrow> peer_states" where
  "upd_counters f addr ps = snd (with_peer_mut addr (\<lambda>(p, ps). ((), p\<lparr> pr_stats := f (pr_stats p) \<rparr>, ps)) ps)"

definition cancel_stolen :: "valid_piece_index \<Rightarrow> live_peer_state \<Rightarrow> (peer_tx \<times> writer_request) list \<times> live_peer_state" where
  "cancel_stolen stolen_idx live =
     (map (\<lambda>req. (lp_tx live, WMessage (Cancel \<lparr> rq_index = vpi_get stolen_idx, rq_begin = ci_offset req, rq_length = ci_size req \<rparr>)))
        (filter (\<lambda>req. ci_piece_index req = stolen_idx) (lp_inflight_requests live)),
      live\<lparr> lp_inflight_requests := filter (\<lambda>req. ci_piece_index req \<noteq> stolen_idx) (lp_inflight_requests live) \<rparr>)"

definition on_steal :: "socket_addr \<Rightarrow> socket_addr \<Rightarrow> valid_piece_index \<Rightarrow> peer_states \<Rightarrow>
    (peer_tx \<times> writer_request) list \<times> peer_states" where
  "on_steal from_peer to_peer stolen_idx ps =
     (let ps1 = upd_counters (\<lambda>c. c\<lparr> pc_times_i_stole := atomic_inc (pc_times_i_stole c) \<rparr>) to_peer ps;
          ps2 = upd_counters (\<lambda>c. c\<lparr> pc_times_stolen_from_me := atomic_inc (pc_times_stolen_from_me c) \<rparr>) from_peer ps1;
          ps3 = both_stats inc_steals ps2
      in case with_live_mut from_peer (cancel_stolen stolen_idx) ps3 of
           (sent, ps4) \<Rightarrow> (case sent of None \<Rightarrow> [] | Some ms \<Rightarrow> ms, ps4))"

definition prunable :: "nat \<Rightarrow> nat \<Rightarrow> peer \<Rightarrow> bool" where
  "prunable now retention p \<longleftrightarrow>
     (pr_state p = Dead \<or> pr_state p = NotNeeded) \<and> now - pr_last_state_change p > retention"

definition prune_dead_peers :: "nat \<Rightarrow> nat \<Rightarrow> peer_states \<Rightarrow> nat \<times> peer_states" where
  "prune_dead_peers now retention ps =
     (let gone = filter (\<lambda>e. prunable now retention (snd e)) (ps_states ps);
          kept = filter (\<lambda>e. \<not> prunable now retention (snd e)) (ps_states ps)
      in (length gone,
          foldl (\<lambda>ps (_, p). both_stats (agg_dec (pr_state p)) ps) (ps\<lparr> ps_states := kept \<rparr>) gone))"

end
