(* ===== verification/Peer_Lifecycle.thy ===== *)
theory Peer_Lifecycle
  imports Peers
begin

text \<open>
  The life of a peer in a running torrent: the functions of \<^verbatim>\<open>live/mod.rs\<close>, \<^verbatim>\<open>live/peer_handler.rs\<close> and
  \<^verbatim>\<open>live/tasks.rs\<close> that move peers between their states, give back their pieces, queue them for a
  connection and announce them to other peers. The queue of peers is a bounded channel: a send to a full
  queue fails.
\<close>

record torrent_live =
  tl_peers :: peer_states
  tl_pieces :: "piece_tracker option"
  tl_peer_queue :: "socket_addr list"
  tl_queue_capacity :: nat

definition try_send :: "socket_addr \<Rightarrow> torrent_live \<Rightarrow> bool \<times> torrent_live" where
  "try_send addr tor =
     (if length (tl_peer_queue tor) < tl_queue_capacity tor
      then (True, tor\<lparr> tl_peer_queue := tl_peer_queue tor @ [addr] \<rparr>) else (False, tor))"

definition add_peer_if_not_seen :: "nat \<Rightarrow> socket_addr \<Rightarrow> torrent_live \<Rightarrow> bool \<times> torrent_live" where
  "add_peer_if_not_seen now addr tor =
     (case add_if_not_seen now addr (tl_peers tor) of
        (None, ps) \<Rightarrow> (False, tor\<lparr> tl_peers := ps \<rparr>)
      | (Some _, ps) \<Rightarrow> (True, snd (try_send addr (tor\<lparr> tl_peers := ps \<rparr>))))"

datatype add_incoming_peer_result = IncomingAlreadyActive | ConcurrencyLimitReached | IncomingAdded

text \<open>\<open>permit\<close> says whether the semaphore of live peers has a permit left.\<close>

definition add_incoming_peer :: "nat \<Rightarrow> bool \<Rightarrow> peer_tx \<Rightarrow> socket_addr \<Rightarrow> id \<Rightarrow> connection_kind \<Rightarrow> peer_states \<Rightarrow>
    (add_incoming_peer_result \<times> peer_states, unit) rust" where
  "add_incoming_peer now permit tx addr peer_id kind ps =
     (let count = upd_counters (\<lambda>c. c\<lparr> pc_incoming_connections := atomic_inc (pc_incoming_connections c) \<rparr>) addr
      in if \<not> permit then Inr (ConcurrencyLimitReached, count ps)
         else (case map_of (ps_states ps) addr of
                 Some p \<Rightarrow>
                   (case incoming_connection now peer_id tx kind (p, ps) of
                      Inl (Err AlreadyActive) \<Rightarrow> Inr (IncomingAlreadyActive, ps)
                    | Inl Panic \<Rightarrow> Inl Panic
                    | Inr (p', ps') \<Rightarrow> Inr (IncomingAdded, count (ps'\<lparr> ps_states := hm_insert addr p' (ps_states ps') \<rparr>)))
               | None \<Rightarrow>
                   (let ps1 = ps\<lparr> ps_stats := (ps_stats ps)\<lparr> ag_seen := atomic_inc (ag_seen (ps_stats ps)) \<rparr> \<rparr>
                    in case new_live_for_incoming_connection now addr peer_id tx kind ps1 of
                         (p, ps2) \<Rightarrow> Inr (IncomingAdded, count (ps2\<lparr> ps_states := hm_insert addr p (ps_states ps2) \<rparr>)))))"

definition set_peer_live :: "nat \<Rightarrow> socket_addr \<Rightarrow> id \<Rightarrow> connection_kind \<Rightarrow> peer_states \<Rightarrow> peer_states" where
  "set_peer_live now handle peer_id kind ps = snd (with_peer_mut handle (connecting_to_live now peer_id kind) ps)"

definition on_connected :: "u64 \<Rightarrow> socket_addr \<Rightarrow> peer_states \<Rightarrow> peer_states" where
  "on_connected connection_time_ms =
     upd_counters (\<lambda>c. c\<lparr> pc_outgoing_connections := pc_outgoing_connections c + 1,
                         pc_total_time_connecting_ms := pc_total_time_connecting_ms c + connection_time_ms \<rparr>)"

text \<open>The last part of \<^verbatim>\<open>on_extended_handshake\<close>: an incoming peer tells the port it listens on.\<close>

definition update_outgoing_addr :: "bool \<Rightarrow> u16 option \<Rightarrow> ip_addr option \<Rightarrow> socket_addr \<Rightarrow> peer_states \<Rightarrow> peer_states" where
  "update_outgoing_addr incoming hs_port hs_ip addr ps =
     (case (incoming, hs_port) of
        (True, Some port) \<Rightarrow>
          let peer_ip = (case hs_ip of None \<Rightarrow> sa_ip addr | Some ip \<Rightarrow> ip)
          in snd (with_peer_mut addr (\<lambda>(p, ps). ((), p\<lparr> pr_outgoing_address := Some (sa_new peer_ip port) \<rparr>, ps)) ps)
      | _ \<Rightarrow> ps)"

section \<open>Loops over all peers\<close>

text \<open>A step for the peer with a given key, which may send to its writer.\<close>

definition disconnect_full_peer ::
  "nat \<Rightarrow> nat \<Rightarrow> socket_addr \<Rightarrow> (peer_tx \<times> writer_request) list \<times> peer_states \<Rightarrow>
     ((peer_tx \<times> writer_request) list \<times> peer_states, unit) rust" where
  "disconnect_full_peer now n key = (\<lambda>(sent, ps).
     case map_of (ps_states ps) key of
       None \<Rightarrow> Inr (sent, ps)
     | Some p \<Rightarrow>
         (case pr_state p of
            Live l \<Rightarrow>
              if has_full_torrent n l
              then (case set_not_needed now (p, ps) of
                      (prev, p', ps') \<Rightarrow>
                        (case take_live_no_counters prev of
                           None \<Rightarrow> Inl Panic
                         | Some l' \<Rightarrow> Inr (sent @ [(lp_tx l', WDisconnect)],
                                           ps'\<lparr> ps_states := hm_insert key p' (ps_states ps') \<rparr>)))
              else Inr (sent, ps)
          | _ \<Rightarrow> Inr (sent, ps)))"

definition disconnect_all_peers_that_have_full_torrent ::
  "nat \<Rightarrow> nat \<Rightarrow> peer_states \<Rightarrow> ((peer_tx \<times> writer_request) list \<times> peer_states, unit) rust" where
  "disconnect_all_peers_that_have_full_torrent now n ps =
     rfold (\<lambda>s key. disconnect_full_peer now n key s) ([], ps) (map fst (ps_states ps))"

text \<open>The iterator chain is lazy: it ends with the first address that the queue does not take.\<close>

fun reconnect_peers :: "nat \<Rightarrow> socket_addr list \<Rightarrow> torrent_live \<Rightarrow> torrent_live" where
  "reconnect_peers now [] tor = tor"
| "reconnect_peers now (key # keys) tor =
     (case with_peer_mut key (reconnect_not_needed_peer now) (tl_peers tor) of
        (r, ps) \<Rightarrow>
          let tor1 = tor\<lparr> tl_peers := ps \<rparr>
          in case r of
               Some (Some a) \<Rightarrow>
                 (case try_send a tor1 of (ok, tor2) \<Rightarrow> if ok then reconnect_peers now keys tor2 else tor2)
             | _ \<Rightarrow> reconnect_peers now keys tor1)"

definition reconnect_all_not_needed_peers :: "nat \<Rightarrow> torrent_live \<Rightarrow> torrent_live" where
  "reconnect_all_not_needed_peers now tor = reconnect_peers now (map fst (ps_states (tl_peers tor))) tor"

definition dead_to_queued :: "nat \<Rightarrow> peer \<times> peer_states \<Rightarrow> bool \<times> peer \<times> peer_states" where
  "dead_to_queued now = (\<lambda>(p, ps).
     case pr_state p of Dead \<Rightarrow> (True, snd (set_state now Queued (p, ps))) | _ \<Rightarrow> (False, p, ps))"

fun requeue_peers :: "nat \<Rightarrow> socket_addr list \<Rightarrow> torrent_live \<Rightarrow> torrent_live" where
  "requeue_peers now [] tor = tor"
| "requeue_peers now (key # keys) tor =
     (case with_peer_mut key (dead_to_queued now) (tl_peers tor) of
        (r, ps) \<Rightarrow>
          let tor1 = tor\<lparr> tl_peers := ps \<rparr>
          in if r = Some True
             then (case with_peer key pr_addr ps of
                     None \<Rightarrow> tor1
                   | Some addr \<Rightarrow>
                       (case try_send addr tor1 of (ok, tor2) \<Rightarrow> if ok then requeue_peers now keys tor2 else tor2))
             else requeue_peers now keys tor1)"

definition requeue_dead_peers :: "nat \<Rightarrow> torrent_live \<Rightarrow> torrent_live" where
  "requeue_dead_peers now tor = requeue_peers now (map fst (ps_states (tl_peers tor))) tor"

definition get_active_peer_count :: "torrent_live \<Rightarrow> u32" where
  "get_active_peer_count tor = ag_live (ps_stats (tl_peers tor)) + ag_connecting (ps_stats (tl_peers tor))"

section \<open>The death of a peer\<close>

datatype live_error = ChunkTrackerEmpty

definition FROZEN_PEER_RETRY_INTERVAL :: nat where
  "FROZEN_PEER_RETRY_INTERVAL = 600"

definition put_peer :: "socket_addr \<Rightarrow> peer \<times> peer_states \<Rightarrow> torrent_live \<Rightarrow> torrent_live" where
  "put_peer handle = (\<lambda>(p, ps) tor. tor\<lparr> tl_peers := ps\<lparr> ps_states := hm_insert handle p (ps_states ps) \<rparr> \<rparr>)"

text \<open>
  What follows once the previous state is handled. The result is the delay after which the task
  \<open>wait_for_peer\<close> runs, if it is spawned; \<open>backoff\<close> is the next delay of the peer's backoff.
\<close>

definition died_finish :: "nat \<Rightarrow> socket_addr \<Rightarrow> bool \<Rightarrow> bool \<Rightarrow> bool \<Rightarrow> nat option \<Rightarrow> peer \<times> peer_states \<Rightarrow> torrent_live \<Rightarrow>
    (nat option, live_error) rust \<times> torrent_live" where
  "died_finish now handle had_error finished incoming backoff = (\<lambda>(p, ps) tor.
     if \<not> had_error then (Inr None, put_peer handle (snd (set_state now NotNeeded (p, ps))) tor)
     else let p1 = p\<lparr> pr_stats := (pr_stats p)\<lparr> pc_errors := pc_errors (pr_stats p) + 1 \<rparr> \<rparr>
     in if finished then (Inr None, put_peer handle (snd (set_state now NotNeeded (p1, ps))) tor)
        else let tor1 = put_peer handle (snd (set_state now Dead (p1, ps))) tor
        in if incoming then (Inr None, tor1)
           else (Inr (Some (case backoff of None \<Rightarrow> FROZEN_PEER_RETRY_INTERVAL | Some dur \<Rightarrow> dur)), tor1))"

definition on_peer_died :: "nat \<Rightarrow> socket_addr \<Rightarrow> bool \<Rightarrow> bool \<Rightarrow> bool \<Rightarrow> nat option \<Rightarrow> torrent_live \<Rightarrow>
    (nat option, live_error) rust \<times> torrent_live" where
  "on_peer_died now handle had_error finished incoming backoff tor =
     (case map_of (ps_states (tl_peers tor)) handle of
        None \<Rightarrow> (Inr None, tor)
      | Some p \<Rightarrow>
          (case take_state now (p, tl_peers tor) of
             (prev, pe) \<Rightarrow>
               (case prev of
                  Connecting _ \<Rightarrow> died_finish now handle had_error finished incoming backoff pe tor
                | Live live \<Rightarrow>
                    (case tl_pieces tor of
                       None \<Rightarrow> (Inl (Err ChunkTrackerEmpty), put_peer handle pe tor)
                     | Some pt \<Rightarrow>
                         (case release_pieces_owned_by handle pt of
                            Inl _ \<Rightarrow> (Inl Panic, put_peer handle pe tor)
                          | Inr (released, pt') \<Rightarrow>
                              died_finish now handle had_error finished incoming backoff pe (tor\<lparr> tl_pieces := Some pt' \<rparr>)))
                | NotNeeded \<Rightarrow> (Inr None, put_peer handle (snd (set_state now NotNeeded pe)) tor)
                | _ \<Rightarrow>
                    let tor1 = put_peer handle pe tor
                    in (Inr None, tor1\<lparr> tl_peers := snd (drop_peer handle (tl_peers tor1)) \<rparr>))))"

definition wait_for_peer :: "nat \<Rightarrow> socket_addr \<Rightarrow> torrent_live \<Rightarrow> torrent_live" where
  "wait_for_peer now handle tor =
     (case with_peer_mut handle (dead_to_queued now) (tl_peers tor) of
        (r, ps) \<Rightarrow>
          let tor1 = tor\<lparr> tl_peers := ps \<rparr>
          in if r = Some True then snd (try_send handle tor1) else tor1)"

end
