(* ===== verification/Peer_Handler.thy ===== *)
theory Peer_Handler
  imports Peer_Lifecycle
begin

text \<open>
  The handler of a peer's messages, \<^verbatim>\<open>crates/librtbit/src/torrent_state/live/peer_handler.rs\<close>. A handler
  returns its result together with the state, because an error does not undo what was changed before it.
  Channels are open: a send appends to a list. \<open>te_dht\<close> says whether the session runs the DHT. Waking waiting
  tasks changes no state and is left out.
\<close>

record torrent_env =
  te_lengths :: lengths
  te_info_bytes :: bytes
  te_private :: bool
  te_dht :: bool
  te_disable_upload :: bool

record handler_state =
  hs_tor :: torrent_live
  hs_addr :: socket_addr
  hs_tx :: peer_tx
  hs_i_am_choked :: bool
  hs_requests_permits :: nat
  hs_first_message_received :: bool
  hs_sent :: "(peer_tx \<times> writer_request) list"
  hs_uploads :: "(peer_tx \<times> chunk_info) list"
  hs_pings :: "socket_addr list"
  hs_fetched_bytes :: u64
  hs_session_fetched_bytes :: u64

datatype handler_error =
    UploadDisabled
  | InvalidRequestPiece
  | InvalidRequestChunk
  | ChunksEmpty
  | NotReadyToUpload
  | BitfieldSize nat nat
  | InvalidReceivedPiece
  | ReceivedPieceLength
  | InvalidReceivedChunk
  | NotRequested
  | PeerNotFound
  | BogusPiece
  | NoMetadata
  | MetadataPieceOutOfBounds
  | MetadataTooLong

type_synonym handled = "(unit, handler_error) rust \<times> handler_state"

definition upd_peers :: "(peer_states \<Rightarrow> peer_states) \<Rightarrow> handler_state \<Rightarrow> handler_state" where
  "upd_peers f st = st\<lparr> hs_tor := (hs_tor st)\<lparr> tl_peers := f (tl_peers (hs_tor st)) \<rparr> \<rparr>"

section \<open>Uploading\<close>

definition on_download_request :: "torrent_env \<Rightarrow> request \<Rightarrow> handler_state \<Rightarrow> handled" where
  "on_download_request env req st =
     (if te_disable_upload env then (Inl (Err UploadDisabled), st)
      else case validate_piece_index (te_lengths env) (rq_index req) of
        None \<Rightarrow> (Inl (Err InvalidRequestPiece), st)
      | Some piece_index \<Rightarrow>
          (case chunk_info_from_received_data (te_lengths env) piece_index (rq_begin req) (rq_length req) of
             None \<Rightarrow> (Inl (Err InvalidRequestChunk), st)
           | Some chunk_info \<Rightarrow>
               (case tl_pieces (hs_tor st) of
                  None \<Rightarrow> (Inl (Err ChunksEmpty), st)
                | Some pt \<Rightarrow>
                    if \<not> is_chunk_ready_to_upload (pt_chunks pt) chunk_info then (Inl (Err NotReadyToUpload), st)
                    else (Inr (), st\<lparr> hs_uploads := hs_uploads st @ [(hs_tx st, chunk_info)] \<rparr>))))"

section \<open>What the peer has\<close>

definition make_piece_bitfield :: "lengths \<Rightarrow> bytes" where
  "make_piece_bitfield l = replicate (piece_bitfield_bytes l) 0"

text \<open>A bit field over bytes: the first bit is the most significant one of the first byte.\<close>

definition bits_of_bytes :: "bytes \<Rightarrow> bits" where
  "bits_of_bytes bs = concat (map (\<lambda>b. map (\<lambda>i. bit b (7 - i)) [0..<8]) bs)"

definition on_have :: "torrent_env \<Rightarrow> u32 \<Rightarrow> handler_state \<Rightarrow> handler_state" where
  "on_have env have_idx st =
     upd_peers (\<lambda>ps. snd (with_live_mut (hs_addr st) (\<lambda>live.
         let bf = (if lp_bitfield live = [] then bits_of_bytes (make_piece_bitfield (te_lengths env)) else lp_bitfield live)
         in ((), live\<lparr> lp_bitfield := (if unat have_idx < length bf then bf[unat have_idx := True] else bf) \<rparr>)) ps)) st"

definition on_bitfield :: "torrent_env \<Rightarrow> bytes \<Rightarrow> handler_state \<Rightarrow> handled" where
  "on_bitfield env bitfield st =
     (if length bitfield \<noteq> piece_bitfield_bytes (te_lengths env)
      then (Inl (Err (BitfieldSize (length bitfield) (piece_bitfield_bytes (te_lengths env)))), st)
      else (Inr (), upd_peers (\<lambda>ps. snd (update_bitfield (hs_addr st) (bits_of_bytes bitfield) ps)) st))"

section \<open>Choking and interest\<close>

definition on_i_am_choked :: "handler_state \<Rightarrow> handler_state" where
  "on_i_am_choked st = st\<lparr> hs_i_am_choked := True \<rparr>"

definition on_i_am_unchoked :: "handler_state \<Rightarrow> handler_state" where
  "on_i_am_unchoked st = st\<lparr> hs_i_am_choked := False, hs_requests_permits := hs_requests_permits st + 128 \<rparr>"

definition on_peer_interested :: "handler_state \<Rightarrow> handler_state" where
  "on_peer_interested st = upd_peers (\<lambda>ps. snd (mark_peer_interested (hs_addr st) True ps)) st"

section \<open>Downloading\<close>

text \<open>
  The outcome of \<open>acquire_piece\<close> is used under the lock of the peer; a steal is announced after it. \<open>req\<close> is
  the request with the peer's averages, streams and priorities, for the bit field of the live peer.
\<close>

definition acquire_next_piece :: "(nat \<Rightarrow> nat \<Rightarrow> nat) \<Rightarrow> nat \<Rightarrow> (bits \<Rightarrow> acquire_request) \<Rightarrow> handler_state \<Rightarrow>
    (valid_piece_index option, handler_error) rust \<times> handler_state" where
  "acquire_next_piece scale now req st =
     (case with_live (hs_addr st) lp_bitfield (tl_peers (hs_tor st)) of
        None \<Rightarrow> (Inr None, st)
      | Some bf \<Rightarrow>
          if hs_i_am_choked st then (Inr None, st)
          else (case tl_pieces (hs_tor st) of
                  None \<Rightarrow> (Inl (Err ChunksEmpty), st)
                | Some pt \<Rightarrow>
                    (case acquire_piece scale now (req bf) pt of
                       Inl _ \<Rightarrow> (Inl Panic, st)
                     | Inr (result, pt') \<Rightarrow>
                         let st1 = st\<lparr> hs_tor := (hs_tor st)\<lparr> tl_pieces := Some pt' \<rparr> \<rparr>
                         in case result of
                              Reserved piece \<Rightarrow> (Inr (Some piece), st1)
                            | Stolen piece from_peer \<Rightarrow>
                                (case on_steal from_peer (hs_addr st) piece (tl_peers (hs_tor st1)) of
                                   (sent, ps) \<Rightarrow>
                                     (Inr (Some piece),
                                      (upd_peers (\<lambda>_. ps) st1)\<lparr> hs_sent := hs_sent st1 @ sent \<rparr>))
                            | NoneAvailable \<Rightarrow> (Inr None, st1))))"

definition peer_has_piece :: "bits \<Rightarrow> valid_piece_index \<Rightarrow> bool" where
  "peer_has_piece bf p \<longleftrightarrow> unat (vpi_get p) < length bf \<and> bf ! unat (vpi_get p)"

text \<open>
  The body of the request loop for one chunk: it is recorded as in flight and requested, unless it is in
  flight already. \<open>None\<close> is the end of the task because the peer is gone.
\<close>

definition request_chunk :: "valid_piece_index \<Rightarrow> chunk_info \<Rightarrow> handler_state \<Rightarrow> handler_state option" where
  "request_chunk next chunk st =
     (case with_live_mut (hs_addr st) (\<lambda>live.
             if chunk \<in> set (lp_inflight_requests live) then (False, live)
             else (True, live\<lparr> lp_inflight_requests := chunk # lp_inflight_requests live \<rparr>)) (tl_peers (hs_tor st)) of
        (None, _) \<Rightarrow> None
      | (Some added, ps) \<Rightarrow>
          let st1 = upd_peers (\<lambda>_. ps) st
          in if \<not> added \<or> ci_size chunk = 0 then Some st1
             else Some (st1\<lparr> hs_requests_permits := hs_requests_permits st1 - 1,
                             hs_sent := hs_sent st1 @ [(hs_tx st, WMessage (Request
                               \<lparr> rq_index = vpi_get next, rq_begin = ci_offset chunk, rq_length = ci_size chunk \<rparr>))] \<rparr>))"

text \<open>
  A received block. Once it is accepted, \<open>write_to_disk\<close> decides what happens to it, and the result says
  what was decided.
\<close>

definition on_received_piece :: "torrent_env \<Rightarrow> nat \<Rightarrow> piece \<Rightarrow> handler_state \<Rightarrow>
    (write_outcome, handler_error) rust \<times> handler_state" where
  "on_received_piece env now p st =
     (case validate_piece_index (te_lengths env) (pc_index p) of
        None \<Rightarrow> (Inl (Err InvalidReceivedPiece), st)
      | Some piece_index \<Rightarrow>
          if pc_len p \<ge> 2 ^ 32 then (Inl (Err ReceivedPieceLength), st)
          else (case chunk_info_from_received_data (te_lengths env) piece_index (pc_begin p) (of_nat (pc_len p)) of
                  None \<Rightarrow> (Inl (Err InvalidReceivedChunk), st)
                | Some chunk_info \<Rightarrow>
                    let st1 = st\<lparr> hs_requests_permits := hs_requests_permits st + 1 \<rparr>;
                        st2 = upd_peers (upd_counters (\<lambda>c. c\<lparr> pc_fetched_bytes := pc_fetched_bytes c + of_nat (pc_len p),
                                 pc_fetched_chunks := pc_fetched_chunks c + 1 \<rparr>) (hs_addr st)) st1
                    in (case with_live_mut (hs_addr st) (\<lambda>live.
                               (chunk_info \<in> set (lp_inflight_requests live),
                                live\<lparr> lp_inflight_requests := removeAll chunk_info (lp_inflight_requests live) \<rparr>))
                             (tl_peers (hs_tor st2)) of
                          (None, _) \<Rightarrow> (Inl (Err PeerNotFound), st2)
                        | (Some asked, ps) \<Rightarrow>
                            let st3 = upd_peers (\<lambda>_. ps) st2
                            in if \<not> asked then (Inl (Err NotRequested), st3)
                               else let st4 = st3\<lparr> hs_fetched_bytes := hs_fetched_bytes st3 + of_nat (pc_len p),
                                      hs_session_fetched_bytes := hs_session_fetched_bytes st3 + of_nat (pc_len p) \<rparr>
                               in case tl_pieces (hs_tor st4) of
                                    None \<Rightarrow> (Inl (Err ChunksEmpty), st4)
                                  | Some pt \<Rightarrow>
                                      (case write_to_disk now (hs_addr st) p chunk_info pt of
                                         Inl _ \<Rightarrow> (Inl Panic, st4)
                                       | Inr (outcome, pt') \<Rightarrow>
                                           (if outcome = BogusData then Inl (Err BogusPiece) else Inr outcome,
                                            st4\<lparr> hs_tor := (hs_tor st4)\<lparr> tl_pieces := Some pt' \<rparr> \<rparr>)))))"

section \<open>Extensions\<close>

text \<open>The end of a block is computed in 32 bits; \<^verbatim>\<open>Bytes::slice\<close> panics unless begin, end and length are in order.\<close>

definition send_metadata_piece :: "torrent_env \<Rightarrow> u32 \<Rightarrow> handler_state \<Rightarrow> handled" where
  "send_metadata_piece env piece_id st =
     (let data = te_info_bytes env; metadata_size = length data
      in if metadata_size = 0 then (Inl (Err NoMetadata), st)
         else if unat piece_id > nceil metadata_size (unat CHUNK_SIZE) then (Inl (Err MetadataPieceOutOfBounds), st)
         else let offset = piece_id * CHUNK_SIZE
         in if metadata_size \<ge> 2 ^ 32 then (Inl (Err MetadataTooLong), st)
            else let stop = min (offset + CHUNK_SIZE) (of_nat metadata_size);
                     total_size = of_nat metadata_size
            in if unat offset \<le> unat stop \<and> unat stop \<le> metadata_size
               then (Inr (), st\<lparr> hs_sent := hs_sent st @ [(hs_tx st, WUtMetadata (UmData
                       (umd_from_bytes piece_id total_size (take (unat stop - unat offset) (drop (unat offset) data)))))] \<rparr>)
               else (Inl Panic, st))"

definition on_pex_message :: "nat \<Rightarrow> ut_pex \<Rightarrow> handler_state \<Rightarrow> handled" where
  "on_pex_message now pex st =
     (case rbind (dropped_peers pex) (\<lambda>dropped. rbind (added_peers pex) (\<lambda>added. Inr (dropped @ added))) of
        Inl e \<Rightarrow> (Inl e, st)
      | Inr peers \<Rightarrow>
          (Inr (), st\<lparr> hs_tor := foldl (\<lambda>t p. snd (add_peer_if_not_seen now (ppi_addr p) t)) (hs_tor st) peers \<rparr>))"

definition on_holepunch_message :: "torrent_env \<Rightarrow> nat \<Rightarrow> holepunch_message \<Rightarrow> handler_state \<Rightarrow> handler_state" where
  "on_holepunch_message env now msg st =
     (if te_private env then st
      else case hp_msg_type msg of
        Rendezvous \<Rightarrow>
          (let target_addr = hp_addr msg
           in case with_live target_addr lp_tx (tl_peers (hs_tor st)) of
                Some target_tx \<Rightarrow>
                  st\<lparr> hs_sent := hs_sent st
                        @ [(target_tx, WUtHolepunch \<lparr> hp_msg_type = Connect, hp_addr = hs_addr st, hp_err = None \<rparr>),
                           (hs_tx st, WUtHolepunch \<lparr> hp_msg_type = Connect, hp_addr = target_addr, hp_err = None \<rparr>)] \<rparr>
              | None \<Rightarrow>
                  st\<lparr> hs_sent := hs_sent st
                        @ [(hs_tx st, WUtHolepunch \<lparr> hp_msg_type = HpError, hp_addr = target_addr, hp_err = Some NotConnected \<rparr>)] \<rparr>)
      | Connect \<Rightarrow> st\<lparr> hs_tor := snd (add_peer_if_not_seen now (hp_addr msg) (hs_tor st)) \<rparr>
      | HpError \<Rightarrow> st)"

section \<open>Dispatch\<close>

fun drop_outcome :: "(write_outcome, handler_error) rust \<times> handler_state \<Rightarrow> handled" where
  "drop_outcome (r, st) = (rbind r (\<lambda>_. Inr ()), st)"

definition handle_message :: "torrent_env \<Rightarrow> nat \<Rightarrow> message \<Rightarrow> handler_state \<Rightarrow> handled" where
  "handle_message env now msg st =
     (case msg of
        Request req \<Rightarrow> on_download_request env req st
      | Bitfield b \<Rightarrow> on_bitfield env b st
      | Choke \<Rightarrow> (Inr (), on_i_am_choked st)
      | Unchoke \<Rightarrow> (Inr (), on_i_am_unchoked st)
      | Interested \<Rightarrow> (Inr (), on_peer_interested st)
      | Piece p \<Rightarrow> drop_outcome (on_received_piece env now p st)
      | Have h \<Rightarrow> (Inr (), on_have env h st)
      | Port port \<Rightarrow>
          (Inr (), if te_dht env then st\<lparr> hs_pings := hs_pings st @ [sa_new (sa_ip (hs_addr st)) port] \<rparr> else st)
      | HaveAll \<Rightarrow> on_bitfield env (make_piece_bitfield (te_lengths env)) st
      | HaveNone \<Rightarrow> on_bitfield env (replicate (piece_bitfield_bytes (te_lengths env)) 0) st
      | Extended (ExtUtMetadata (UmRequest piece_id)) \<Rightarrow>
          if te_private env then (Inr (), st) else send_metadata_piece env piece_id st
      | Extended (ExtUtPex pex) \<Rightarrow> if te_private env then (Inr (), st) else on_pex_message now pex st
      | Extended (ExtUtHolepunch m) \<Rightarrow> (Inr (), on_holepunch_message env now m st)
      | _ \<Rightarrow> (Inr (), st))"

definition on_received_message :: "torrent_env \<Rightarrow> nat \<Rightarrow> message \<Rightarrow> handler_state \<Rightarrow> handled" where
  "on_received_message env now msg st =
     handle_message env now msg
       (case msg of Bitfield _ \<Rightarrow> st | _ \<Rightarrow> st\<lparr> hs_first_message_received := True \<rparr>)"

end
