(* ===== verification/Peers_Correct.thy ===== *)
theory Peers_Correct
  imports Peer_Lifecycle
begin

text \<open>
  The counters of the peers and the addresses for peer exchange stay in step with the table of peers. The
  laws that an update of a single peer has to obey are the locales \<open>peer_update\<close> and \<open>pex_update\<close>; each
  method of a peer interprets them, and the table keeps its invariants under every update that does.
\<close>

section \<open>Sums over a hash map\<close>

lemma sum_hm_insert:
  fixes f :: "'k \<times> 'v \<Rightarrow> 'a::ab_group_add"
  shows "sum_list (map f (hm_insert k v m)) =
    sum_list (map f m) + f (k, v) - (case map_of m k of None \<Rightarrow> 0 | Some v' \<Rightarrow> f (k, v'))"
  by (induction k v m rule: hm_insert.induct) (auto simp: algebra_simps split: option.splits)

lemma sum_hm_remove:
  fixes f :: "'k \<times> 'v \<Rightarrow> 'a::ab_group_add"
  assumes "hm_ok m"
  shows "sum_list (map f (hm_remove k m)) =
    sum_list (map f m) - (case map_of m k of None \<Rightarrow> 0 | Some v' \<Rightarrow> f (k, v'))"
  using assms
proof (induction m)
  case (Cons e m)
  obtain k' v' where e: "e = (k', v')" by (cases e)
  have "hm_remove k m = m" if "k' = k"
    using Cons.prems that e unfolding hm_remove_def hm_ok_def by (intro filter_True) force
  then show ?case using Cons e by (auto simp: hm_remove_def hm_ok_def algebra_simps split: option.splits)
qed (simp add: hm_remove_def)

lemma sum_filter_not:
  fixes f :: "'a \<Rightarrow> 'b::ab_group_add"
  shows "sum_list (map f (filter (\<lambda>x. \<not> P x) xs)) = sum_list (map f xs) - sum_list (map f (filter P xs))"
  by (induction xs) (auto simp: algebra_simps)

section \<open>Counters by field\<close>

datatype stat_field = SQueued | SConnecting | SLive | STcp | SUtp | SSocks | SDead | SNotNeeded

fun stat :: "stat_field \<Rightarrow> aggregate_peer_stats \<Rightarrow> u32" where
  "stat SQueued a = ag_queued a"
| "stat SConnecting a = ag_connecting a"
| "stat SLive a = ag_live a"
| "stat STcp a = ag_live_tcp a"
| "stat SUtp a = ag_live_utp a"
| "stat SSocks a = ag_live_socks a"
| "stat SDead a = ag_dead a"
| "stat SNotNeeded a = ag_not_needed a"

fun counts :: "stat_field \<Rightarrow> peer_state \<Rightarrow> bool" where
  "counts SQueued s \<longleftrightarrow> s = Queued"
| "counts SConnecting s \<longleftrightarrow> (\<exists>tx. s = Connecting tx)"
| "counts SLive s \<longleftrightarrow> is_live s"
| "counts STcp s \<longleftrightarrow> (\<exists>l. s = Live l \<and> lp_connection_kind l = Tcp)"
| "counts SUtp s \<longleftrightarrow> (\<exists>l. s = Live l \<and> lp_connection_kind l = Utp)"
| "counts SSocks s \<longleftrightarrow> (\<exists>l. s = Live l \<and> lp_connection_kind l = Socks)"
| "counts SDead s \<longleftrightarrow> s = Dead"
| "counts SNotNeeded s \<longleftrightarrow> s = NotNeeded"

definition weight :: "stat_field \<Rightarrow> peer_state \<Rightarrow> u32" where
  "weight c s = of_bool (counts c s)"

lemma stat_inc [simp]: "stat c (agg_inc s a) = stat c a + weight c s"
  by (cases c; cases s) (auto simp: agg_inc_def live_kind_counter_def atomic_inc_def weight_def split: connection_kind.splits)

lemma stat_dec [simp]: "stat c (agg_dec s a) = stat c a - weight c s"
  by (cases c; cases s) (auto simp: agg_dec_def live_kind_counter_def atomic_dec_def weight_def split: connection_kind.splits)

lemma stat_other [simp]:
  "stat c (a\<lparr> ag_seen := x \<rparr>) = stat c a" "stat c (a\<lparr> ag_steals := x \<rparr>) = stat c a"
  by (cases c; simp)+

lemma stat_queued: "stat c (a\<lparr> ag_queued := atomic_inc (ag_queued a) \<rparr>) = stat c a + weight c Queued"
  by (cases c) (simp_all add: weight_def atomic_inc_def)

lemma both_stats_fields [simp]:
  "ps_stats (both_stats f ps) = f (ps_stats ps)" "ps_session_stats (both_stats f ps) = f (ps_session_stats ps)"
  "ps_states (both_stats f ps) = ps_states ps" "ps_live_outgoing_peers (both_stats f ps) = ps_live_outgoing_peers ps"
  by (simp_all add: both_stats_def)

section \<open>Updates of one peer\<close>

definition shifted :: "peer_states \<Rightarrow> peer_states \<Rightarrow> peer_state \<Rightarrow> peer_state \<Rightarrow> bool" where
  "shifted ps ps' old new \<longleftrightarrow>
     (\<forall>c. stat c (ps_stats ps') = stat c (ps_stats ps) - weight c old + weight c new
        \<and> stat c (ps_session_stats ps') = stat c (ps_session_stats ps) - weight c old + weight c new)"

definition tally :: "stat_field \<Rightarrow> peer_states \<Rightarrow> u32" where
  "tally c ps = sum_list (map (\<lambda>e. weight c (pr_state (snd e))) (ps_states ps))"

definition counters_ok :: "(stat_field \<Rightarrow> u32) \<Rightarrow> peer_states \<Rightarrow> bool" where
  "counters_ok base ps \<longleftrightarrow> hm_ok (ps_states ps) \<and>
     (\<forall>c. stat c (ps_stats ps) = tally c ps \<and> stat c (ps_session_stats ps) = base c + tally c ps)"

definition pex_ok :: "peer_states \<Rightarrow> bool" where
  "pex_ok ps \<longleftrightarrow> (\<forall>a \<in> ps_live_outgoing_peers ps. \<exists>h p.
     map_of (ps_states ps) h = Some p \<and> is_live (pr_state p) \<and> pr_outgoing_address p = Some a)"

definition pex_law :: "peer \<Rightarrow> peer \<Rightarrow> peer_states \<Rightarrow> peer_states \<Rightarrow> bool" where
  "pex_law p p' ps ps' \<longleftrightarrow> (\<forall>a \<in> ps_live_outgoing_peers ps'.
     is_live (pr_state p') \<and> pr_outgoing_address p' = Some a
     \<or> a \<in> ps_live_outgoing_peers ps \<and> \<not> (is_live (pr_state p) \<and> pr_outgoing_address p = Some a))"

lemma counters_put:
  assumes ok: "counters_ok base ps" and p: "map_of (ps_states ps) h = Some p"
    and same: "ps_states ps' = ps_states ps" and sh: "shifted ps ps' (pr_state p) (pr_state p')"
  shows "counters_ok base (ps'\<lparr> ps_states := hm_insert h p' (ps_states ps') \<rparr>)"
proof -
  have T: "tally c (ps'\<lparr> ps_states := hm_insert h p' (ps_states ps') \<rparr>) =
      tally c ps - weight c (pr_state p) + weight c (pr_state p')" for c
    using p same by (simp add: tally_def sum_hm_insert)
  show ?thesis
    using ok sh same unfolding counters_ok_def shifted_def T by (simp add: hm.invar_insert)
qed

lemma pex_put:
  assumes ok: "pex_ok ps" and hm: "hm_ok (ps_states ps)" and p: "map_of (ps_states ps) h = Some p"
    and same: "ps_states ps' = ps_states ps" and law: "pex_law p p' ps ps'"
  shows "pex_ok (ps'\<lparr> ps_states := hm_insert h p' (ps_states ps') \<rparr>)"
  unfolding pex_ok_def
proof
  fix a assume a: "a \<in> ps_live_outgoing_peers (ps'\<lparr> ps_states := hm_insert h p' (ps_states ps') \<rparr>)"
  let ?m = "map_of (hm_insert h p' (ps_states ps))"
  have m: "?m = (map_of (ps_states ps))(h \<mapsto> p')" using hm by (rule hm.get_insert)
  have "\<exists>h' q. ?m h' = Some q \<and> is_live (pr_state q) \<and> pr_outgoing_address q = Some a"
  proof (cases "is_live (pr_state p') \<and> pr_outgoing_address p' = Some a")
    case True
    then show ?thesis using m by (intro exI [of _ h] exI [of _ p']) simp
  next
    case False
    then have in_old: "a \<in> ps_live_outgoing_peers ps" "\<not> (is_live (pr_state p) \<and> pr_outgoing_address p = Some a)"
      using law a by (auto simp: pex_law_def)
    then obtain h' q where q: "map_of (ps_states ps) h' = Some q" "is_live (pr_state q)" "pr_outgoing_address q = Some a"
      using ok by (auto simp: pex_ok_def)
    then have "h' \<noteq> h" using p in_old(2) by auto
    then show ?thesis using q m by (intro exI [of _ h'] exI [of _ q]) simp
  qed
  then show "\<exists>h' q. map_of (ps_states (ps'\<lparr> ps_states := hm_insert h p' (ps_states ps') \<rparr>)) h' = Some q
      \<and> is_live (pr_state q) \<and> pr_outgoing_address q = Some a" using same by simp
qed

locale peer_update =
  fixes f :: "peer \<times> peer_states \<Rightarrow> 'r \<times> peer \<times> peer_states"
  assumes keeps_table: "f (p, ps) = (r, p', ps') \<Longrightarrow> ps_states ps' = ps_states ps"
    and shifts: "f (p, ps) = (r, p', ps') \<Longrightarrow> shifted ps ps' (pr_state p) (pr_state p')"
begin

lemma counters_with: "counters_ok base ps \<Longrightarrow> counters_ok base (snd (with_peer_mut h f ps))"
  by (auto simp: with_peer_mut_def split: option.splits prod.splits intro: counters_put keeps_table shifts)

end

locale pex_update = peer_update +
  assumes addresses: "f (p, ps) = (r, p', ps') \<Longrightarrow> pex_law p p' ps ps'"
begin

lemma pex_with: "pex_ok ps \<Longrightarrow> hm_ok (ps_states ps) \<Longrightarrow> pex_ok (snd (with_peer_mut h f ps))"
  by (auto simp: with_peer_mut_def split: option.splits prod.splits intro: pex_put keeps_table addresses)

end

lemma set_state_shape:
  "set_state now new (p, ps) = (old, p', ps') \<Longrightarrow> old = pr_state p \<and> pr_state p' = new
     \<and> pr_outgoing_address p' = pr_outgoing_address p \<and> pr_stats p' = pr_stats p \<and> pr_addr p' = pr_addr p
     \<and> ps_states ps' = ps_states ps"
  by (auto simp: set_state_def Let_def)

interpretation st: pex_update "set_state now new"
proof
  fix p ps r p' ps'
  assume run: "set_state now new (p, ps) = (r, p', ps')"
  show "ps_states ps' = ps_states ps" using set_state_shape [OF run] by simp
  show "shifted ps ps' (pr_state p) (pr_state p')"
    using run by (auto simp: set_state_def Let_def shifted_def agg_incdec_def)
  show "pex_law p p' ps ps'"
    using run by (auto simp: set_state_def Let_def pex_law_def split: option.splits if_splits)
qed

lemma shifted_trans: "shifted ps1 ps2 a b \<Longrightarrow> shifted ps2 ps3 b c \<Longrightarrow> shifted ps1 ps3 a c"
  by (simp add: shifted_def)

lemma shifted_same [simp]: "shifted ps ps s s"
  by (simp add: shifted_def)

lemma pex_law_same: "pr_state p' = pr_state p \<Longrightarrow> pr_outgoing_address p' = pr_outgoing_address p \<Longrightarrow> pex_law p p' ps ps"
  by (auto simp: pex_law_def)

lemmas set_state_laws = st.keeps_table st.shifts st.addresses

interpretation nn: pex_update "set_not_needed now"
  unfolding set_not_needed_def by (rule st.pex_update_axioms)

text \<open>Every method that changes the state of a peer at most once inherits the laws.\<close>

lemma once_laws:
  assumes "(p', ps') = snd (set_state now new (p, ps)) \<or> (p', ps') = (p, ps)"
  shows "ps_states ps' = ps_states ps" and "shifted ps ps' (pr_state p) (pr_state p')" and "pex_law p p' ps ps'"
proof -
  obtain r q qs where run: "set_state now new (p, ps) = (r, q, qs)" by (metis prod_cases3)
  then show "ps_states ps' = ps_states ps" "shifted ps ps' (pr_state p) (pr_state p')" "pex_law p p' ps ps'"
    using set_state_laws [OF run] assms by (auto simp: pex_law_same)
qed

interpretation rc: pex_update "reconnect_not_needed_peer now"
proof
  fix p ps r p' ps'
  assume "reconnect_not_needed_peer now (p, ps) = (r, p', ps')"
  then have "(p', ps') = snd (set_state now Queued (p, ps)) \<or> (p', ps') = (p, ps)"
    by (auto simp: reconnect_not_needed_peer_def split: peer_state.splits option.splits if_splits)
  then show "ps_states ps' = ps_states ps" "shifted ps ps' (pr_state p) (pr_state p')" "pex_law p p' ps ps'"
    by (rule once_laws)+
qed

interpretation ic: pex_update "idle_to_connecting now tx"
proof
  fix p ps r p' ps'
  assume "idle_to_connecting now tx (p, ps) = (r, p', ps')"
  then have "(p', ps') = snd (set_state now (Connecting tx) (p, ps)) \<or> (p', ps') = (p, ps)"
    by (auto simp: idle_to_connecting_def split: if_splits)
  then show "ps_states ps' = ps_states ps" "shifted ps ps' (pr_state p) (pr_state p')" "pex_law p p' ps ps'"
    by (rule once_laws)+
qed

interpretation dq: pex_update "dead_to_queued now"
proof
  fix p ps r p' ps'
  assume "dead_to_queued now (p, ps) = (r, p', ps')"
  then have "(p', ps') = snd (set_state now Queued (p, ps)) \<or> (p', ps') = (p, ps)"
    by (auto simp: dead_to_queued_def split: peer_state.splits)
  then show "ps_states ps' = ps_states ps" "shifted ps ps' (pr_state p) (pr_state p')" "pex_law p p' ps ps'"
    by (rule once_laws)+
qed

text \<open>Two changes in a row: the state is taken, which leaves \<open>Queued\<close>, and then set.\<close>

lemma twice_laws:
  assumes 1: "set_state now Queued (p, ps) = (old, p1, ps1)" and 2: "set_state now new (p2, ps1) = (old', p', ps')"
    and same: "pr_state p2 = pr_state p1" "pr_outgoing_address p2 = pr_outgoing_address p1"
  shows "ps_states ps' = ps_states ps" and "shifted ps ps' (pr_state p) (pr_state p')" and "pex_law p p' ps ps'"
proof -
  note L1 = set_state_laws [OF 1] and L2 = set_state_laws [OF 2]
  show "ps_states ps' = ps_states ps" "shifted ps ps' (pr_state p) (pr_state p')"
    using L1 L2 shifted_trans same by auto
  show "pex_law p p' ps ps'"
    using L1(3) L2(3) set_state_shape [OF 1] set_state_shape [OF 2] same by (auto simp: pex_law_def)
qed

interpretation cl: pex_update "connecting_to_live now peer_id kind"
proof
  fix p ps r p' ps'
  assume run: "connecting_to_live now peer_id kind (p, ps) = (r, p', ps')"
  obtain old p1 ps1 where 1: "set_state now Queued (p, ps) = (old, p1, ps1)" by (metis prod_cases3)
  have "(\<exists>new old'. set_state now new (p1, ps1) = (old', p', ps')) \<or> p' = p \<and> ps' = ps"
    using run 1 unfolding connecting_to_live_def take_state_def
    by (auto simp: Let_def split: peer_state.splits prod.splits) (metis prod.collapse)+
  then show "ps_states ps' = ps_states ps" "shifted ps ps' (pr_state p) (pr_state p')" "pex_law p p' ps ps'"
    using twice_laws [OF 1] by (auto simp: pex_law_same)
qed

lemma plain_update: "pex_update (\<lambda>(p, ps). (r p, g p, ps))"
  if "\<And>p. (\<forall>c. weight c (pr_state (g p)) = weight c (pr_state p)) \<and> is_live (pr_state (g p)) = is_live (pr_state p)
        \<and> pr_outgoing_address (g p) = pr_outgoing_address p"
  using that by unfold_locales (auto simp: shifted_def pex_law_def)

lemma live_update:
  assumes "\<And>l. lp_connection_kind (snd (g l)) = lp_connection_kind l"
  shows "pex_update (\<lambda>(p, ps). case pr_state p of
      Live l \<Rightarrow> (case g l of (r, l') \<Rightarrow> (Some r, p\<lparr> pr_state := Live l' \<rparr>, ps)) | _ \<Rightarrow> (None, p, ps))"
proof -
  have w: "weight c (Live l') = weight c (Live l)" if "g l = (r, l')" for c l l' r
    using assms [of l] that by (cases c) (simp_all add: weight_def)
  show ?thesis
    by unfold_locales (auto simp: shifted_def pex_law_def w split: peer_state.splits prod.splits)
qed

section \<open>The table under every operation\<close>

definition table_ok :: "bool \<Rightarrow> (stat_field \<Rightarrow> u32) \<Rightarrow> peer_states \<Rightarrow> bool" where
  "table_ok strict base ps \<longleftrightarrow> counters_ok base ps \<and> (strict \<longrightarrow> pex_ok ps)"

lemma table_ok_hm: "table_ok strict base ps \<Longrightarrow> hm_ok (ps_states ps)"
  by (simp add: table_ok_def counters_ok_def)

lemma table_with:
  assumes "pex_update f" and "table_ok strict base ps"
  shows "table_ok strict base (snd (with_peer_mut h f ps))"
  using pex_update.pex_with [OF assms(1)] peer_update.counters_with [OF pex_update.axioms(1) [OF assms(1)]]
    assms(2) table_ok_hm [OF assms(2)] by (simp add: table_ok_def)

lemma table_put:
  assumes "table_ok strict base ps" and "map_of (ps_states ps) h = Some p" and "ps_states ps' = ps_states ps"
    and "shifted ps ps' (pr_state p) (pr_state p')" and "pex_law p p' ps ps'"
  shows "table_ok strict base (ps'\<lparr> ps_states := hm_insert h p' (ps_states ps') \<rparr>)"
  using assms counters_put [of base ps h p ps' p'] pex_put [of ps h p ps' p'] table_ok_hm [OF assms(1)]
  by (simp add: table_ok_def)

lemma table_live_mut:
  assumes "\<And>l. lp_connection_kind (snd (g l)) = lp_connection_kind l" and "table_ok strict base ps"
  shows "table_ok strict base (snd (with_live_mut h g ps))"
proof -
  let ?f = "\<lambda>(p, ps). case pr_state p of
      Live l \<Rightarrow> (case g l of (r, l') \<Rightarrow> (Some r, p\<lparr> pr_state := Live l' \<rparr>, ps)) | _ \<Rightarrow> (None, p, ps)"
  obtain r ps' where run: "with_peer_mut h ?f ps = (r, ps')" by (rule prod.exhaust)
  have "table_ok strict base (snd (with_peer_mut h ?f ps))" by (rule table_with [OF live_update [OF assms(1)] assms(2)])
  then show ?thesis unfolding with_live_mut_def run by simp
qed

lemma table_counters:
  assumes "table_ok strict base ps"
  shows "table_ok strict base (upd_counters f h ps)"
  unfolding upd_counters_def by (rule table_with [OF plain_update assms]) simp

lemma table_stats:
  assumes "table_ok strict base ps" and "\<And>c a. stat c (f a) = stat c a"
  shows "table_ok strict base (both_stats f ps)"
  using assms by (simp add: table_ok_def counters_ok_def pex_ok_def tally_def)

lemma pex_ok_mono:
  assumes "pex_ok ps" and "ps_live_outgoing_peers ps' = ps_live_outgoing_peers ps"
    and "\<And>h q. map_of (ps_states ps) h = Some q \<Longrightarrow> is_live (pr_state q) \<Longrightarrow> map_of (ps_states ps') h = Some q"
  shows "pex_ok ps'"
  unfolding pex_ok_def
proof
  fix a assume "a \<in> ps_live_outgoing_peers ps'"
  then obtain h p where "map_of (ps_states ps) h = Some p" "is_live (pr_state p)" "pr_outgoing_address p = Some a"
    using assms(1,2) by (auto simp: pex_ok_def)
  then show "\<exists>h p. map_of (ps_states ps') h = Some p \<and> is_live (pr_state p) \<and> pr_outgoing_address p = Some a"
    using assms(3) by blast
qed

lemma table_new_peer:
  assumes ok: "table_ok strict base ps" and new: "map_of (ps_states ps) h = None"
    and same: "ps_states ps' = ps_states ps" "ps_live_outgoing_peers ps' = ps_live_outgoing_peers ps"
    and st: "\<And>c. stat c (ps_stats ps') = stat c (ps_stats ps) + weight c (pr_state p)"
      "\<And>c. stat c (ps_session_stats ps') = stat c (ps_session_stats ps) + weight c (pr_state p)"
  shows "table_ok strict base (ps'\<lparr> ps_states := hm_insert h p (ps_states ps') \<rparr>)"
proof -
  have T: "tally c (ps'\<lparr> ps_states := hm_insert h p (ps_states ps') \<rparr>) = tally c ps + weight c (pr_state p)" for c
    using new same by (simp add: tally_def sum_hm_insert)
  have "pex_ok (ps'\<lparr> ps_states := hm_insert h p (ps_states ps') \<rparr>)" if "pex_ok ps"
    using that by (rule pex_ok_mono) (use same new in \<open>auto simp: hm.get_insert [OF table_ok_hm [OF ok]]\<close>)
  then show ?thesis
    using ok same unfolding table_ok_def counters_ok_def T by (simp add: hm.invar_insert st add.assoc)
qed

lemma table_remove:
  assumes ok: "table_ok strict base ps" and p: "map_of (ps_states ps) h = Some p" and dead: "\<not> is_live (pr_state p)"
  shows "table_ok strict base (both_stats (agg_dec (pr_state p)) (ps\<lparr> ps_states := hm_remove h (ps_states ps) \<rparr>))"
proof -
  let ?ps = "both_stats (agg_dec (pr_state p)) (ps\<lparr> ps_states := hm_remove h (ps_states ps) \<rparr>)"
  note hm = table_ok_hm [OF ok]
  have T: "tally c ?ps = tally c ps - weight c (pr_state p)" for c
    using p by (simp add: tally_def sum_hm_remove [OF hm])
  have "pex_ok ?ps" if "pex_ok ps"
    using that by (rule pex_ok_mono) (use p dead in \<open>auto simp: hm.get_remove [OF hm]\<close>)
  then show ?thesis
    using ok unfolding table_ok_def counters_ok_def T by (simp add: hm.invar_remove add_diff_eq)
qed

lemma table_add_if_not_seen: "table_ok strict base ps \<Longrightarrow> table_ok strict base (snd (add_if_not_seen now a ps))"
proof -
  assume ok: "table_ok strict base ps"
  show ?thesis
  proof (cases "map_of (ps_states ps) a")
    case None
    let ?inc = "\<lambda>st. st\<lparr> ag_queued := atomic_inc (ag_queued st) \<rparr>"
    let ?seen = "\<lambda>st. st\<lparr> ag_seen := atomic_inc (ag_seen st) \<rparr>"
    have "table_ok strict base ((both_stats ?inc ps)\<lparr> ps_states :=
        hm_insert a (new_with_outgoing_address now a) (ps_states (both_stats ?inc ps)) \<rparr>)"
      by (rule table_new_peer [OF ok None]) (simp_all add: stat_queued new_with_outgoing_address_def)
    then have "table_ok strict base (both_stats ?seen ((both_stats ?inc ps)\<lparr> ps_states :=
        hm_insert a (new_with_outgoing_address now a) (ps_states (both_stats ?inc ps)) \<rparr>))"
      by (rule table_stats) simp
    then show ?thesis using None by (simp add: add_if_not_seen_def Let_def both_stats_def)
  qed (simp add: add_if_not_seen_def ok)
qed

lemma table_drop_peer:
  assumes "table_ok strict base ps" and "\<And>p. map_of (ps_states ps) h = Some p \<Longrightarrow> \<not> is_live (pr_state p)"
  shows "table_ok strict base (snd (drop_peer h ps))"
  using assms table_remove by (auto simp: drop_peer_def split: option.splits)

lemma table_incoming:
  assumes ok: "table_ok strict base ps" and run: "add_incoming_peer now permit tx a pid kind ps = Inr (res, ps')"
  shows "table_ok strict base ps'"
proof (cases "permit")
  case False
  then show ?thesis using run table_counters [OF ok] by (auto simp: add_incoming_peer_def)
next
  case True
  let ?count = "upd_counters (\<lambda>c. c\<lparr> pc_incoming_connections := atomic_inc (pc_incoming_connections c) \<rparr>) a"
  show ?thesis
  proof (cases "map_of (ps_states ps) a")
    case None
    let ?seen = "ps\<lparr> ps_stats := (ps_stats ps)\<lparr> ag_seen := atomic_inc (ag_seen (ps_stats ps)) \<rparr> \<rparr>"
    obtain p ps2 where new: "new_live_for_incoming_connection now a pid tx kind ?seen = (p, ps2)" by (rule prod.exhaust)
    have "table_ok strict base (ps2\<lparr> ps_states := hm_insert a p (ps_states ps2) \<rparr>)"
      using new by (intro table_new_peer [OF ok None]) (auto simp: new_live_for_incoming_connection_def Let_def)
    moreover have "ps' = ?count (ps2\<lparr> ps_states := hm_insert a p (ps_states ps2) \<rparr>)"
      using run True None new by (simp add: add_incoming_peer_def Let_def)
    ultimately show ?thesis using table_counters by simp
  next
    case (Some p)
    obtain old p1 ps1 where 1: "set_state now Queued (p, ps) = (old, p1, ps1)" by (rule prod_cases3)
    obtain old' p2 ps2 where 2: "set_state now (Live (live_peer_state_new pid tx True kind)) (p1, ps1) = (old', p2, ps2)"
      by (rule prod_cases3)
    have "ps' = ps \<or> ps' = ?count (ps2\<lparr> ps_states := hm_insert a p2 (ps_states ps2) \<rparr>)"
      using run True Some 1 2
      by (auto simp: add_incoming_peer_def incoming_connection_def take_state_def split: peer_state.splits)
    moreover have "table_ok strict base (ps2\<lparr> ps_states := hm_insert a p2 (ps_states ps2) \<rparr>)"
      by (rule table_put [OF ok Some twice_laws [OF 1 2 refl refl]])
    ultimately show ?thesis using table_counters ok by auto
  qed
qed

lemma table_prune: "table_ok strict base ps \<Longrightarrow> table_ok strict base (snd (prune_dead_peers now retention ps))"
proof -
  assume ok: "table_ok strict base ps"
  let ?gone = "filter (\<lambda>e. prunable now retention (snd e)) (ps_states ps)"
  let ?kept = "filter (\<lambda>e. \<not> prunable now retention (snd e)) (ps_states ps)"
  let ?dec = "\<lambda>ps (k :: socket_addr, p). both_stats (agg_dec (pr_state p)) ps"
  have F: "stat c (ps_stats (foldl ?dec ps0 xs)) = stat c (ps_stats ps0) - sum_list (map (\<lambda>e. weight c (pr_state (snd e))) xs)
      \<and> stat c (ps_session_stats (foldl ?dec ps0 xs)) = stat c (ps_session_stats ps0) - sum_list (map (\<lambda>e. weight c (pr_state (snd e))) xs)
      \<and> ps_states (foldl ?dec ps0 xs) = ps_states ps0
      \<and> ps_live_outgoing_peers (foldl ?dec ps0 xs) = ps_live_outgoing_peers ps0" for ps0 xs c
    by (induction xs arbitrary: ps0) (auto simp: algebra_simps)
  have kept: "hm_ok ?kept" using table_ok_hm [OF ok] by (simp add: hm_ok_def distinct_map_filter)
  have "pex_ok (snd (prune_dead_peers now retention ps))" if "pex_ok ps"
    using that
  proof (rule pex_ok_mono)
    fix h q assume q: "map_of (ps_states ps) h = Some q" "is_live (pr_state q)"
    then have "(h, q) \<in> set ?kept" using map_of_SomeD [OF q(1)] by (auto simp: prunable_def)
    then have "map_of ?kept h = Some q" by (rule iffD1 [OF hm.mem_iff_get [OF kept]])
    then show "map_of (ps_states (snd (prune_dead_peers now retention ps))) h = Some q"
      by (simp add: prune_dead_peers_def Let_def F)
  qed (simp add: prune_dead_peers_def Let_def F)
  then show ?thesis
    using ok kept unfolding table_ok_def counters_ok_def prune_dead_peers_def Let_def
    by (simp add: F tally_def sum_filter_not add_diff_eq)
qed

end
