(* ===== verification/Peer_Lifecycle_Correct.thy ===== *)
theory Peer_Lifecycle_Correct
  imports Peers_Correct Piece_Tracker_Correct
begin

text \<open>
  The peers of a running torrent under every interleaving of the operations on them. In the strict
  relation an incoming peer that is already announced for peer exchange does not change the address it
  is announced with.
\<close>

inductive tl_step :: "bool \<Rightarrow> torrent_live \<Rightarrow> torrent_live \<Rightarrow> bool" for strict where
  seen: "tl_step strict t (snd (add_peer_if_not_seen now a t))"
| incoming: "add_incoming_peer now permit tx a pid kind (tl_peers t) = Inr (res, ps) \<Longrightarrow> tl_step strict t (t\<lparr> tl_peers := ps \<rparr>)"
| connecting: "tl_step strict t (t\<lparr> tl_peers := snd (mark_peer_connecting now tx h (tl_peers t)) \<rparr>)"
| counted: "tl_step strict t (t\<lparr> tl_peers := upd_counters f h (tl_peers t) \<rparr>)"
| live: "tl_step strict t (t\<lparr> tl_peers := set_peer_live now h pid kind (tl_peers t) \<rparr>)"
| outgoing: "(\<And>p b. strict \<Longrightarrow> map_of (ps_states (tl_peers t)) h = Some p \<Longrightarrow> pr_outgoing_address p = Some b \<Longrightarrow>
      b \<notin> ps_live_outgoing_peers (tl_peers t)) \<Longrightarrow>
    tl_step strict t (t\<lparr> tl_peers := update_outgoing_addr True (Some port) ip h (tl_peers t) \<rparr>)"
| not_needed: "tl_step strict t (t\<lparr> tl_peers := snd (mark_peer_not_needed now h (tl_peers t)) \<rparr>)"
| interested: "tl_step strict t (t\<lparr> tl_peers := snd (mark_peer_interested h b (tl_peers t)) \<rparr>)"
| bitfield: "tl_step strict t (t\<lparr> tl_peers := snd (update_bitfield h bf (tl_peers t)) \<rparr>)"
| requests: "tl_step strict t (t\<lparr> tl_peers := snd (with_live_mut h (\<lambda>l. ((), l\<lparr> lp_inflight_requests := f (lp_inflight_requests l) \<rparr>)) (tl_peers t)) \<rparr>)"
| steal: "tl_step strict t (t\<lparr> tl_peers := snd (on_steal h h' i (tl_peers t)) \<rparr>)"
| prune: "tl_step strict t (t\<lparr> tl_peers := snd (prune_dead_peers now retention (tl_peers t)) \<rparr>)"
| disconnect: "disconnect_all_peers_that_have_full_torrent now n (tl_peers t) = Inr (sent, ps) \<Longrightarrow> tl_step strict t (t\<lparr> tl_peers := ps \<rparr>)"
| reconnect: "tl_step strict t (reconnect_all_not_needed_peers now t)"
| requeue: "tl_step strict t (requeue_dead_peers now t)"
| died: "tl_step strict t (snd (on_peer_died now h had_error finished inc backoff t))"
| waited: "tl_step strict t (wait_for_peer now h t)"
| taken: "tl_step strict t (t\<lparr> tl_peer_queue := q \<rparr>)"
| pieces: "tl_step strict t (t\<lparr> tl_pieces := pt \<rparr>)"

definition no_peers :: "aggregate_peer_stats \<Rightarrow> aggregate_peer_stats \<Rightarrow> peer_states" where
  "no_peers session zero = \<lparr> ps_session_stats = session, ps_live_outgoing_peers = {}, ps_stats = zero, ps_states = [] \<rparr>"

inductive tl_reachable :: "bool \<Rightarrow> aggregate_peer_stats \<Rightarrow> torrent_live \<Rightarrow> bool" for strict session where
  init: "(\<And>c. stat c zero = 0) \<Longrightarrow> tl_peers t = no_peers session zero \<Longrightarrow> tl_reachable strict session t"
| step: "tl_reachable strict session t \<Longrightarrow> tl_step strict t t' \<Longrightarrow> tl_reachable strict session t'"

lemma try_send_peers [simp]: "tl_peers (snd (try_send a t)) = tl_peers t"
  by (simp add: try_send_def)

lemma try_send_eq: "try_send a t = (ok, t') \<Longrightarrow> tl_peers t' = tl_peers t"
  using try_send_peers [of a t] by simp

lemma with_mut_ok:
  assumes "pex_update f" and "table_ok strict base ps" and "with_peer_mut h f ps = (r, ps')"
  shows "table_ok strict base ps'"
  using table_with [OF assms(1,2), of h] assms(3) by simp

lemma reconnect_ok: "table_ok strict base (tl_peers t) \<Longrightarrow> table_ok strict base (tl_peers (reconnect_peers now keys t))"
proof (induction keys arbitrary: t)
  case (Cons key keys)
  obtain r ps where run: "with_peer_mut key (reconnect_not_needed_peer now) (tl_peers t) = (r, ps)" by (rule prod.exhaust)
  have ps: "table_ok strict base ps" by (rule with_mut_ok [OF rc.pex_update_axioms Cons.prems run])
  show ?case
    using Cons.IH ps run by (auto simp: Let_def dest: try_send_eq split: option.splits prod.splits)
qed simp

lemma requeue_ok: "table_ok strict base (tl_peers t) \<Longrightarrow> table_ok strict base (tl_peers (requeue_peers now keys t))"
proof (induction keys arbitrary: t)
  case (Cons key keys)
  obtain r ps where run: "with_peer_mut key (dead_to_queued now) (tl_peers t) = (r, ps)" by (rule prod.exhaust)
  have ps: "table_ok strict base ps" by (rule with_mut_ok [OF dq.pex_update_axioms Cons.prems run])
  show ?case
    using Cons.IH ps run by (auto simp: Let_def dest: try_send_eq split: option.splits prod.splits)
qed simp

lemma disconnect_ok:
  assumes "table_ok strict base (snd s)" and "rfold (\<lambda>s key. disconnect_full_peer now n key s) s keys = Inr s'"
  shows "table_ok strict base (snd s')"
  using assms
proof (induction keys arbitrary: s)
  case (Cons key keys)
  obtain sent ps where s: "s = (sent, ps)" by (rule prod.exhaust)
  obtain s1 where s1: "disconnect_full_peer now n key s = Inr s1"
    "rfold (\<lambda>s key. disconnect_full_peer now n key s) s1 keys = Inr s'"
    using Cons.prems(2) by (auto simp: rbind_eq_Inr)
  have "table_ok strict base (snd s1)"
  proof (cases "snd s1 = ps")
    case False
    then obtain p prev p' ps' where p: "map_of (ps_states ps) key = Some p" and run: "set_state now NotNeeded (p, ps) = (prev, p', ps')"
      and s1': "snd s1 = ps'\<lparr> ps_states := hm_insert key p' (ps_states ps') \<rparr>"
      using s1(1) unfolding s disconnect_full_peer_def set_not_needed_def
      by (auto split: option.splits peer_state.splits if_splits prod.splits)
    show ?thesis using Cons.prems(1) unfolding s1' by (intro table_put [OF _ p set_state_laws [OF run]]) (simp add: s)
  qed (use Cons.prems(1) s in simp)
  then show ?case using Cons.IH s1(2) by blast
qed simp

lemma put_peer_peers: "tl_peers (put_peer h (p, ps) t) = ps\<lparr> ps_states := hm_insert h p (ps_states ps) \<rparr>"
  by (simp add: put_peer_def)

text \<open>The death of a peer ends in one of these tables.\<close>

lemma died_finish_peers:
  "\<exists>new q. tl_peers (snd (died_finish now h had_error finished inc backoff (p1, ps1) t)) =
      tl_peers (put_peer h (snd (set_state now new (q, ps1))) t)
    \<and> pr_state q = pr_state p1 \<and> pr_outgoing_address q = pr_outgoing_address p1
    \<and> (new = NotNeeded \<or> new = Dead)"
proof -
  let ?p = "p1\<lparr> pr_stats := (pr_stats p1)\<lparr> pc_errors := pc_errors (pr_stats p1) + 1 \<rparr> \<rparr>"
  show ?thesis
    by (intro exI [of _ "if had_error \<and> \<not> finished then Dead else NotNeeded"] exI [of _ "if had_error then ?p else p1"])
      (simp add: died_finish_def Let_def)
qed

lemma died_ok:
  assumes ok: "table_ok strict base (tl_peers t)"
  shows "table_ok strict base (tl_peers (snd (on_peer_died now h had_error finished inc backoff t)))"
proof (cases "map_of (ps_states (tl_peers t)) h")
  case None
  then show ?thesis using ok by (simp add: on_peer_died_def)
next
  case (Some p)
  obtain prev p1 ps1 where 1: "set_state now Queued (p, tl_peers t) = (prev, p1, ps1)" by (rule prod_cases3)
  note shape = set_state_shape [OF 1]
  have once: "table_ok strict base (tl_peers (put_peer h (p1, ps1) t'))" for t'
    unfolding put_peer_peers by (rule table_put [OF ok Some set_state_laws [OF 1]])
  have twice: "table_ok strict base (tl_peers (put_peer h (snd (set_state now new (q, ps1))) t'))"
    if "pr_state q = pr_state p1" "pr_outgoing_address q = pr_outgoing_address p1" for new q t'
  proof -
    obtain r q' ps' where 2: "set_state now new (q, ps1) = (r, q', ps')" by (rule prod_cases3)
    show ?thesis unfolding 2 snd_conv put_peer_peers by (rule table_put [OF ok Some twice_laws [OF 1 2 that]])
  qed
  have fin: "table_ok strict base (tl_peers (snd (died_finish now h had_error finished inc backoff (p1, ps1) t')))" for t'
    using died_finish_peers [of now h had_error finished inc backoff p1 ps1 t'] twice by metis
  have drop: "table_ok strict base (snd (drop_peer h (tl_peers (put_peer h (p1, ps1) t))))"
  proof (rule table_drop_peer [OF once])
    fix q assume "map_of (ps_states (tl_peers (put_peer h (p1, ps1) t))) h = Some q"
    then have "q = p1" using hm.get_insert [OF table_ok_hm [OF ok]] shape by (simp add: put_peer_peers)
    then show "\<not> is_live (pr_state q)" using shape by simp
  qed
  show ?thesis
    using once twice [of p1] fin drop Some 1
    by (simp add: on_peer_died_def take_state_def Let_def split: peer_state.splits option.splits sum.splits prod.splits)
qed

lemma outgoing_ok:
  assumes ok: "table_ok strict base ps"
    and guard: "\<And>p b. strict \<Longrightarrow> map_of (ps_states ps) h = Some p \<Longrightarrow> pr_outgoing_address p = Some b \<Longrightarrow> b \<notin> ps_live_outgoing_peers ps"
  shows "table_ok strict base (update_outgoing_addr True (Some port) ip h ps)"
proof (cases "map_of (ps_states ps) h")
  case None
  then show ?thesis using ok by (simp add: update_outgoing_addr_def with_peer_mut_def Let_def)
next
  case (Some p)
  let ?a = "sa_new (case ip of None \<Rightarrow> sa_ip h | Some i \<Rightarrow> i) port"
  let ?p = "p\<lparr> pr_outgoing_address := Some ?a \<rparr>"
  have run: "update_outgoing_addr True (Some port) ip h ps = ps\<lparr> ps_states := hm_insert h ?p (ps_states ps) \<rparr>"
    using Some by (simp add: update_outgoing_addr_def with_peer_mut_def Let_def)
  have C: "counters_ok base (ps\<lparr> ps_states := hm_insert h ?p (ps_states ps) \<rparr>)"
    using ok by (intro counters_put [OF _ Some]) (simp_all add: table_ok_def)
  have "pex_ok (ps\<lparr> ps_states := hm_insert h ?p (ps_states ps) \<rparr>)" if strict
    using ok that guard [OF that Some] table_ok_hm [OF ok]
    by (intro pex_put [OF _ _ Some]) (auto simp: table_ok_def pex_law_def)
  with C show ?thesis unfolding run table_ok_def by blast
qed

lemma step_ok: "tl_step strict t t' \<Longrightarrow> table_ok strict base (tl_peers t) \<Longrightarrow> table_ok strict base (tl_peers t')"
proof (induction rule: tl_step.induct)
  case (seen t now a)
  then show ?case
    using table_add_if_not_seen [OF seen, of now a] by (auto simp: add_peer_if_not_seen_def split: option.splits prod.splits)
next
  case (incoming now permit tx a pid kind t res ps)
  then show ?case using table_incoming by simp
next
  case (connecting t now tx h)
  obtain r ps' where run: "with_peer_mut h (idle_to_connecting now tx) (tl_peers t) = (r, ps')" by (rule prod.exhaust)
  have "table_ok strict base ps'" by (rule with_mut_ok [OF ic.pex_update_axioms connecting run])
  then show ?case by (simp add: mark_peer_connecting_def run split: option.splits)
next
  case (counted t f h)
  then show ?case by (simp add: table_counters)
next
  case (live t now h pid kind)
  then show ?case using table_with [OF cl.pex_update_axioms] by (simp add: set_peer_live_def)
next
  case (outgoing t h port ip)
  then show ?case using outgoing_ok by simp
next
  case (not_needed t now h)
  then show ?case using table_with [OF nn.pex_update_axioms] by (simp add: mark_peer_not_needed_def)
next
  case (steal t h h' i)
  let ?g = "cancel_stolen i"
  have "lp_connection_kind (snd (?g l)) = lp_connection_kind l" for l by (simp add: cancel_stolen_def)
  then have "table_ok strict base (snd (with_live_mut h ?g ps))" if "table_ok strict base ps" for ps
    using that by (rule table_live_mut)
  moreover have "table_ok strict base (both_stats inc_steals ps)" if "table_ok strict base ps" for ps
    using that by (rule table_stats) (simp add: inc_steals_def)
  ultimately show ?case using steal by (simp add: on_steal_def Let_def table_counters split_beta)
next
  case (prune t now retention)
  then show ?case by (simp add: table_prune)
next
  case (disconnect now n t sent ps)
  then show ?case using disconnect_ok [of strict base "([], tl_peers t)"]
    by (fastforce simp: disconnect_all_peers_that_have_full_torrent_def)
next
  case (reconnect t now)
  then show ?case by (simp add: reconnect_all_not_needed_peers_def reconnect_ok)
next
  case (requeue t now)
  then show ?case by (simp add: requeue_dead_peers_def requeue_ok)
next
  case (died t now h had_error finished inc backoff)
  then show ?case by (rule died_ok)
next
  case (waited t now h)
  obtain r ps' where run: "with_peer_mut h (dead_to_queued now) (tl_peers t) = (r, ps')" by (rule prod.exhaust)
  have "table_ok strict base ps'" by (rule with_mut_ok [OF dq.pex_update_axioms waited run])
  then show ?case by (simp add: wait_for_peer_def run Let_def)
qed (simp_all add: mark_peer_interested_def update_bitfield_def table_live_mut)

lemma reachable_ok:
  assumes "tl_reachable strict session t"
  shows "table_ok strict (\<lambda>c. stat c session) (tl_peers t)"
  using assms
proof (induction rule: tl_reachable.induct)
  case (init zero t)
  then show ?case by (simp add: table_ok_def counters_ok_def pex_ok_def tally_def no_peers_def hm.invar_empty)
qed (rule step_ok)

section \<open>Properties\<close>

lemma tally_count: "tally c ps = of_nat (length (filter (\<lambda>e. counts c (pr_state (snd e))) (ps_states ps)))"
proof -
  have "sum_list (map (\<lambda>e. weight c (pr_state (snd e))) m) = of_nat (length (filter (\<lambda>e. counts c (pr_state (snd e))) m))"
    for m :: "(socket_addr \<times> peer) list"
    by (induction m) (simp_all add: weight_def)
  then show ?thesis by (simp add: tally_def)
qed

text \<open>
  C7: the peer counters are exact. In every state that the operations on peers reach, under every
  interleaving, each counter of the torrent is the number of peers in that state (and of that kind of
  connection), and each counter of the session has grown by the same number.
\<close>
theorem peer_counters_exact:
  assumes "tl_reachable strict session t"
  shows "stat c (ps_stats (tl_peers t)) =
      of_nat (length (filter (\<lambda>e. counts c (pr_state (snd e))) (ps_states (tl_peers t))))
    \<and> stat c (ps_session_stats (tl_peers t)) =
      stat c session + of_nat (length (filter (\<lambda>e. counts c (pr_state (snd e))) (ps_states (tl_peers t))))"
  using reachable_ok [OF assms] unfolding table_ok_def counters_ok_def tally_count by blast

definition zero_stats :: aggregate_peer_stats where
  "zero_stats = \<lparr> ag_queued = 0, ag_connecting = 0, ag_live = 0, ag_live_tcp = 0, ag_live_utp = 0, ag_live_socks = 0,
     ag_seen = 0, ag_dead = 0, ag_not_needed = 0, ag_steals = 0 \<rparr>"

definition sample_live :: torrent_live where
  "sample_live = \<lparr> tl_peers = no_peers zero_stats zero_stats, tl_pieces = None, tl_peer_queue = [], tl_queue_capacity = 10 \<rparr>"

lemma sample_live_reachable: "tl_reachable strict zero_stats sample_live"
proof -
  have "stat c zero_stats = 0" for c by (cases c) (simp_all add: zero_stats_def)
  then show ?thesis by (rule tl_reachable.init) (simp add: sample_live_def)
qed

lemma peer_counters_exact_witness:
  "stat SQueued (ps_stats (tl_peers (snd (add_peer_if_not_seen 0 sample_peer sample_live)))) = 1"
proof -
  have "tl_reachable True zero_stats (snd (add_peer_if_not_seen 0 sample_peer sample_live))"
    using sample_live_reachable tl_step.seen by (rule tl_reachable.step)
  from peer_counters_exact [OF this, of SQueued] show ?thesis
    by (simp add: sample_live_def no_peers_def add_peer_if_not_seen_def add_if_not_seen_def try_send_def
        new_with_outgoing_address_def Let_def both_stats_def)
qed

text \<open>
  C21: peer exchange announces live peers only. As long as a peer that is announced does not change the
  address it listens on, every address kept for peer exchange is the address of a peer that is live.
\<close>
theorem pex_addresses_live:
  assumes "tl_reachable True session t" and "a \<in> ps_live_outgoing_peers (tl_peers t)"
  shows "\<exists>h p. map_of (ps_states (tl_peers t)) h = Some p \<and> is_live (pr_state p) \<and> pr_outgoing_address p = Some a"
  using reachable_ok [OF assms(1)] assms(2) by (auto simp: table_ok_def pex_ok_def)

text \<open>A peer that is found, connected to and live; and one that connects to us after a failed connection.\<close>

definition sample_connecting :: torrent_live where
  "sample_connecting =
     (let t1 = snd (add_peer_if_not_seen 0 sample_peer sample_live);
          t2 = t1\<lparr> tl_peers := snd (mark_peer_connecting 1 7 sample_peer (tl_peers t1)) \<rparr>
      in t2\<lparr> tl_peers := on_connected 5 sample_peer (tl_peers t2) \<rparr>)"

definition sample_connected :: torrent_live where
  "sample_connected = sample_connecting\<lparr> tl_peers := set_peer_live 2 sample_peer [] Tcp (tl_peers sample_connecting) \<rparr>"

lemma sample_connecting_reachable: "tl_reachable strict zero_stats sample_connecting"
  unfolding sample_connecting_def on_connected_def Let_def
  by (intro tl_reachable.step [OF _ tl_step.counted] tl_reachable.step [OF _ tl_step.connecting]
      tl_reachable.step [OF _ tl_step.seen] sample_live_reachable)

lemma pex_addresses_live_witness:
  "\<exists>h p. map_of (ps_states (tl_peers sample_connected)) h = Some p \<and> is_live (pr_state p)
     \<and> pr_outgoing_address p = Some sample_peer"
proof -
  have "tl_reachable True zero_stats sample_connected"
    unfolding sample_connected_def using sample_connecting_reachable tl_step.live by (rule tl_reachable.step)
  moreover have "sample_peer \<in> ps_live_outgoing_peers (tl_peers sample_connected)" by code_simp
  ultimately show ?thesis by (rule pex_addresses_live)
qed

definition no_chunks :: chunk_tracker where
  "no_chunks = \<lparr> ct_queue_pieces = [], ct_chunk_status = [], ct_have = [], ct_selected = [], ct_per_file_bytes = [],
     ct_lengths = sample_lengths, ct_hns = hns_default \<rparr>"

definition sample_reconnected :: torrent_live where
  "sample_reconnected =
     (let t1 = snd (on_peer_died 3 sample_peer True False False None sample_connecting);
          t2 = (case add_incoming_peer 4 True 8 sample_peer [] Tcp (tl_peers t1) of
                  Inr (_, ps) \<Rightarrow> t1\<lparr> tl_peers := ps \<rparr> | Inl _ \<Rightarrow> t1);
          t3 = t2\<lparr> tl_peers := update_outgoing_addr True (Some 7000) None sample_peer (tl_peers t2) \<rparr>
      in snd (on_peer_died 5 sample_peer True False True None (t3\<lparr> tl_pieces := Some (pt_new no_chunks) \<rparr>)))"

text \<open>
  An address that stays announced. A peer that was connected to before connects to us and names another
  port: when it dies, the new address is removed from the set for peer exchange and the old one stays.
\<close>

lemma stale_pex_address:
  "tl_reachable False zero_stats sample_reconnected
   \<and> sample_peer \<in> ps_live_outgoing_peers (tl_peers sample_reconnected)
   \<and> list_all (\<lambda>e. \<not> is_live (pr_state (snd e))) (ps_states (tl_peers sample_reconnected))"
proof -
  have "(case add_incoming_peer 4 True 8 sample_peer [] Tcp (tl_peers t) of
      Inr (_, ps) \<Rightarrow> t\<lparr> tl_peers := ps \<rparr> | Inl _ \<Rightarrow> t) = t \<or> (\<exists>res ps. add_incoming_peer 4 True 8 sample_peer [] Tcp (tl_peers t) = Inr (res, ps)
      \<and> (case add_incoming_peer 4 True 8 sample_peer [] Tcp (tl_peers t) of
      Inr (_, ps) \<Rightarrow> t\<lparr> tl_peers := ps \<rparr> | Inl _ \<Rightarrow> t) = t\<lparr> tl_peers := ps \<rparr>)" for t
    by (cases "add_incoming_peer 4 True 8 sample_peer [] Tcp (tl_peers t)") auto
  then have inc: "tl_reachable False zero_stats t \<Longrightarrow> tl_reachable False zero_stats (case add_incoming_peer 4 True 8 sample_peer [] Tcp (tl_peers t) of
      Inr (_, ps) \<Rightarrow> t\<lparr> tl_peers := ps \<rparr> | Inl _ \<Rightarrow> t)" for t
    using tl_reachable.step [OF _ tl_step.incoming] by metis
  have "tl_reachable False zero_stats sample_reconnected"
    unfolding sample_reconnected_def Let_def
    by (intro tl_reachable.step [OF _ tl_step.died] tl_reachable.step [OF _ tl_step.pieces]
        tl_reachable.step [OF _ tl_step.outgoing] inc sample_connecting_reachable) simp
  moreover have "sample_peer \<in> ps_live_outgoing_peers (tl_peers sample_reconnected)
      \<and> list_all (\<lambda>e. \<not> is_live (pr_state (snd e))) (ps_states (tl_peers sample_reconnected))"
    by code_simp
  ultimately show ?thesis by blast
qed

lemma map_of_filter_keys: "map_of (filter (\<lambda>e. fst e \<notin> K) m) i = (if i \<in> K then None else map_of m i)"
  by (induction m) auto

lemma pieces_owned_iff:
  "hm_ok (pt_inflight pt) \<Longrightarrow> i \<in> set (pieces_owned_by h pt) \<longleftrightarrow> (\<exists>info. get_inflight i pt = Some info \<and> ip_peer info = h)"
  using hm.mem_iff_get [of "pt_inflight pt" i] by (force simp: pieces_owned_by_def get_inflight_def)

lemma died_finish_pieces: "tl_pieces (snd (died_finish now h had_error finished inc backoff pe t)) = tl_pieces t"
  by (cases pe) (simp add: died_finish_def put_peer_def Let_def split: prod.splits)

lemma died_finish_state:
  "\<exists>p' res. fst (died_finish now h had_error finished inc backoff (p1, ps1) t) = Inr res
    \<and> map_of (ps_states (tl_peers (snd (died_finish now h had_error finished inc backoff (p1, ps1) t)))) h = Some p'
    \<and> pr_state p' = (if had_error \<and> \<not> finished then Dead else NotNeeded)"
  by (cases had_error; cases finished; cases inc)
    (simp_all add: died_finish_def put_peer_def set_state_def Let_def map_of_hm_insert)

text \<open>
  C6: a dying peer gives back what it was downloading. When a live peer dies, exactly its pieces leave the
  table of pieces in flight, those of them that are not verified are queued again and no other piece is,
  and the peer ends up dead if there was an error and the torrent is not finished, and not needed
  otherwise.
\<close>
theorem peer_death_returns_pieces:
  assumes "wf_lengths l" and "\<forall>fi \<in> set fis. file_ok l fi" and "ts_reachable strict l fis ts"
    and pieces: "tl_pieces t = Some (ts_pt ts)"
    and p: "map_of (ps_states (tl_peers t)) h = Some p" and live: "pr_state p = Live lp"
  shows "\<exists>res t' pt' p'. on_peer_died now h had_error finished inc backoff t = (Inr res, t') \<and> tl_pieces t' = Some pt'
    \<and> (\<forall>i. get_inflight i pt' =
          (case get_inflight i (ts_pt ts) of None \<Rightarrow> None | Some info \<Rightarrow> if ip_peer info = h then None else Some info))
    \<and> (\<forall>k < piece_count l. ct_queue_pieces (pt_chunks pt') ! k \<longleftrightarrow> ct_queue_pieces (ts_ct ts) ! k
          \<or> (\<exists>info. get_inflight (vpi_of k) (ts_pt ts) = Some info \<and> ip_peer info = h) \<and> \<not> ct_have (ts_ct ts) ! k)
    \<and> map_of (ps_states (tl_peers t')) h = Some p'
    \<and> pr_state p' = (if had_error \<and> \<not> finished then Dead else NotNeeded)"
proof -
  have D: "ct_shape (ts_ct ts)" "ct_lengths (ts_ct ts) = l" "hm_ok (pt_inflight (ts_pt ts))"
      "\<forall>i \<in> inflight_keys (ts_pt ts). valid_index (ct_lengths (ts_ct ts)) i"
    using ts_shapeD [OF ts_reachable_shape [OF assms(3,1,2)]] by auto
  let ?own = "set (pieces_owned_by h (ts_pt ts))"
  obtain pt' where R: "release_pieces_owned_by h (ts_pt ts) = Inr (length (pieces_owned_by h (ts_pt ts)), pt')"
      "requeued ((\<lambda>i. unat (vpi_get i)) ` ?own) (ts_ct ts) (pt_chunks pt')"
      "pt_inflight pt' = filter (\<lambda>e. fst e \<notin> ?own) (pt_inflight (ts_pt ts))"
    using release_exact [OF D(1,4)] by blast
  obtain prev p1 ps1 where 1: "set_state now Queued (p, tl_peers t) = (prev, p1, ps1)" by (rule prod_cases3)
  have run: "on_peer_died now h had_error finished inc backoff t =
      died_finish now h had_error finished inc backoff (p1, ps1) (t\<lparr> tl_pieces := Some pt' \<rparr>)"
    using p live pieces R(1) 1 set_state_shape [OF 1] by (simp add: on_peer_died_def take_state_def)
  have inflight: "get_inflight i pt' =
      (case get_inflight i (ts_pt ts) of None \<Rightarrow> None | Some info \<Rightarrow> if ip_peer info = h then None else Some info)" for i
    using pieces_owned_iff [OF D(3), of i h] unfolding get_inflight_def R(3) map_of_filter_keys
    by (auto split: option.splits)
  have "k \<in> (\<lambda>i. unat (vpi_get i)) ` ?own \<longleftrightarrow> vpi_of k \<in> ?own" if "k < piece_count l" for k
    using vpi_of_eq [OF assms(1) that] vpi_of_get by (metis (no_types, lifting) image_iff)
  then have queue: "\<forall>k < piece_count l. ct_queue_pieces (pt_chunks pt') ! k \<longleftrightarrow> ct_queue_pieces (ts_ct ts) ! k
      \<or> (\<exists>info. get_inflight (vpi_of k) (ts_pt ts) = Some info \<and> ip_peer info = h) \<and> \<not> ct_have (ts_ct ts) ! k"
    using R(2) D(2) pieces_owned_iff [OF D(3)] by (simp add: requeued_def)
  obtain p' res where F: "fst (died_finish now h had_error finished inc backoff (p1, ps1) (t\<lparr> tl_pieces := Some pt' \<rparr>)) = Inr res"
      "map_of (ps_states (tl_peers (snd (on_peer_died now h had_error finished inc backoff t)))) h = Some p'"
      "pr_state p' = (if had_error \<and> \<not> finished then Dead else NotNeeded)"
    using died_finish_state unfolding run by blast
  have "tl_pieces (snd (on_peer_died now h had_error finished inc backoff t)) = Some pt'"
    unfolding run by (simp add: died_finish_pieces)
  moreover have "on_peer_died now h had_error finished inc backoff t = (Inr res, snd (on_peer_died now h had_error finished inc backoff t))"
    using F(1) unfolding run by (metis prod.collapse)
  ultimately show ?thesis using inflight queue F(2,3) by blast
qed

lemma peer_death_returns_pieces_witness:
  "\<exists>ts res t'. ts_reachable False sample_lengths [sample_file] ts
     \<and> on_peer_died 3 sample_peer True False False None (sample_connected\<lparr> tl_pieces := Some (ts_pt ts) \<rparr>) = (Inr res, t')"
proof -
  obtain ct where ct: "ts_reachable False sample_lengths [sample_file] \<lparr> ts_pt = pt_new ct, ts_checking = {#} \<rparr>"
    using sample_acquired [of False] by blast
  let ?ts = "\<lparr> ts_pt = pt_new ct, ts_checking = {#} \<rparr>" and ?t = "sample_connected\<lparr> tl_pieces := Some (pt_new ct) \<rparr>"
  have "(case map_of (ps_states (tl_peers sample_connected)) sample_peer of Some p \<Rightarrow> is_live (pr_state p) | None \<Rightarrow> False)"
    by code_simp
  then obtain p lp where "map_of (ps_states (tl_peers ?t)) sample_peer = Some p" "pr_state p = Live lp"
    by (auto split: option.splits elim!: is_live.elims)
  from peer_death_returns_pieces [OF sample_lengths_wf _ ct _ this, of 3 True False False None]
  show ?thesis using ct sample_file_ok by fastforce
qed

end
