(* ===== verification/Peer_Handler_Correct.thy ===== *)
theory Peer_Handler_Correct
  imports Peer_Handler Peer_Lifecycle_Correct
begin

text \<open>
  What a peer can make the handler do: which requests are served, which blocks are accepted, and the
  single message that makes the handler panic.
\<close>

section \<open>Uploads\<close>

text \<open>
  C18: only verified data is uploaded. A request of a peer is queued for upload exactly when uploading is
  enabled, the request is one of the chunks of the torrent and its piece is verified; every other request
  is an error that changes nothing.
\<close>
theorem upload_requests_exact:
  assumes wf: "wf_lengths (te_lengths env)" and "\<forall>fi \<in> set fis. file_ok (te_lengths env) fi"
    and "ts_reachable strict (te_lengths env) fis ts" and pieces: "tl_pieces (hs_tor st) = Some (ts_pt ts)"
  shows "(\<exists>ci. on_download_request env req st = (Inr (), st\<lparr> hs_uploads := hs_uploads st @ [(hs_tx st, ci)] \<rparr>)
        \<and> \<not> te_disable_upload env \<and> valid_index (te_lengths env) (ValidPieceIndex (rq_index req))
        \<and> ci \<in> set (iter_chunk_infos (te_lengths env) (ValidPieceIndex (rq_index req)))
        \<and> ci_offset ci = rq_begin req \<and> ci_size ci = rq_length req \<and> ct_have (ts_ct ts) ! unat (rq_index req))
    \<or> (\<exists>e. on_download_request env req st = (Inl (Err e), st))
        \<and> \<not> (\<not> te_disable_upload env \<and> valid_index (te_lengths env) (ValidPieceIndex (rq_index req))
             \<and> (\<exists>ci \<in> set (iter_chunk_infos (te_lengths env) (ValidPieceIndex (rq_index req))).
                  ci_offset ci = rq_begin req \<and> ci_size ci = rq_length req)
             \<and> ct_have (ts_ct ts) ! unat (rq_index req))"
proof (cases "te_disable_upload env \<or> \<not> valid_index (te_lengths env) (ValidPieceIndex (rq_index req))")
  case True
  then show ?thesis by (auto simp: on_download_request_def validate_piece_index_def valid_index_def)
next
  case False
  let ?l = "te_lengths env" and ?i = "ValidPieceIndex (rq_index req)"
  have i: "valid_index ?l ?i" "validate_piece_index ?l (rq_index req) = Some ?i"
    using False by (auto simp: validate_piece_index_def valid_index_def not_le)
  have shape: "ct_shape (ts_ct ts)" "ct_lengths (ts_ct ts) = ?l" using ts_shapeD(1,2) [OF ts_reachable_shape [OF assms(3,1,2)]] .
  have bit: "unat (rq_index req) < length (ct_have (ts_ct ts))"
    using valid_bit(1) [of ?l ?i] i(1) wf piece_bits [OF wf] ct_shapeD(3) [OF shape(1)] shape(2) by simp
  show ?thesis
  proof (cases "chunk_info_from_received_data ?l ?i (rq_begin req) (rq_length req)")
    case None
    then have "\<not> (\<exists>ci \<in> set (iter_chunk_infos ?l ?i). ci_offset ci = rq_begin req \<and> ci_size ci = rq_length req)"
      using received_data_iff [OF wf i(1), of "rq_begin req" "rq_length req"] by auto
    then show ?thesis using None i False by (simp add: on_download_request_def)
  next
    case (Some ci)
    then have ci: "ci \<in> set (iter_chunk_infos ?l ?i)" "ci_offset ci = rq_begin req" "ci_size ci = rq_length req"
      using received_data_iff [OF wf i(1)] by auto
    have idx: "ci_piece_index ci = ?i"
      using Some by (auto simp: chunk_info_from_received_data_def Let_def split: option.splits if_splits)
    show ?thesis
      using Some i False pieces ci bit
      by (cases "ct_have (ts_ct ts) ! unat (rq_index req)")
        (auto simp: on_download_request_def is_chunk_ready_to_upload_def idx)
  qed
qed

section \<open>Panics\<close>

lemma flags_get: "\<exists>f. (list_get 1 flags_from_slice_unchecked_len buf i :: (_, 'e) rust) = Inr f"
proof (cases "i * 1 + 1 \<le> length buf")
  case True
  then have "length (take 1 (drop i buf)) = 1" by simp
  from fl.no_panic [OF this] obtain a where "(flags_from_slice_unchecked_len (take 1 (drop i buf)) :: (_, 'e) rust) = Inr a"
    by blast
  then show ?thesis using True by (simp add: list_get_def)
qed (simp add: list_get_def)

lemma pex_infos_ok: "\<exists>xs. (pex_infos into flags i ips :: (_, 'e) rust) = Inr xs"
proof (induction ips arbitrary: i)
  case (Cons ip ips)
  obtain f where "((case flags of None \<Rightarrow> Inr None | Some f \<Rightarrow> list_get 1 flags_from_slice_unchecked_len f i) :: (_, 'e) rust) = Inr f"
    using flags_get by (cases flags) auto
  then show ?case using Cons.IH [of "Suc i"] by auto
qed simp

lemma pex_inner_ok:
  assumes "\<And>buf. \<exists>xs. (list_iter n u buf :: (_, 'e) rust) = Inr xs"
  shows "\<exists>xs. (added_peers_inner n u into buf flags :: (_, 'e) rust) = Inr xs"
proof (cases buf)
  case (Some b)
  obtain xs where "(list_iter n u b :: (_, 'e) rust) = Inr xs" using assms by blast
  then show ?thesis using Some pex_infos_ok [of into flags 0 xs] by (simp add: added_peers_inner_def)
qed (simp add: added_peers_inner_def)

lemma pex_peers_ok: "\<exists>xs. (dropped_peers pex :: (_, 'e) rust) = Inr xs" "\<exists>xs. (added_peers pex :: (_, 'e) rust) = Inr xs"
proof -
  note ok = pex_inner_ok [OF sa4.iter_no_panic, of SV4] pex_inner_ok [OF sa6.iter_no_panic, of SV6]
  obtain a b where "(added_peers_inner 6 sa4_from_slice_unchecked_len SV4 (pex_dropped pex) None :: (_, 'e) rust) = Inr a"
      "(added_peers_inner 18 sa6_from_slice_unchecked_len SV6 (pex_dropped6 pex) None :: (_, 'e) rust) = Inr b"
    using ok by blast
  then show "\<exists>xs. (dropped_peers pex :: (_, 'e) rust) = Inr xs" by (simp add: dropped_peers_def)
  obtain a b where "(added_peers_inner 6 sa4_from_slice_unchecked_len SV4 (pex_added pex) (pex_added_f pex) :: (_, 'e) rust) = Inr a"
      "(added_peers_inner 18 sa6_from_slice_unchecked_len SV6 (pex_added6 pex) (pex_added6_f pex) :: (_, 'e) rust) = Inr b"
    using ok by blast
  then show "\<exists>xs. (added_peers pex :: (_, 'e) rust) = Inr xs" by (simp add: added_peers_def)
qed

lemma nceil_mult_less: "0 < m \<Longrightarrow> nceil n m * m < n + m"
  using less_nceil_iff [of m "nceil n m - 1" n] by (cases "nceil n m") auto

lemma nceil_mult_le: "0 < m \<Longrightarrow> nceil n m * m \<le> n \<longleftrightarrow> n mod m = 0"
  using dividend_less_times_div [of m n] by (auto simp: nceil_def mult.commute not_le)

lemma send_metadata_piece_cases:
  assumes "0 < length (te_info_bytes env)" and "length (te_info_bytes env) < 2 ^ 31"
  shows "send_metadata_piece env k st =
    (let data = te_info_bytes env; total = nceil (length data) 16384
     in if total < unat k then (Inl (Err MetadataPieceOutOfBounds), st)
        else if unat k = total \<and> length data mod 16384 \<noteq> 0 then (Inl Panic, st)
        else (Inr (), st\<lparr> hs_sent := hs_sent st @ [(hs_tx st, WUtMetadata (UmData
               (umd_from_bytes k (of_nat (length data)) (take 16384 (drop (unat k * 16384) data)))))] \<rparr>))"
proof (cases "nceil (length (te_info_bytes env)) 16384 < unat k")
  case True
  then show ?thesis using assms by (simp add: send_metadata_piece_def CHUNK_SIZE_def Let_def)
next
  case False
  let ?n = "length (te_info_bytes env)"
  have k: "unat k * 16384 < ?n + 16384" using False nceil_mult_less [of 16384 ?n] mult_le_mono1 [of "unat k" "nceil ?n 16384" 16384] by simp
  have off: "unat (k * CHUNK_SIZE) = unat k * 16384"
    using k assms(2) by (simp add: CHUNK_SIZE_def unat_mult_lem [THEN iffD1])
  have stop: "unat (min (k * CHUNK_SIZE + CHUNK_SIZE) (of_nat ?n)) = min (unat k * 16384 + 16384) ?n"
  proof -
    have c: "unat CHUNK_SIZE = 16384" by (simp add: CHUNK_SIZE_def)
    have "unat (k * CHUNK_SIZE) + unat CHUNK_SIZE < 2 ^ LENGTH(32)" using k assms(2) off c by simp
    then have "unat (k * CHUNK_SIZE + CHUNK_SIZE) = unat k * 16384 + 16384" using off c by (simp add: unat_add_small)
    moreover have "unat (of_nat ?n :: u32) = ?n" using assms(2) by (simp add: unat_of_nat)
    ultimately show ?thesis by (simp add: unat_min)
  qed
  have ok: "unat k * 16384 \<le> min (unat k * 16384 + 16384) ?n \<longleftrightarrow> \<not> (unat k = nceil ?n 16384 \<and> ?n mod 16384 \<noteq> 0)"
    using False nceil_mult_le [of 16384 ?n] less_nceil_iff [of 16384 "unat k" ?n]
    by (cases "unat k = nceil ?n 16384") auto
  have "take (min (unat k * 16384 + 16384) ?n - unat k * 16384) (drop (unat k * 16384) (te_info_bytes env)) =
      take 16384 (drop (unat k * 16384) (te_info_bytes env))"
    by (cases "unat k * 16384 + 16384 \<le> ?n") simp_all
  then show ?thesis
    using False assms ok unfolding send_metadata_piece_def Let_def off stop
    by (simp add: CHUNK_SIZE_def)
qed

section \<open>Messages and the invariants of the torrent\<close>

lemma with_live_Some:
  "with_live h f ps = Some b \<longleftrightarrow> (\<exists>p l. map_of (ps_states ps) h = Some p \<and> pr_state p = Live l \<and> f l = b)"
proof (cases "map_of (ps_states ps) h")
  case (Some p)
  then show ?thesis by (cases "pr_state p") (simp_all add: with_live_def with_peer_def get_live_def)
qed (simp add: with_live_def with_peer_def)

lemma live_mut_result:
  "snd (with_live_mut h (\<lambda>l. (g l, f l)) ps) = snd (with_live_mut h (\<lambda>l. ((), f l)) ps)"
  by (auto simp: with_live_mut_def with_peer_mut_def split: option.splits peer_state.splits)

lemma live_mut_bitfield:
  "\<exists>bf. snd (with_live_mut h (\<lambda>l. ((), l\<lparr> lp_bitfield := g l \<rparr>)) ps) = snd (update_bitfield h bf ps)"
proof (cases "\<exists>p l. map_of (ps_states ps) h = Some p \<and> pr_state p = Live l")
  case True
  then obtain p l where "map_of (ps_states ps) h = Some p" "pr_state p = Live l" by blast
  then show ?thesis
    by (intro exI [of _ "g l"]) (simp add: update_bitfield_def with_live_mut_def with_peer_mut_def)
next
  case False
  then show ?thesis
    by (auto simp: update_bitfield_def with_live_mut_def with_peer_mut_def split: option.splits peer_state.splits)
qed

lemma add_peer_pieces [simp]: "tl_pieces (snd (add_peer_if_not_seen now a t)) = tl_pieces t"
  by (auto simp: add_peer_if_not_seen_def try_send_def split: option.splits prod.splits)

lemma add_peers_steps:
  "(tl_step strict)\<^sup>*\<^sup>* t (foldl (\<lambda>t p. snd (add_peer_if_not_seen now (ppi_addr p) t)) t peers)
    \<and> tl_pieces (foldl (\<lambda>t p. snd (add_peer_if_not_seen now (ppi_addr p) t)) t peers) = tl_pieces t"
proof (induction peers arbitrary: t)
  case (Cons a peers)
  show ?case
    using Cons.IH [of "snd (add_peer_if_not_seen now (ppi_addr a) t)"]
      converse_rtranclp_into_rtranclp [of "tl_step strict", OF tl_step.seen [of _ t now "ppi_addr a"]] by simp
qed simp

lemma steps_reachable: "(tl_step strict)\<^sup>*\<^sup>* t t' \<Longrightarrow> tl_reachable strict base t \<Longrightarrow> tl_reachable strict base t'"
  by (induction rule: rtranclp_induct) (auto intro: tl_reachable.step)

text \<open>
  A block that reaches the disk is one of the chunks of the torrent and was requested from the peer.
\<close>

lemma received_cases:
  assumes run: "on_received_piece env now p st = (r, st')"
  obtains (rejected) e where "r = Inl (Err e)" "(tl_step strict)\<^sup>*\<^sup>* (hs_tor st) (hs_tor st')"
      "tl_pieces (hs_tor st') = tl_pieces (hs_tor st)"
  | (written) ci pt st4 where "(tl_step strict)\<^sup>*\<^sup>* (hs_tor st) (hs_tor st4)" "tl_pieces (hs_tor st) = Some pt" "pc_len p < 2 ^ 32"
      "validate_piece_index (te_lengths env) (pc_index p) = Some (ValidPieceIndex (pc_index p))"
      "chunk_info_from_received_data (te_lengths env) (ValidPieceIndex (pc_index p)) (pc_begin p) (of_nat (pc_len p)) = Some ci"
      "with_live (hs_addr st) (\<lambda>l. ci \<in> set (lp_inflight_requests l)) (tl_peers (hs_tor st)) = Some True"
      "with_live (hs_addr st) (\<lambda>l. ci \<in> set (lp_inflight_requests l)) (tl_peers (hs_tor st4)) = Some False"
      "hs_addr st4 = hs_addr st"
      "(r, st') = (case write_to_disk now (hs_addr st) p ci pt of
          Inl _ \<Rightarrow> (Inl Panic, st4)
        | Inr (outcome, pt') \<Rightarrow> (if outcome = BogusData then Inl (Err BogusPiece) else Inr outcome,
                                  st4\<lparr> hs_tor := (hs_tor st4)\<lparr> tl_pieces := Some pt' \<rparr> \<rparr>))"
proof (cases "validate_piece_index (te_lengths env) (pc_index p) = None \<or> 2 ^ 32 \<le> pc_len p
    \<or> chunk_info_from_received_data (te_lengths env) (ValidPieceIndex (pc_index p)) (pc_begin p) (of_nat (pc_len p)) = None")
  case True
  then have "\<exists>e. r = Inl (Err e)" "st' = st"
    using run by (auto simp: on_received_piece_def validate_piece_index_def split: if_splits option.splits)
  then show ?thesis using rejected by auto
next
  case False
  let ?i = "ValidPieceIndex (pc_index p)"
  obtain ci where valid: "validate_piece_index (te_lengths env) (pc_index p) = Some ?i" "pc_len p < 2 ^ 32"
    and ci: "chunk_info_from_received_data (te_lengths env) ?i (pc_begin p) (of_nat (pc_len p)) = Some ci"
    using False by (auto simp: validate_piece_index_def split: if_splits)
  define f where "f = (\<lambda>c :: peer_counters. c\<lparr> pc_fetched_bytes := pc_fetched_bytes c + of_nat (pc_len p), pc_fetched_chunks := pc_fetched_chunks c + 1 \<rparr>)"
  define st2 where "st2 = upd_peers (upd_counters f (hs_addr st)) (st\<lparr> hs_requests_permits := hs_requests_permits st + 1 \<rparr>)"
  define g where "g = (\<lambda>l :: live_peer_state. l\<lparr> lp_inflight_requests := removeAll ci (lp_inflight_requests l) \<rparr>)"
  obtain asked ps where m: "with_live_mut (hs_addr st) (\<lambda>l. (ci \<in> set (lp_inflight_requests l), g l)) (tl_peers (hs_tor st2)) = (asked, ps)"
    by (rule prod.exhaust)
  define st3 where "st3 = upd_peers (\<lambda>_. ps) st2"
  define st4 where "st4 = st3\<lparr> hs_fetched_bytes := hs_fetched_bytes st3 + of_nat (pc_len p),
      hs_session_fetched_bytes := hs_session_fetched_bytes st3 + of_nat (pc_len p) \<rparr>"
  have tor4: "hs_tor st4 = hs_tor st3" by (simp add: st4_def)
  have ps: "ps = snd (with_live_mut (hs_addr st) (\<lambda>l. ((), g l)) (tl_peers (hs_tor st2)))"
    using m live_mut_result [of "hs_addr st" "\<lambda>l. ci \<in> set (lp_inflight_requests l)" g] by (metis snd_conv)
  have 2: "tl_step strict (hs_tor st) (hs_tor st2)" "tl_pieces (hs_tor st2) = tl_pieces (hs_tor st)"
    unfolding st2_def upd_peers_def by (auto intro: tl_step.counted)
  have 3: "tl_step strict (hs_tor st2) (hs_tor st4)" "tl_pieces (hs_tor st4) = tl_pieces (hs_tor st)"
    using 2(2) unfolding tor4 st3_def upd_peers_def ps g_def by (auto intro: tl_step.requests)
  have steps: "(tl_step strict)\<^sup>*\<^sup>* (hs_tor st) (hs_tor st2)" "(tl_step strict)\<^sup>*\<^sup>* (hs_tor st) (hs_tor st4)"
    using 2(1) 3(1) by auto
  have run': "(r, st') = (case asked of None \<Rightarrow> (Inl (Err PeerNotFound), st2)
      | Some a \<Rightarrow> if \<not> a then (Inl (Err NotRequested), st3)
         else (case tl_pieces (hs_tor st4) of None \<Rightarrow> (Inl (Err ChunksEmpty), st4)
           | Some pt \<Rightarrow> (case write_to_disk now (hs_addr st) p ci pt of Inl _ \<Rightarrow> (Inl Panic, st4)
               | Inr (outcome, pt') \<Rightarrow> (if outcome = BogusData then Inl (Err BogusPiece) else Inr outcome,
                                  st4\<lparr> hs_tor := (hs_tor st4)\<lparr> tl_pieces := Some pt' \<rparr> \<rparr>))))"
  proof -
    have len: "(2 ^ 32 \<le> pc_len p) = False" using valid(2) by simp
    note m' = m [unfolded st2_def f_def g_def]
    show ?thesis
      unfolding run [symmetric] on_received_piece_def Let_def valid(1) option.case ci len if_False m' prod.case st4_def st3_def
      unfolding st2_def f_def by (rule refl)
  qed
  have live: "with_live (hs_addr st) (\<lambda>l. ci \<in> set (lp_inflight_requests l)) (tl_peers (hs_tor st)) = Some True"
      "with_live (hs_addr st) (\<lambda>l. ci \<in> set (lp_inflight_requests l)) (tl_peers (hs_tor st4)) = Some False"
    if "asked = Some True"
    using m that unfolding tor4 st3_def st2_def g_def
    by (auto simp: with_live_mut_def with_live_def with_peer_def with_peer_mut_def upd_peers_def upd_counters_def
        map_of_hm_insert get_live_def split: option.splits peer_state.splits)
  show ?thesis
  proof (cases "asked = Some True \<and> tl_pieces (hs_tor st4) \<noteq> None")
    case True
    then obtain pt where "tl_pieces (hs_tor st4) = Some pt" by blast
    then show ?thesis
      using written [OF steps(2) _ valid(2,1) ci live] True run' 3(2) by (auto simp: st4_def st3_def st2_def upd_peers_def)
  next
    case False
    then have "\<exists>e. r = Inl (Err e)" "st' = st2 \<or> st' = st3 \<or> st' = st4" using run' by (auto split: option.splits if_splits)
    then show ?thesis using rejected steps 2(2) 3(2) tor4 by metis
  qed
qed

lemma received_again:
  assumes "validate_piece_index (te_lengths env) (pc_index p) = Some (ValidPieceIndex (pc_index p))" and len: "pc_len p < 2 ^ 32"
    and "chunk_info_from_received_data (te_lengths env) (ValidPieceIndex (pc_index p)) (pc_begin p) (of_nat (pc_len p)) = Some ci"
    and live: "with_live (hs_addr st) (\<lambda>l. ci \<in> set (lp_inflight_requests l)) (tl_peers (hs_tor st)) = Some False"
  shows "fst (on_received_piece env now p st) = Inl (Err NotRequested)"
proof -
  have n: "(2 ^ 32 \<le> pc_len p) = False" using len by simp
  obtain q l where "map_of (ps_states (tl_peers (hs_tor st))) (hs_addr st) = Some q" "pr_state q = Live l" "ci \<notin> set (lp_inflight_requests l)"
    using live by (auto simp: with_live_Some)
  then show ?thesis
    unfolding on_received_piece_def Let_def assms(1) option.case n if_False assms(3)
    by (simp add: with_live_mut_def with_peer_mut_def upd_peers_def upd_counters_def map_of_hm_insert)
qed

text \<open>
  C17: a block is accepted only if it was asked for, and only once. A block that is not rejected is one of
  the chunks of the torrent and was requested from this peer and not yet received; the same block sent
  once more is rejected.
\<close>
theorem blocks_accepted_once:
  assumes "wf_lengths (te_lengths env)" and "on_received_piece env now p st = (Inr outcome, st')"
  shows "(\<exists>ci \<in> set (iter_chunk_infos (te_lengths env) (ValidPieceIndex (pc_index p))).
            ci_offset ci = pc_begin p \<and> unat (ci_size ci) = pc_len p
            \<and> with_live (hs_addr st) (\<lambda>l. ci \<in> set (lp_inflight_requests l)) (tl_peers (hs_tor st)) = Some True)
    \<and> fst (on_received_piece env now' p st') = Inl (Err NotRequested)"
  using assms(2)
proof (cases rule: received_cases [where strict = False])
  case (written ci pt st3)
  have "valid_index (te_lengths env) (ValidPieceIndex (pc_index p))"
    using written(4) by (auto simp: validate_piece_index_def valid_index_def split: if_splits)
  from received_data_iff [OF assms(1) this] written(5)
  have "ci \<in> set (iter_chunk_infos (te_lengths env) (ValidPieceIndex (pc_index p)))"
      "ci_offset ci = pc_begin p" "ci_size ci = of_nat (pc_len p)" by auto
  moreover have "unat (of_nat (pc_len p) :: u32) = pc_len p" using written(3) by (simp add: unat_of_nat)
  moreover obtain pt' where "st' = st3\<lparr> hs_tor := (hs_tor st3)\<lparr> tl_pieces := Some pt' \<rparr> \<rparr>"
    using written(9) by (auto split: sum.splits if_splits)
  then have "with_live (hs_addr st') (\<lambda>l. ci \<in> set (lp_inflight_requests l)) (tl_peers (hs_tor st')) = Some False"
    using written(7,8) by simp
  from received_again [OF written(4,3,5) this] have "fst (on_received_piece env now' p st') = Inl (Err NotRequested)" .
  ultimately show ?thesis using written(6) by auto
qed simp

lemma quiet_messages:
  assumes run: "handle_message env now msg st = (r, st')" and no_piece: "\<forall>p. msg \<noteq> Piece p"
  shows "(tl_step strict)\<^sup>*\<^sup>* (hs_tor st) (hs_tor st') \<and> tl_pieces (hs_tor st') = tl_pieces (hs_tor st)"
proof -
  have one: "(tl_step strict)\<^sup>*\<^sup>* t t'" if "tl_step strict t t'" for t t' using that by blast
  have req: "hs_tor (snd (on_download_request env req st)) = hs_tor st" for req
    by (simp add: on_download_request_def split: option.splits)
  have meta: "hs_tor (snd (send_metadata_piece env k st)) = hs_tor st" for k
    by (simp add: send_metadata_piece_def Let_def)
  have bits: "tl_step strict (hs_tor st) (hs_tor (snd (on_bitfield env b st))) \<or> snd (on_bitfield env b st) = st"
      "tl_pieces (hs_tor (snd (on_bitfield env b st))) = tl_pieces (hs_tor st)" for b
    by (auto simp: on_bitfield_def upd_peers_def intro: tl_step.bitfield)
  have hv: "tl_step strict (hs_tor st) (hs_tor (on_have env h st))" "tl_pieces (hs_tor (on_have env h st)) = tl_pieces (hs_tor st)" for h
  proof -
    let ?g = "\<lambda>live. let bf = (if lp_bitfield live = [] then bits_of_bytes (make_piece_bitfield (te_lengths env)) else lp_bitfield live)
      in if unat h < length bf then bf[unat h := True] else bf"
    obtain bf where "snd (with_live_mut (hs_addr st) (\<lambda>l. ((), l\<lparr> lp_bitfield := ?g l \<rparr>)) (tl_peers (hs_tor st)))
        = snd (update_bitfield (hs_addr st) bf (tl_peers (hs_tor st)))"
      using live_mut_bitfield [of "hs_addr st" ?g "tl_peers (hs_tor st)"] by blast
    then have "hs_tor (on_have env h st) = (hs_tor st)\<lparr> tl_peers := snd (update_bitfield (hs_addr st) bf (tl_peers (hs_tor st))) \<rparr>"
      unfolding on_have_def upd_peers_def Let_def by simp
    then show "tl_step strict (hs_tor st) (hs_tor (on_have env h st))" "tl_pieces (hs_tor (on_have env h st)) = tl_pieces (hs_tor st)"
      by (auto intro: tl_step.bitfield)
  qed
  have int: "tl_step strict (hs_tor st) (hs_tor (on_peer_interested st))" "tl_pieces (hs_tor (on_peer_interested st)) = tl_pieces (hs_tor st)"
    by (auto simp: on_peer_interested_def upd_peers_def intro: tl_step.interested)
  have pex: "(tl_step strict)\<^sup>*\<^sup>* (hs_tor st) (hs_tor (snd (on_pex_message now x st)))
      \<and> tl_pieces (hs_tor (snd (on_pex_message now x st))) = tl_pieces (hs_tor st)" for x
    by (simp add: on_pex_message_def add_peers_steps split: sum.splits)
  have hp: "(tl_step strict)\<^sup>*\<^sup>* (hs_tor st) (hs_tor (on_holepunch_message env now m st))
      \<and> tl_pieces (hs_tor (on_holepunch_message env now m st)) = tl_pieces (hs_tor st)" for m
    by (auto simp: on_holepunch_message_def Let_def intro!: one tl_step.seen split: holepunch_msg_type.splits option.splits)
  have st': "st' = snd (handle_message env now msg st)" using run by simp
  show ?thesis
  proof (cases msg)
    case (Extended e)
    then show ?thesis
      using pex hp meta unfolding st' handle_message_def
      by (simp split: extended_message.splits ut_metadata.splits)
  next
    case (Bitfield b)
    then show ?thesis using bits [of b] one unfolding st' handle_message_def by auto
  next
    case HaveAll
    then show ?thesis using bits one unfolding st' handle_message_def by (simp, metis rtranclp.rtrancl_refl)
  next
    case HaveNone
    then show ?thesis using bits one unfolding st' handle_message_def by (simp, metis rtranclp.rtrancl_refl)
  qed (use no_piece one req hv int in \<open>auto simp: st' handle_message_def on_i_am_choked_def on_i_am_unchoked_def\<close>)
qed



section \<open>A peer that has everything\<close>

lemma no_bits: "b \<in> set (bits_of_bytes (replicate n 0)) \<Longrightarrow> \<not> b"
  by (auto simp: bits_of_bytes_def split: if_splits)

text \<open>
  A peer with all pieces may send \<^verbatim>\<open>HaveAll\<close> instead of a bit field. The handler then stores the bit field
  that \<open>make_piece_bitfield\<close> returns, which is empty: afterwards the peer is taken to have no piece.
\<close>

lemma have_all_hides_pieces:
  assumes "with_live (hs_addr st) lp_bitfield (tl_peers (hs_tor (snd (on_received_message env now HaveAll st)))) = Some bf"
  shows "\<not> peer_has_piece bf p"
proof -
  let ?b = "bits_of_bytes (replicate (piece_bitfield_bytes (te_lengths env)) 0)"
  have "bf = ?b"
    using assms unfolding on_received_message_def handle_message_def on_bitfield_def
    by (auto simp: with_live_Some update_bitfield_def with_live_mut_def with_peer_mut_def upd_peers_def map_of_hm_insert
        make_piece_bitfield_def split: option.splits peer_state.splits)
  then show ?thesis using no_bits [of "bf ! unat (vpi_get p)"] nth_mem [of "unat (vpi_get p)" bf] unfolding peer_has_piece_def by blast
qed

section \<open>Samples\<close>

definition sample_env :: "lengths \<Rightarrow> torrent_env" where
  "sample_env l = \<lparr> te_lengths = l, te_info_bytes = [100, 101], te_private = False, te_dht = True, te_disable_upload = False \<rparr>"

definition sample_handler :: "piece_tracker \<Rightarrow> handler_state" where
  "sample_handler pt = \<lparr> hs_tor = sample_connected\<lparr> tl_pieces := Some pt \<rparr>, hs_addr = sample_peer, hs_tx = 7,
     hs_i_am_choked = False, hs_requests_permits = 0, hs_first_message_received = False, hs_sent = [], hs_uploads = [], hs_pings = [], hs_fetched_bytes = 0, hs_session_fetched_bytes = 0 \<rparr>"

definition tiny_lengths :: lengths where
  "tiny_lengths = \<lparr> ln_total_length = 5, ln_piece_length = 4, ln_last_piece_id = 1, ln_last_piece_length = 1, ln_chunks_per_piece = 1 \<rparr>"

definition tiny_chunk :: chunk_info where
  "tiny_chunk = \<lparr> ci_piece_index = ValidPieceIndex 1, ci_chunk_index = 0, ci_absolute_index = 1, ci_size = 1, ci_offset = 0 \<rparr>"

definition tiny_requested :: handler_state where
  "tiny_requested = (case request_chunk (ValidPieceIndex 1) tiny_chunk (sample_handler (pt_new no_chunks)) of Some st \<Rightarrow> st | None \<Rightarrow> sample_handler (pt_new no_chunks))"

lemma sample_pieces: "tl_pieces (hs_tor (sample_handler pt)) = Some pt"
  by (simp add: sample_handler_def)

lemma sample_handler_reachable: "tl_reachable strict zero_stats (hs_tor (sample_handler pt))"
  unfolding sample_handler_def sample_connected_def
  using tl_reachable.step [OF tl_reachable.step [OF sample_connecting_reachable tl_step.live] tl_step.pieces] by simp

lemma tiny_received: "fst (on_received_piece (sample_env tiny_lengths) 9 (pc_from_data 1 0 [42]) tiny_requested) = Inr Dropped"
proof -
  have 1: "validate_piece_index tiny_lengths 1 = Some (ValidPieceIndex 1)" by code_simp
  have 2: "chunk_info_from_received_data tiny_lengths (ValidPieceIndex 1) 0 1 = Some tiny_chunk" by code_simp
  have 3: "(case with_live sample_peer (\<lambda>l. tiny_chunk \<in> set (lp_inflight_requests l)) (tl_peers (hs_tor tiny_requested)) of Some b \<Rightarrow> b | None \<Rightarrow> False)"
    by code_simp
  have h: "hs_addr tiny_requested = sample_peer" "tl_pieces (hs_tor tiny_requested) = Some (pt_new no_chunks)"
    by (simp_all add: tiny_requested_def request_chunk_def sample_handler_def upd_peers_def Let_def split: option.splits prod.splits)
  obtain q l where "map_of (ps_states (tl_peers (hs_tor tiny_requested))) sample_peer = Some q" "pr_state q = Live l"
      "tiny_chunk \<in> set (lp_inflight_requests l)"
    using 3 by (auto simp: with_live_Some split: option.splits)
  then show ?thesis
    using 1 2 h by (simp add: on_received_piece_def sample_env_def pc_from_data_def pc_len_def with_live_mut_def with_peer_mut_def
        upd_peers_def upd_counters_def map_of_hm_insert write_to_disk_def get_inflight_def pt_new_def Let_def)
qed

lemma tiny_lengths_wf: "wf_lengths tiny_lengths"
  by (simp add: wf_lengths_def tiny_lengths_def nceil_def)

lemma upload_requests_exact_witness:
  "\<exists>ts e. ts_reachable False sample_lengths [sample_file] ts
     \<and> on_download_request (sample_env sample_lengths) \<lparr> rq_index = 0, rq_begin = 0, rq_length = 16384 \<rparr> (sample_handler (ts_pt ts))
       = (Inl (Err e), sample_handler (ts_pt ts))"
proof -
  obtain ct where ct: "ct_new (replicate 8 False) (replicate 8 True) sample_lengths [sample_file] = Inr ct"
    and r: "ts_reachable False sample_lengths [sample_file] \<lparr> ts_pt = pt_new ct, ts_checking = {#} \<rparr>"
    using sample_acquired by blast
  have hv: "\<not> ct_have (pt_chunks (pt_new ct)) ! 0" using ct sample_tracker by (auto simp: pt_new_def)
  have env: "te_lengths (sample_env sample_lengths) = sample_lengths" by (simp add: sample_env_def)
  let ?ts = "\<lparr> ts_pt = pt_new ct, ts_checking = {#} \<rparr>" and ?rq = "\<lparr> rq_index = 0, rq_begin = 0, rq_length = 16384 \<rparr>"
  have "tl_pieces (hs_tor (sample_handler (pt_new ct))) = Some (ts_pt ?ts)" by (simp add: sample_pieces)
  from upload_requests_exact [OF _ _ _ this, of "sample_env sample_lengths" "[sample_file]" False ?rq]
  obtain e where "on_download_request (sample_env sample_lengths) ?rq (sample_handler (pt_new ct)) = (Inl (Err e), sample_handler (pt_new ct))"
    using r hv env by auto
  then show ?thesis using r by (intro exI [of _ ?ts] exI [of _ e]) simp
qed

lemma blocks_accepted_once_witness:
  "\<exists>st'. on_received_piece (sample_env tiny_lengths) 9 (pc_from_data 1 0 [42]) tiny_requested = (Inr Dropped, st')
     \<and> fst (on_received_piece (sample_env tiny_lengths) 10 (pc_from_data 1 0 [42]) st') = Inl (Err NotRequested)"
proof -
  obtain st' where run: "on_received_piece (sample_env tiny_lengths) 9 (pc_from_data 1 0 [42]) tiny_requested = (Inr Dropped, st')"
    using tiny_received by (metis prod.collapse)
  have "wf_lengths (te_lengths (sample_env tiny_lengths))" by (simp add: sample_env_def tiny_lengths_wf)
  from blocks_accepted_once [OF this run, of 10] show ?thesis using run by blast
qed



end
