(* ===== verification/Routing_Table.thy ===== *)
theory Routing_Table
  imports Hash_Id Compact_Ip "HOL-Library.Product_Lexorder"
begin

text \<open>
  The routing table of the DHT, \<^verbatim>\<open>crates/librtbit-dht/src/routing_table.rs\<close>. The tree of buckets is a vector
  of nodes that refer to each other by index. Instants are nanoseconds; subtracting a later instant gives
  zero, as in the standard library. The loops that follow indices have fuel, and running out of it is
  reported as a panic, so that the absence of panics covers their termination.
\<close>

type_synonym instant = nat

definition INACTIVITY_TIMEOUT :: nat where
  "INACTIVITY_TIMEOUT = 15 * 60 * 1000000000"

record routing_table_node =
  rn_id :: id
  rn_addr :: socket_addr
  rn_last_request :: "instant option"
  rn_last_response :: "instant option"
  rn_last_query :: "instant option"
  rn_errors_in_a_row :: nat

record leaf_bucket =
  lb_nodes :: "routing_table_node list"
  lb_last_refreshed :: instant

definition leaf_default :: "instant \<Rightarrow> leaf_bucket" where
  "leaf_default now = \<lparr> lb_nodes = [], lb_last_refreshed = now \<rparr>"

datatype bucket_tree_node_data = Leaf leaf_bucket | LeftRight nat nat

record bucket_tree_node =
  bn_bits :: u8
  bn_start :: id
  bn_end_inclusive :: id
  bn_data :: bucket_tree_node_data

record bucket_tree =
  tr_data :: "bucket_tree_node list"
  tr_size :: nat
  tr_max_size :: nat

datatype node_status = Good | Questionable | Bad | Unknown

datatype insert_result = WasExisting | ReplacedBad routing_table_node | Added | Ignored

section \<open>Nodes\<close>

text \<open>A guard on a pattern with alternatives is tried for each alternative that matches, in order.\<close>

definition status :: "routing_table_node \<Rightarrow> instant \<Rightarrow> node_status" where
  "status n now =
     (let good = (\<lambda>t. now - t < INACTIVITY_TIMEOUT);
          idle = (\<lambda>t. now - t > INACTIVITY_TIMEOUT \<and>
                   (case rn_last_request n of None \<Rightarrow> True | Some e \<Rightarrow> now - e > INACTIVITY_TIMEOUT));
          is = (\<lambda>p i. case i of None \<Rightarrow> False | Some t \<Rightarrow> p t)
      in if rn_last_request n \<noteq> None \<and> rn_errors_in_a_row n \<ge> 2 then Bad
         else if rn_last_request n \<noteq> None \<and> rn_last_response n \<noteq> None
                 \<and> (is good (rn_last_response n) \<or> is good (rn_last_query n)) then Good
         else if is idle (rn_last_query n) \<or> is idle (rn_last_response n) then Questionable
         else Unknown)"

definition node_mark_outgoing_request :: "instant \<Rightarrow> routing_table_node \<Rightarrow> routing_table_node" where
  "node_mark_outgoing_request now n = n\<lparr> rn_last_request := Some now \<rparr>"

definition node_mark_last_query :: "instant \<Rightarrow> routing_table_node \<Rightarrow> routing_table_node" where
  "node_mark_last_query now n = n\<lparr> rn_last_query := Some now \<rparr>"

definition node_mark_response :: "instant \<Rightarrow> routing_table_node \<Rightarrow> routing_table_node" where
  "node_mark_response now n =
     n\<lparr> rn_last_response := Some now,
        rn_last_request := (if rn_last_request n = None then Some now else rn_last_request n),
        rn_errors_in_a_row := 0 \<rparr>"

definition node_mark_error :: "routing_table_node \<Rightarrow> routing_table_node" where
  "node_mark_error n = n\<lparr> rn_errors_in_a_row := rn_errors_in_a_row n + 1 \<rparr>"

section \<open>Buckets\<close>

definition generate_random_id :: "bytes \<Rightarrow> id \<Rightarrow> u8 \<Rightarrow> (id, unit) rust" where
  "generate_random_id data start bits =
     rfold (\<lambda>data n. rbind (id_get_bit start (of_nat n)) (\<lambda>v. id_set_bit data (of_nat n) v))
       data [0..<unat (160 - bits)]"

definition compute_split_start_end :: "id \<Rightarrow> id \<Rightarrow> u8 \<Rightarrow> ((id \<times> id) \<times> (id \<times> id), unit) rust" where
  "compute_split_start_end start end_inclusive bits =
     (let changing_bit = 160 - bits
      in rbind (id_set_bit end_inclusive changing_bit False) (\<lambda>new_left_end.
         rbind (id_set_bit start changing_bit True) (\<lambda>new_right_start.
         Inr ((start, new_left_end), (new_right_start, end_inclusive)))))"

definition tree_new :: "instant \<Rightarrow> nat \<Rightarrow> bucket_tree" where
  "tree_new now max_size =
     \<lparr> tr_data = [\<lparr> bn_bits = 160, bn_start = replicate 20 0, bn_end_inclusive = replicate 20 0xff,
                     bn_data = Leaf (leaf_default now) \<rparr>],
       tr_size = 0, tr_max_size = max_size \<rparr>"

fun iter_leaves_loop :: "nat \<Rightarrow> bucket_tree_node list \<Rightarrow> nat list \<Rightarrow> (bucket_tree_node list, unit) rust" where
  "iter_leaves_loop fuel data [] = Inr []"
| "iter_leaves_loop 0 data (idx # queue) = Inl Panic"
| "iter_leaves_loop (Suc fuel) data (idx # queue) =
     (if idx < length data
      then (case bn_data (data ! idx) of
              Leaf leaf \<Rightarrow> rbind (iter_leaves_loop fuel data queue) (\<lambda>ls. Inr (data ! idx # ls))
            | LeftRight left right \<Rightarrow> iter_leaves_loop fuel data (left # right # queue))
      else iter_leaves_loop fuel data queue)"

definition iter_leaves :: "bucket_tree \<Rightarrow> (bucket_tree_node list, unit) rust" where
  "iter_leaves t = iter_leaves_loop (length (tr_data t)) (tr_data t) [0]"

fun leaf_nodes :: "bucket_tree_node_data \<Rightarrow> routing_table_node list" where
  "leaf_nodes (Leaf l) = lb_nodes l"
| "leaf_nodes (LeftRight _ _) = []"

definition tree_iter :: "bucket_tree \<Rightarrow> (routing_table_node list, unit) rust" where
  "tree_iter t = rbind (iter_leaves t) (\<lambda>ls. Inr (concat (map (\<lambda>n. leaf_nodes (bn_data n)) ls)))"

fun get_leaf_loop :: "nat \<Rightarrow> bucket_tree_node list \<Rightarrow> id \<Rightarrow> nat \<Rightarrow> (nat, unit) rust" where
  "get_leaf_loop 0 data nid idx = Inl Panic"
| "get_leaf_loop (Suc fuel) data nid idx =
     (if idx < length data
      then (case bn_data (data ! idx) of
              Leaf _ \<Rightarrow> Inr idx
            | LeftRight left_idx right_idx \<Rightarrow>
                if left_idx < length data
                then if bn_start (data ! left_idx) \<le> nid \<and> nid \<le> bn_end_inclusive (data ! left_idx)
                     then get_leaf_loop fuel data nid left_idx
                     else get_leaf_loop fuel data nid right_idx
                else Inl Panic)
      else Inl Panic)"

definition get_leaf :: "bucket_tree \<Rightarrow> id \<Rightarrow> (nat, unit) rust" where
  "get_leaf t nid = get_leaf_loop (length (tr_data t)) (tr_data t) nid 0"

text \<open>
  \<^verbatim>\<open>get_mut\<close> hands out a reference to the node; the model applies the caller's update to the node and says
  whether there was one.
\<close>

fun update_first :: "('a \<Rightarrow> bool) \<Rightarrow> ('a \<Rightarrow> 'a) \<Rightarrow> 'a list \<Rightarrow> 'a list" where
  "update_first p f [] = []"
| "update_first p f (x # xs) = (if p x then f x # xs else x # update_first p f xs)"

definition get_mut ::
  "id \<Rightarrow> instant option \<Rightarrow> (routing_table_node \<Rightarrow> routing_table_node) \<Rightarrow> bucket_tree \<Rightarrow> (bool \<times> bucket_tree, unit) rust" where
  "get_mut nid refresh f t =
     rbind (get_leaf t nid) (\<lambda>idx.
       case bn_data (tr_data t ! idx) of
         Leaf leaf \<Rightarrow>
           if \<exists>b \<in> set (lb_nodes leaf). rn_id b = nid
           then let leaf' = leaf\<lparr> lb_nodes := update_first (\<lambda>b. rn_id b = nid) f (lb_nodes leaf),
                                  lb_last_refreshed :=
                                    (case refresh of None \<Rightarrow> lb_last_refreshed leaf | Some r \<Rightarrow> r) \<rparr>
                in Inr (True, t\<lparr> tr_data := (tr_data t)[idx := (tr_data t ! idx)\<lparr> bn_data := Leaf leaf' \<rparr>] \<rparr>)
           else Inr (False, t)
       | LeftRight _ _ \<Rightarrow> Inl Panic)"

definition new_routing_table_node :: "id \<Rightarrow> socket_addr \<Rightarrow> routing_table_node" where
  "new_routing_table_node nid addr =
     \<lparr> rn_id = nid, rn_addr = addr, rn_last_request = None, rn_last_response = None,
       rn_last_query = None, rn_errors_in_a_row = 0 \<rparr>"

text \<open>The split of a full leaf: the children go to the end of the vector.\<close>

definition split_leaf :: "instant \<Rightarrow> nat \<Rightarrow> leaf_bucket \<Rightarrow> bucket_tree_node list \<Rightarrow>
    (id \<times> bucket_tree_node list, unit) rust" where
  "split_leaf now idx nodes data =
     (let leaf = data ! idx
      in rbind (compute_split_start_end (bn_start leaf) (bn_end_inclusive leaf) (bn_bits leaf))
           (\<lambda>((ls, le), (rs, re)).
             let ld = filter (\<lambda>n. rn_id n < rs) (lb_nodes nodes);
                 rd = filter (\<lambda>n. \<not> rn_id n < rs) (lb_nodes nodes);
                 left = \<lparr> bn_bits = bn_bits leaf - 1, bn_start = ls, bn_end_inclusive = le,
                          bn_data = Leaf ((leaf_default now)\<lparr> lb_nodes := ld \<rparr>) \<rparr>;
                 right = \<lparr> bn_bits = bn_bits leaf - 1, bn_start = rs, bn_end_inclusive = re,
                           bn_data = Leaf ((leaf_default now)\<lparr> lb_nodes := rd \<rparr>) \<rparr>;
                 left_idx = length data; right_idx = Suc (length data)
             in Inr (rs, (data @ [left, right])[idx := leaf\<lparr> bn_data := LeftRight left_idx right_idx \<rparr>])))"

fun insert_into_leaf :: "nat \<Rightarrow> instant \<Rightarrow> nat \<Rightarrow> id \<Rightarrow> id \<Rightarrow> socket_addr \<Rightarrow> bucket_tree \<Rightarrow>
    (insert_result \<times> bucket_tree, unit) rust" where
  "insert_into_leaf 0 now idx self_id nid addr t = Inl Panic"
| "insert_into_leaf (Suc fuel) now idx self_id nid addr t =
     (if idx < length (tr_data t)
      then let leaf = tr_data t ! idx;
               put = (\<lambda>ns. (tr_data t)[idx := leaf\<lparr> bn_data :=
                        Leaf \<lparr> lb_nodes = sort_key rn_id ns, lb_last_refreshed = now \<rparr> \<rparr>])
           in case bn_data leaf of
             LeftRight _ _ \<Rightarrow> Inl Panic
           | Leaf nodes \<Rightarrow>
             if \<exists>r \<in> set (lb_nodes nodes). rn_id r = nid then Inr (WasExisting, t)
             else let new_node = new_routing_table_node nid addr
             in case List.find (\<lambda>i. status (lb_nodes nodes ! i) now = Bad) [0..<length (lb_nodes nodes)] of
               Some i \<Rightarrow>
                 Inr (ReplacedBad (lb_nodes nodes ! i), t\<lparr> tr_data := put ((lb_nodes nodes)[i := new_node]) \<rparr>)
             | None \<Rightarrow>
               if tr_size t = tr_max_size t then Inr (Ignored, t)
               else if length (lb_nodes nodes) < 8
               then Inr (Added, t\<lparr> tr_data := put (lb_nodes nodes @ [new_node]), tr_size := tr_size t + 1 \<rparr>)
               else if self_id < bn_start leaf \<or> bn_end_inclusive leaf < self_id then Inr (Ignored, t)
               else rbind (split_leaf now idx nodes (tr_data t)) (\<lambda>(rs, data').
                 insert_into_leaf fuel now
                   (if nid < rs then length (tr_data t) else Suc (length (tr_data t)))
                   self_id nid addr (t\<lparr> tr_data := data' \<rparr>))
      else Inl Panic)"

definition tree_add_node :: "instant \<Rightarrow> id \<Rightarrow> id \<Rightarrow> socket_addr \<Rightarrow> bucket_tree \<Rightarrow>
    (insert_result \<times> bucket_tree, unit) rust" where
  "tree_add_node now self_id nid addr t =
     rbind (get_leaf t nid) (\<lambda>idx. insert_into_leaf 161 now idx self_id nid addr t)"

section \<open>The routing table\<close>

record routing_table =
  rt_id :: id
  rt_size :: nat
  rt_buckets :: bucket_tree

definition DEFAULT_MAX_SIZE :: nat where
  "DEFAULT_MAX_SIZE = 512"

definition rt_new :: "instant \<Rightarrow> id \<Rightarrow> nat option \<Rightarrow> routing_table" where
  "rt_new now nid max_size =
     \<lparr> rt_id = nid, rt_size = 0,
       rt_buckets = tree_new now (case max_size of None \<Rightarrow> DEFAULT_MAX_SIZE | Some m \<Rightarrow> m) \<rparr>"

definition rt_len :: "routing_table \<Rightarrow> nat" where
  "rt_len t = rt_size t"

fun status_rank :: "node_status \<Rightarrow> nat" where
  "status_rank Good = 0"
| "status_rank Questionable = 1"
| "status_rank Unknown = 2"
| "status_rank Bad = 3"

definition sorted_by_distance_from ::
  "id \<Rightarrow> instant \<Rightarrow> routing_table \<Rightarrow> (routing_table_node list, unit) rust" where
  "sorted_by_distance_from nid now t =
     rbind (tree_iter (rt_buckets t)) (\<lambda>result.
       Inr (sort_key (\<lambda>n. (status_rank (status n now), id_distance nid (rn_id n))) result))"

definition rt_iter :: "routing_table \<Rightarrow> (routing_table_node list, unit) rust" where
  "rt_iter t = tree_iter (rt_buckets t)"

definition rt_add_node :: "instant \<Rightarrow> id \<Rightarrow> socket_addr \<Rightarrow> routing_table \<Rightarrow>
    (insert_result \<times> routing_table, unit) rust" where
  "rt_add_node now nid addr t =
     rbind (tree_add_node now (rt_id t) nid addr (rt_buckets t)) (\<lambda>(res, b).
       let replaced = (case res of WasExisting \<Rightarrow> False | ReplacedBad _ \<Rightarrow> True | Added \<Rightarrow> True | Ignored \<Rightarrow> False)
       in Inr (res, t\<lparr> rt_buckets := b, rt_size := (if replaced then rt_size t + 1 else rt_size t) \<rparr>))"

definition with_buckets :: "(bool \<times> bucket_tree, unit) rust \<Rightarrow> routing_table \<Rightarrow> (bool \<times> routing_table, unit) rust" where
  "with_buckets r t = rbind r (\<lambda>(found, b). Inr (found, t\<lparr> rt_buckets := b \<rparr>))"

definition rt_mark_outgoing_request :: "id \<Rightarrow> instant \<Rightarrow> routing_table \<Rightarrow> (bool \<times> routing_table, unit) rust" where
  "rt_mark_outgoing_request nid now t =
     with_buckets (get_mut nid None (node_mark_outgoing_request now) (rt_buckets t)) t"

definition rt_mark_response :: "id \<Rightarrow> instant \<Rightarrow> routing_table \<Rightarrow> (bool \<times> routing_table, unit) rust" where
  "rt_mark_response nid now t =
     with_buckets (get_mut nid (Some now) (node_mark_response now) (rt_buckets t)) t"

definition rt_mark_error :: "id \<Rightarrow> routing_table \<Rightarrow> (bool \<times> routing_table, unit) rust" where
  "rt_mark_error nid t = with_buckets (get_mut nid None node_mark_error (rt_buckets t)) t"

definition rt_mark_last_query :: "id \<Rightarrow> instant \<Rightarrow> routing_table \<Rightarrow> (bool \<times> routing_table, unit) rust" where
  "rt_mark_last_query nid now t =
     with_buckets (get_mut nid None (node_mark_last_query now) (rt_buckets t)) t"

end
