(* ===== verification/Routing_Table_Correct.thy ===== *)
theory Routing_Table_Correct
  imports Routing_Table "HOL-Library.Multiset"
begin

text \<open>
  Correctness of the routing table. The vector of tree nodes represents a binary tree over its indices
  (\<open>rep\<close>), in which a node with \<open>b\<close> free bits and number \<open>q\<close> covers the identifiers whose value divided
  by \<open>2 ^ b\<close> is \<open>q\<close>. What the table stores is the multiset of the nodes in its leaves (\<open>bag\<close>).
\<close>

section \<open>Trees over indices\<close>

datatype skel = SLeaf nat | SNode nat skel skel

fun root :: "skel \<Rightarrow> nat" where
  "root (SLeaf i) = i"
| "root (SNode i _ _) = i"

fun indices :: "skel \<Rightarrow> nat list" where
  "indices (SLeaf i) = [i]"
| "indices (SNode i l r) = i # indices l @ indices r"

fun leaf_indices :: "skel \<Rightarrow> nat list" where
  "leaf_indices (SLeaf i) = [i]"
| "leaf_indices (SNode i l r) = leaf_indices l @ leaf_indices r"

fun graft :: "nat \<Rightarrow> skel \<Rightarrow> skel \<Rightarrow> skel" where
  "graft i u (SLeaf j) = (if i = j then u else SLeaf j)"
| "graft i u (SNode j l r) = SNode j (graft i u l) (graft i u r)"

definition covers :: "nat \<Rightarrow> nat \<Rightarrow> bucket_tree_node \<Rightarrow> bool" where
  "covers b q n \<longleftrightarrow> unat (bn_bits n) = b \<and> b \<le> 160 \<and> length (bn_start n) = 20 \<and> length (bn_end_inclusive n) = 20
     \<and> be_value (bn_start n) = q * 2 ^ b \<and> be_value (bn_end_inclusive n) = q * 2 ^ b + (2 ^ b - 1)"

abbreviation in_bucket :: "nat \<Rightarrow> nat \<Rightarrow> id \<Rightarrow> bool" where
  "in_bucket b q i \<equiv> length i = 20 \<and> be_value i div 2 ^ b = q"

definition bucket_ok :: "nat \<Rightarrow> nat \<Rightarrow> leaf_bucket \<Rightarrow> bool" where
  "bucket_ok b q l \<longleftrightarrow> sorted_wrt (<) (map rn_id (lb_nodes l)) \<and> length (lb_nodes l) \<le> 8
     \<and> (\<forall>n \<in> set (lb_nodes l). in_bucket b q (rn_id n))"

fun rep :: "bucket_tree_node list \<Rightarrow> nat \<Rightarrow> nat \<Rightarrow> skel \<Rightarrow> bool" where
  "rep data b q (SLeaf i) \<longleftrightarrow> i < length data \<and> covers b q (data ! i)
     \<and> (\<exists>l. bn_data (data ! i) = Leaf l \<and> bucket_ok b q l)"
| "rep data b q (SNode i l r) \<longleftrightarrow> i < length data \<and> covers b q (data ! i) \<and> 0 < b
     \<and> bn_data (data ! i) = LeftRight (root l) (root r) \<and> i < root l \<and> i < root r
     \<and> rep data (b - 1) (2 * q) l \<and> rep data (b - 1) (2 * q + 1) r"

definition tree_rep :: "bucket_tree_node list \<Rightarrow> skel \<Rightarrow> bool" where
  "tree_rep data t \<longleftrightarrow> root t = 0 \<and> distinct (indices t) \<and> set (indices t) = {..<length data} \<and> rep data 160 0 t"

lemma root_index [simp]: "root t \<in> set (indices t)"
  by (cases t) auto

lemma leaf_indices_subset: "set (leaf_indices t) \<subseteq> set (indices t)"
  by (induction t) auto

lemma root_graft: "root u = i \<Longrightarrow> root (graft i u t) = root t"
  by (induction t) auto

lemma rep_bounds: "rep data b q t \<Longrightarrow> i \<in> set (indices t) \<Longrightarrow> i < length data"
  by (induction t arbitrary: b q) auto

lemma indices_graft:
  "i \<in> set (leaf_indices t) \<Longrightarrow> distinct (indices t) \<Longrightarrow> mset (indices (graft i u t)) + {#i#} = mset (indices t) + mset (indices u)"
proof (induction t)
  case (SNode j l r)
  have no: "graft i u s = s" if "i \<notin> set (leaf_indices s)" for s using that by (induction s) auto
  consider "i \<in> set (leaf_indices l)" "i \<notin> set (leaf_indices r)" | "i \<in> set (leaf_indices r)" "i \<notin> set (leaf_indices l)"
    using SNode.prems leaf_indices_subset [of l] leaf_indices_subset [of r] by auto
  then show ?case
  proof cases
    case 1
    then have "mset (indices (graft i u l)) + {#i#} = mset (indices l) + mset (indices u)" using SNode by simp
    then show ?thesis using no [OF 1(2)] by (simp add: ac_simps)
  next
    case 2
    then have "mset (indices (graft i u r)) + {#i#} = mset (indices r) + mset (indices u)" using SNode by simp
    then show ?thesis using no [OF 2(2)] by (simp add: ac_simps)
  qed
qed simp

lemma rep_frame:
  assumes "rep data b q t" and "\<forall>j \<in> set (indices t). data' ! j = data ! j" and "length data \<le> length data'"
  shows "rep data' b q t"
  using assms by (induction t arbitrary: b q) auto

text \<open>Replacing a leaf of the tree by a subtree with the same range.\<close>

lemma rep_graft:
  assumes "rep data b q t" and "distinct (indices t)" and "i \<in> set (leaf_indices t)"
    and "\<forall>j \<in> set (indices t) - {i}. data' ! j = data ! j" and "length data \<le> length data'" and "root u = i"
    and "\<forall>b q. covers b q (data ! i) \<longrightarrow> rep data' b q u"
  shows "rep data' b q (graft i u t)"
  using assms(1-4)
proof (induction t arbitrary: b q)
  case (SLeaf j)
  then show ?case using assms(7) by auto
next
  case (SNode j l r)
  have no: "graft i u s = s" if "i \<notin> set (leaf_indices s)" for s using that by (induction s) auto
  have sub: "set (leaf_indices l) \<subseteq> set (indices l)" "set (leaf_indices r) \<subseteq> set (indices r)"
    by (rule leaf_indices_subset)+
  have ij: "j \<noteq> i" using SNode.prems(2,3) sub by auto
  have side: "rep data' b' q' (graft i u s)"
    if s: "s = l \<or> s = r" and r: "rep data b' q' s" for s b' q'
  proof (cases "i \<in> set (leaf_indices s)")
    case True
    then show ?thesis using SNode.IH SNode.prems s r by auto
  next
    case False
    have "i \<notin> set (indices s)"
      using False SNode.prems(2,3) sub s by auto
    then show ?thesis using no [OF False] rep_frame [OF r _ assms(5)] SNode.prems(4) s by auto
  qed
  have "data' ! j = data ! j" using SNode.prems(4) ij by simp
  then show ?case
    using SNode.prems(1) side [of l "b - 1" "2 * q"] side [of r "b - 1" "2 * q + 1"] assms(5,6)
    by (auto simp: root_graft)
qed

section \<open>Looking up the leaf of an identifier\<close>

fun find_leaf :: "nat \<Rightarrow> nat \<Rightarrow> skel \<Rightarrow> nat" where
  "find_leaf b v (SLeaf i) = i"
| "find_leaf b v (SNode i l r) =
     (if even (v div 2 ^ (b - 1)) then find_leaf (b - 1) v l else find_leaf (b - 1) v r)"

lemma half_cases:
  assumes "0 < b" and "v div 2 ^ b = (q :: nat)"
  shows "v div 2 ^ (b - 1) = (if even (v div 2 ^ (b - 1)) then 2 * q else 2 * q + 1)"
proof -
  have "(2 :: nat) ^ b = 2 ^ (b - 1) * 2" using assms(1) by (simp add: power_eq_if)
  then have "v div 2 ^ (b - 1) div 2 = q" using assms(2) by (simp add: div_mult2_eq)
  then show ?thesis by (auto elim!: evenE oddE)
qed

lemma div_eq_bounds: "0 < c \<Longrightarrow> v div c = q \<longleftrightarrow> q * c \<le> v \<and> v \<le> q * c + (c - 1)" for v :: nat
proof -
  assume c: "0 < c"
  have "v div c = q \<longleftrightarrow> q \<le> v div c \<and> v div c < Suc q" by auto
  also have "\<dots> \<longleftrightarrow> q * c \<le> v \<and> v < Suc q * c"
    using c by (simp add: less_eq_div_iff_mult_less_eq div_less_iff_less_mult)
  also have "v < Suc q * c \<longleftrightarrow> v \<le> q * c + (c - 1)" using c by auto
  finally show ?thesis .
qed

lemma covers_mem:
  assumes "covers b q n" and "length i = 20"
  shows "bn_start n \<le> i \<and> i \<le> bn_end_inclusive n \<longleftrightarrow> in_bucket b q i"
  using assms by (simp add: covers_def be_value_le div_eq_bounds)

lemma get_leaf_loop_find:
  assumes "rep data b q t" and "in_bucket b q i" and "length data - root t \<le> fuel"
  shows "get_leaf_loop fuel data i (root t) = Inr (find_leaf b (be_value i) t)"
  using assms
proof (induction fuel arbitrary: t b q)
  case 0
  then show ?case using rep_bounds [OF 0(1) root_index] by simp
next
  case (Suc fuel)
  show ?case
  proof (cases t)
    case (SLeaf j)
    then show ?thesis using Suc.prems by auto
  next
    case (SNode j l r)
    have R: "j < length data" "0 < b" "bn_data (data ! j) = LeftRight (root l) (root r)" "j < root l" "j < root r"
      "rep data (b - 1) (2 * q) l" "rep data (b - 1) (2 * q + 1) r"
      using Suc.prems(1) SNode by simp_all
    have cl: "covers (b - 1) (2 * q) (data ! root l)" using R(6) by (cases l) auto
    have rl: "root l < length data" using rep_bounds [OF R(6) root_index] .
    have len: "length i = 20" and q: "be_value i div 2 ^ b = q" using Suc.prems(2) by simp_all
    note half = half_cases [OF R(2) q]
    have left: "bn_start (data ! root l) \<le> i \<and> i \<le> bn_end_inclusive (data ! root l)
        \<longleftrightarrow> even (be_value i div 2 ^ (b - 1))"
      unfolding covers_mem [OF cl len] using half len by auto
    have fuel: "length data - root l \<le> fuel" "length data - root r \<le> fuel" using Suc.prems(3) SNode R by simp_all
    have step: "get_leaf_loop (Suc fuel) data i j =
        get_leaf_loop fuel data i (if even (be_value i div 2 ^ (b - 1)) then root l else root r)"
      using R(1,3) rl left by simp
    show ?thesis
    proof (cases "even (be_value i div 2 ^ (b - 1))")
      case True
      then show ?thesis
        unfolding SNode root.simps step using Suc.IH [OF R(6) _ fuel(1)] half len by simp
    next
      case False
      then show ?thesis
        unfolding SNode root.simps step using Suc.IH [OF R(7) _ fuel(2)] half len by simp
    qed
  qed
qed

lemma find_leaf_bucket:
  assumes "rep data b q t" and "v div 2 ^ b = q"
  shows "\<exists>b' q' l. covers b' q' (data ! find_leaf b v t) \<and> v div 2 ^ b' = q' \<and> b' \<le> b
    \<and> bn_data (data ! find_leaf b v t) = Leaf l \<and> bucket_ok b' q' l"
    and "find_leaf b v t \<in> set (leaf_indices t)"
  using assms
proof (induction t arbitrary: b q)
  case (SLeaf i)
  { case 1 then show ?case by (intro exI [of _ b] exI [of _ q]) auto }
  { case 2 then show ?case by simp }
next
  case (SNode i l r)
  { case 1
    then have R: "0 < b" "rep data (b - 1) (2 * q) l" "rep data (b - 1) (2 * q + 1) r" by simp_all
    note half = half_cases [OF R(1) 1(2)]
    show ?case
    proof (cases "even (v div 2 ^ (b - 1))")
      case True
      then show ?thesis using SNode.IH(1) [OF R(2)] half by (force intro: le_trans)
    next
      case False
      then show ?thesis using SNode.IH(3) [OF R(3)] half by (force intro: le_trans)
    qed }
  { case 2
    then have R: "0 < b" "rep data (b - 1) (2 * q) l" "rep data (b - 1) (2 * q + 1) r" by simp_all
    note half = half_cases [OF R(1) 2(2)]
    show ?case
      using SNode.IH(2) [OF R(2)] SNode.IH(4) [OF R(3)] half by (cases "even (v div 2 ^ (b - 1))") simp_all }
qed

section \<open>Iteration and contents\<close>

definition node_list :: "bucket_tree_node list \<Rightarrow> skel \<Rightarrow> routing_table_node list" where
  "node_list data t = concat (map (\<lambda>i. leaf_nodes (bn_data (data ! i))) (leaf_indices t))"

definition bag :: "bucket_tree_node list \<Rightarrow> routing_table_node multiset" where
  "bag data = sum_list (map (\<lambda>n. mset (leaf_nodes (bn_data n))) data)"

lemma node_list_simps:
  "node_list data (SLeaf i) = leaf_nodes (bn_data (data ! i))"
  "node_list data (SNode i l r) = node_list data l @ node_list data r"
  by (simp_all add: node_list_def)

lemma iter_leaves_loop_rep:
  assumes "\<forall>t \<in> set ts. \<exists>b q. rep data b q t" and "sum_list (map (\<lambda>t. length (indices t)) ts) \<le> fuel"
  shows "(iter_leaves_loop fuel data (map root ts) :: (bucket_tree_node list, unit) rust) =
    Inr (concat (map (\<lambda>t. map ((!) data) (leaf_indices t)) ts))"
  using assms
proof (induction fuel arbitrary: ts)
  case 0
  then have "ts = []" by (cases ts; cases "hd ts") auto
  then show ?case by simp
next
  case (Suc fuel)
  show ?case
  proof (cases ts)
    case (Cons t ts')
    then obtain b q where t: "rep data b q t" using Suc.prems(1) by auto
    show ?thesis
    proof (cases t)
      case (SLeaf i)
      have "(iter_leaves_loop fuel data (map root ts') :: (bucket_tree_node list, unit) rust) =
          Inr (concat (map (\<lambda>t. map ((!) data) (leaf_indices t)) ts'))"
        using Suc.IH [of ts'] Suc.prems Cons SLeaf by simp
      then show ?thesis using t Cons SLeaf by auto
    next
      case (SNode i l r)
      then have lr: "rep data (b - 1) (2 * q) l" "rep data (b - 1) (2 * q + 1) r" using t by simp_all
      have "(iter_leaves_loop fuel data (map root (l # r # ts')) :: (bucket_tree_node list, unit) rust) =
          Inr (concat (map (\<lambda>t. map ((!) data) (leaf_indices t)) (l # r # ts')))"
        using Suc.prems Cons SNode lr by (intro Suc.IH) auto
      then show ?thesis using t Cons SNode by auto
    qed
  qed simp
qed

lemma iter_leaves_rep:
  assumes "tree_rep (tr_data t) s"
  shows "(iter_leaves t :: (_, unit) rust) = Inr (map ((!) (tr_data t)) (leaf_indices s))"
proof -
  have R: "root s = 0" "distinct (indices s)" "set (indices s) = {..<length (tr_data t)}" "rep (tr_data t) 160 0 s"
    using assms by (simp_all add: tree_rep_def)
  have "length (indices s) = length (tr_data t)"
    using R(2,3) distinct_card [of "indices s"] by simp
  then have "(iter_leaves_loop (length (tr_data t)) (tr_data t) (map root [s]) :: (_, unit) rust) =
      Inr (concat (map (\<lambda>u. map ((!) (tr_data t)) (leaf_indices u)) [s]))"
    using R(4) by (intro iter_leaves_loop_rep) auto
  then show ?thesis using R(1) by (simp add: iter_leaves_def)
qed

lemma tree_iter_rep:
  assumes "tree_rep (tr_data t) s"
  shows "(tree_iter t :: (_, unit) rust) = Inr (node_list (tr_data t) s)"
  by (simp add: tree_iter_def iter_leaves_rep [OF assms] node_list_def o_def)

lemma node_list_sorted:
  "rep data b q t \<Longrightarrow> sorted_wrt (<) (map rn_id (node_list data t)) \<and> (\<forall>n \<in> set (node_list data t). in_bucket b q (rn_id n))"
proof (induction t arbitrary: b q)
  case (SLeaf i)
  then show ?case by (auto simp: node_list_simps bucket_ok_def)
next
  case (SNode i l r)
  then have b: "0 < b" and l: "rep data (b - 1) (2 * q) l" and r: "rep data (b - 1) (2 * q + 1) r" by simp_all
  note L = SNode.IH(1) [OF l] and R = SNode.IH(2) [OF r]
  have pw: "(2 :: nat) ^ b = 2 ^ (b - 1) * 2" using b by (simp add: power_eq_if)
  have up: "v div 2 ^ b = v div 2 ^ (b - 1) div 2" for v :: nat unfolding pw by (simp add: div_mult2_eq)
  have "rn_id m < rn_id n" if m: "m \<in> set (node_list data l)" and n: "n \<in> set (node_list data r)" for m n
  proof -
    have "be_value (rn_id m) div 2 ^ (b - 1) < be_value (rn_id n) div 2 ^ (b - 1)" using L R m n by simp
    then have "be_value (rn_id m) < be_value (rn_id n)" by (meson div_le_mono not_le)
    then show ?thesis using L R m n be_value_less by simp
  qed
  then show ?case using L R by (auto simp: node_list_simps sorted_wrt_append up)
qed

lemma mset_node_list:
  assumes "tree_rep data t"
  shows "mset (node_list data t) = bag data"
proof -
  let ?f = "\<lambda>i. mset (leaf_nodes (bn_data (data ! i)))"
  have "mset (node_list data t) = sum_list (map ?f (indices t))" if "rep data b q t" for b q t
    using that
  proof (induction t arbitrary: b q)
    case (SNode i l r)
    then show ?case using SNode.IH(1) [of "b - 1" "2 * q"] SNode.IH(2) [of "b - 1" "2 * q + 1"]
      by (simp add: node_list_simps)
  qed (simp add: node_list_simps)
  then have "mset (node_list data t) = sum_list (map ?f (indices t))" using assms unfolding tree_rep_def by blast
  also have "\<dots> = sum_mset (image_mset ?f (mset (indices t)))" by (simp only: mset_map [symmetric] sum_mset_sum_list)
  also have "mset (indices t) = mset [0..<length data]"
    using assms set_eq_iff_mset_eq_distinct [of "indices t" "[0..<length data]"]
    by (simp add: tree_rep_def lessThan_atLeast0)
  also have "sum_mset (image_mset ?f (mset [0..<length data])) = sum_list (map ?f [0..<length data])"
    by (simp only: mset_map [symmetric] sum_mset_sum_list)
  also have "map ?f [0..<length data] = map (\<lambda>n. mset (leaf_nodes (bn_data n))) data"
    by (rule nth_equalityI) simp_all
  finally show ?thesis by (simp add: bag_def)
qed

lemma bag_update:
  "i < length data \<Longrightarrow> bag (data[i := n]) + mset (leaf_nodes (bn_data (data ! i))) = bag data + mset (leaf_nodes (bn_data n))"
proof (induction data arbitrary: i)
  case (Cons a data)
  then show ?case by (cases i) (simp_all add: bag_def ac_simps)
qed simp

lemma node_in_its_leaf:
  assumes "rep data b q t" and "n \<in> set (node_list data t)"
  shows "n \<in> set (leaf_nodes (bn_data (data ! find_leaf b (be_value (rn_id n)) t)))"
  using assms
proof (induction t arbitrary: b q)
  case (SLeaf i)
  then show ?case by (simp add: node_list_simps)
next
  case (SNode i l r)
  then have l: "rep data (b - 1) (2 * q) l" and r: "rep data (b - 1) (2 * q + 1) r" by simp_all
  consider "n \<in> set (node_list data l)" | "n \<in> set (node_list data r)"
    using SNode.prems(2) by (auto simp: node_list_simps)
  then show ?case
    using SNode.IH(1) [OF l] SNode.IH(2) [OF r] node_list_sorted [OF l] node_list_sorted [OF r] by cases auto
qed

section \<open>Splitting a bucket\<close>

lemma covers_split:
  assumes cov: "covers b q n" and b: "0 < b"
  shows "\<exists>le rs. (compute_split_start_end (bn_start n) (bn_end_inclusive n) (bn_bits n) :: (_, unit) rust) =
      Inr ((bn_start n, le), (rs, bn_end_inclusive n)) \<and> length le = 20 \<and> length rs = 20
    \<and> be_value le = (2 * q) * 2 ^ (b - 1) + (2 ^ (b - 1) - 1) \<and> be_value rs = (2 * q + 1) * 2 ^ (b - 1)"
proof -
  note C = cov [unfolded covers_def]
  have c: "unat (160 - bn_bits n) = 160 - b"
    using C by (subst unat_sub) (simp_all add: word_le_nat_alt)
  have pos: "bit_pos (bn_start n) (160 - bn_bits n) = b - 1" "bit_pos (bn_end_inclusive n) (160 - bn_bits n) = b - 1"
    using C c b by simp_all
  have in20: "unat (160 - bn_bits n) < 8 * length (bn_start n)" "unat (160 - bn_bits n) < 8 * length (bn_end_inclusive n)"
    using C c b by simp_all
  obtain le where le: "(id_set_bit (bn_end_inclusive n) (160 - bn_bits n) False :: (id, unit) rust) = Inr le" "length le = 20"
      "\<forall>k. bit (be_value le) k = (if k = b - 1 then False else bit (be_value (bn_end_inclusive n)) k)"
    using id_set_bit_value [OF in20(2), of False] pos C by (metis (no_types, lifting))
  obtain rs where rs: "(id_set_bit (bn_start n) (160 - bn_bits n) True :: (id, unit) rust) = Inr rs" "length rs = 20"
      "\<forall>k. bit (be_value rs) k = (if k = b - 1 then True else bit (be_value (bn_start n)) k)"
    using id_set_bit_value [OF in20(1), of True] pos C by (metis (no_types, lifting))
  have pw: "(2 :: nat) ^ b = 2 * 2 ^ (b - 1)" using b by (simp add: power_eq_if)
  have p1: "(1 :: nat) \<le> 2 ^ (b - 1)" by simp
  have lt: "(2 :: nat) ^ b - 1 < 2 ^ b" "(2 :: nat) ^ (b - 1) - 1 < 2 ^ b" "(2 :: nat) ^ (b - 1) < 2 ^ b"
    using pw p1 by linarith+
  have mb: "bit (2 ^ j - 1 :: nat) k \<longleftrightarrow> k < j" for j k
    using bit_mask_iff [where 'a = nat, of j k] by (simp add: mask_eq_exp_minus_1)
  have eb: "bit (2 ^ j :: nat) k \<longleftrightarrow> k = j" for j k by (auto simp: bit_exp_iff)
  have E: "be_value (bn_end_inclusive n) = q * 2 ^ b + (2 ^ b - 1)" and S: "be_value (bn_start n) = q * 2 ^ b + 0"
    using C by auto
  have "bit (be_value le) k = bit (q * 2 ^ b + (2 ^ (b - 1) - 1)) k" for k
    using b unfolding le(3) [rule_format] E bit_mult_add [OF lt(1)] bit_mult_add [OF lt(2)] mb by auto
  then have "be_value le = q * 2 ^ b + (2 ^ (b - 1) - 1)" by (rule bit_eqI)
  moreover have "bit (be_value rs) k = bit (q * 2 ^ b + 2 ^ (b - 1)) k" for k
    using b unfolding rs(3) [rule_format] S bit_mult_add [OF lt(3)] bit_mult_add [OF zero_less_power [OF zero_less_numeral]] eb
    by auto
  then have "be_value rs = q * 2 ^ b + 2 ^ (b - 1)" by (rule bit_eqI)
  moreover have "(compute_split_start_end (bn_start n) (bn_end_inclusive n) (bn_bits n) :: (_, unit) rust) =
      Inr ((bn_start n, le), (rs, bn_end_inclusive n))"
    using le(1) rs(1) by (simp add: compute_split_start_end_def Let_def)
  ultimately show ?thesis using le(2) rs(2) pw by (intro exI [of _ le] exI [of _ rs]) (simp add: algebra_simps)
qed

end
