(* ===== verification/Routing_Table_Insert.thy ===== *)
theory Routing_Table_Insert
  imports Routing_Table_Correct
begin

text \<open>
  Insertion into the routing table: the invariant of the tree of buckets, that insertion keeps it, ends
  and does not panic, and what it does to the stored nodes.
\<close>

section \<open>Updates of a leaf\<close>

lemma covers_unique: "covers b q n \<Longrightarrow> covers b' q' n \<Longrightarrow> b = b' \<and> q = q'"
  by (auto simp: covers_def)

lemma rep_leaf:
  "rep data b q t \<Longrightarrow> i \<in> set (leaf_indices t) \<Longrightarrow>
     i < length data \<and> (\<exists>b' q' l. covers b' q' (data ! i) \<and> bn_data (data ! i) = Leaf l \<and> bucket_ok b' q' l)"
  by (induction t arbitrary: b q) auto

lemma tree_rep_leaf:
  assumes "tree_rep data s" and "i \<in> set (leaf_indices s)" and "covers b q (data ! i)"
  shows "i < length data" and "\<exists>l. bn_data (data ! i) = Leaf l \<and> bucket_ok b q l"
proof -
  obtain b' q' l where "i < length data" "covers b' q' (data ! i)" "bn_data (data ! i) = Leaf l" "bucket_ok b' q' l"
    using rep_leaf [of data 160 0 s i] assms(1,2) unfolding tree_rep_def by blast
  then show "i < length data" "\<exists>l. bn_data (data ! i) = Leaf l \<and> bucket_ok b q l"
    using covers_unique [OF assms(3)] by auto
qed

lemma tree_rep_put:
  assumes T: "tree_rep data s" and i: "i \<in> set (leaf_indices s)" and c: "covers b q (data ! i)" and l: "bucket_ok b q l"
  shows "tree_rep (data[i := (data ! i)\<lparr> bn_data := Leaf l \<rparr>]) s"
proof -
  let ?d = "data[i := (data ! i)\<lparr> bn_data := Leaf l \<rparr>]"
  have i_len: "i < length data" using tree_rep_leaf [OF T i c] by simp
  have same: "graft i (SLeaf i) t = t" for t by (induction t) auto
  have "rep ?d b' q' (SLeaf i)" if "covers b' q' (data ! i)" for b' q'
    using covers_unique [OF c that] c l i_len by (simp add: covers_def)
  then have "\<forall>b q. covers b q (data ! i) \<longrightarrow> rep ?d b q (SLeaf i)" by blast
  note G = rep_graft [of data 160 0 s i ?d "SLeaf i", OF _ _ i _ _ _ this]
  have "rep ?d 160 0 (graft i (SLeaf i) s)" using T by (intro G) (simp_all add: tree_rep_def)
  then show ?thesis using T by (simp add: tree_rep_def same)
qed

lemma bucket_sort:
  assumes "distinct (map rn_id ns)" and "length ns \<le> 8" and "\<forall>n \<in> set ns. in_bucket b q (rn_id n)"
  shows "bucket_ok b q \<lparr> lb_nodes = sort_key rn_id ns, lb_last_refreshed = now \<rparr>"
proof -
  have "mset (map rn_id (sort_key rn_id ns)) = mset (map rn_id ns)" by simp
  then have "distinct (map rn_id (sort_key rn_id ns))" using assms(1) by (metis mset_eq_imp_distinct_iff)
  moreover have "sorted (map rn_id (sort_key rn_id ns))" by (rule sorted_sort_key)
  ultimately show ?thesis using assms by (simp add: bucket_ok_def strict_sorted_iff)
qed

lemma bucket_ok_distinct: "bucket_ok b q l \<Longrightarrow> distinct (map rn_id (lb_nodes l))"
  by (simp add: bucket_ok_def strict_sorted_iff)

lemma bag_append: "bag (xs @ ys) = bag xs + bag ys"
  by (simp add: bag_def)

section \<open>Splitting\<close>

abbreviation split_skel :: "nat \<Rightarrow> nat \<Rightarrow> skel" where
  "split_skel i n \<equiv> SNode i (SLeaf n) (SLeaf (Suc n))"

lemma half_less:
  assumes "0 < b" and "in_bucket b q i" and "length rs = 20" and "be_value rs = (2 * q + 1) * 2 ^ (b - 1)"
  shows "in_bucket (b - 1) (if i < rs then 2 * q else 2 * q + 1) i"
proof -
  have "i < rs \<longleftrightarrow> be_value i < (2 * q + 1) * 2 ^ (b - 1)" using assms by (simp add: be_value_less)
  also have "\<dots> \<longleftrightarrow> be_value i div 2 ^ (b - 1) < 2 * q + 1" by (simp add: div_less_iff_less_mult)
  finally show ?thesis using half_cases [of b "be_value i" q] assms by (auto split: if_splits)
qed

lemma tree_rep_graft_split:
  assumes T: "tree_rep data s" and i: "i \<in> set (leaf_indices s)" and len: "length data' = length data + 2"
    and same: "\<forall>j < length data. j \<noteq> i \<longrightarrow> data' ! j = data ! j"
    and sub: "\<forall>b q. covers b q (data ! i) \<longrightarrow> rep data' b q (split_skel i (length data))"
  shows "tree_rep data' (graft i (split_skel i (length data)) s)"
proof -
  let ?u = "split_skel i (length data)"
  have R: "root s = 0" "distinct (indices s)" "set (indices s) = {..<length data}" "rep data 160 0 s"
    using T by (simp_all add: tree_rep_def)
  have i_len: "i < length data" using leaf_indices_subset [of s] i R(3) by auto
  have "rep data' 160 0 (graft i ?u s)"
    using R i len same sub by (intro rep_graft [of data]) auto
  moreover have M: "mset (indices (graft i ?u s)) = mset (indices s) + {#length data, Suc (length data)#}"
    using indices_graft [OF i R(2), of ?u] by simp
  then have "set (indices (graft i ?u s)) = {..<length data'}"
    using R(3) len by (auto dest!: arg_cong [of _ _ set_mset] simp: less_Suc_eq)
  moreover have "distinct (indices (graft i ?u s))"
  proof -
    have "mset (indices (graft i ?u s)) = mset (indices s @ [length data, Suc (length data)])" using M by simp
    moreover have "distinct (indices s @ [length data, Suc (length data)])" using R(2,3) by auto
    ultimately show ?thesis by (metis mset_eq_imp_distinct_iff)
  qed
  ultimately show ?thesis using R(1) by (simp add: tree_rep_def root_graft)
qed

lemma leaf_indices_graft: "i \<in> set (leaf_indices s) \<Longrightarrow> set (leaf_indices u) \<subseteq> set (leaf_indices (graft i u s))"
  by (induction s) auto

lemma split_leaf_rep:
  assumes T: "tree_rep data s" and i: "i \<in> set (leaf_indices s)" and c: "covers b q (data ! i)" and b: "0 < b"
    and l: "bn_data (data ! i) = Leaf l" "bucket_ok b q l"
  shows "\<exists>rs data'. (split_leaf now i l data :: (_, unit) rust) = Inr (rs, data')
    \<and> tree_rep data' (graft i (split_skel i (length data)) s) \<and> bag data' = bag data
    \<and> length rs = 20 \<and> be_value rs = (2 * q + 1) * 2 ^ (b - 1)
    \<and> covers (b - 1) (2 * q) (data' ! length data) \<and> covers (b - 1) (2 * q + 1) (data' ! Suc (length data))
    \<and> set (leaf_nodes (bn_data (data' ! length data))) \<subseteq> set (lb_nodes l)
    \<and> set (leaf_nodes (bn_data (data' ! Suc (length data)))) \<subseteq> set (lb_nodes l)"
proof -
  obtain le rs where S: "(compute_split_start_end (bn_start (data ! i)) (bn_end_inclusive (data ! i)) (bn_bits (data ! i)) :: (_, unit) rust)
        = Inr ((bn_start (data ! i), le), (rs, bn_end_inclusive (data ! i)))"
      and L: "length le = 20" "length rs = 20"
      and V: "be_value le = (2 * q) * 2 ^ (b - 1) + (2 ^ (b - 1) - 1)" "be_value rs = (2 * q + 1) * 2 ^ (b - 1)"
    using covers_split [OF c b] by blast
  let ?P = "\<lambda>n. rn_id n < rs"
  define left where "left = \<lparr> bn_bits = bn_bits (data ! i) - 1, bn_start = bn_start (data ! i), bn_end_inclusive = le,
      bn_data = Leaf ((leaf_default now)\<lparr> lb_nodes := filter ?P (lb_nodes l) \<rparr>) \<rparr>"
  define right where "right = \<lparr> bn_bits = bn_bits (data ! i) - 1, bn_start = rs, bn_end_inclusive = bn_end_inclusive (data ! i),
      bn_data = Leaf ((leaf_default now)\<lparr> lb_nodes := filter (\<lambda>n. \<not> ?P n) (lb_nodes l) \<rparr>) \<rparr>"
  define top where "top = (data ! i)\<lparr> bn_data := LeftRight (length data) (Suc (length data)) \<rparr>"
  define data' where "data' = (data @ [left, right])[i := top]"
  have run: "(split_leaf now i l data :: (_, unit) rust) = Inr (rs, data')"
    by (simp add: split_leaf_def S Let_def left_def right_def top_def data'_def)
  have i_len: "i < length data" using tree_rep_leaf [OF T i c] by simp
  have at: "data' ! i = top" "data' ! length data = left" "data' ! Suc (length data) = right"
    using i_len by (simp_all add: data'_def nth_append)
  note C = c [unfolded covers_def]
  have pw: "(2 :: nat) ^ b = 2 * 2 ^ (b - 1)" using b by (simp add: power_eq_if)
  have bits: "unat (bn_bits (data ! i) - 1) = b - 1"
    using C b by (subst unat_sub) (simp_all add: word_le_nat_alt)
  have covl: "covers (b - 1) (2 * q) left" and covr: "covers (b - 1) (2 * q + 1) right"
  proof -
    define p where "p = (2 :: nat) ^ (b - 1)"
    have "1 \<le> p" "(2 :: nat) ^ b = 2 * p" using pw by (simp_all add: p_def)
    then have "q * 2 ^ b + (2 ^ b - 1) = (2 * q + 1) * p + (p - 1)" by (simp add: algebra_simps)
    moreover have "b - 1 \<le> 160" using C by linarith
    ultimately show "covers (b - 1) (2 * q) left" "covers (b - 1) (2 * q + 1) right"
      using C L V bits pw by (auto simp: covers_def left_def right_def p_def)
  qed
  have ids: "\<forall>n \<in> set (lb_nodes l). in_bucket b q (rn_id n)" using l(2) by (simp add: bucket_ok_def)
  have okl: "bucket_ok (b - 1) (2 * q) ((leaf_default now)\<lparr> lb_nodes := filter ?P (lb_nodes l) \<rparr>)"
    and okr: "bucket_ok (b - 1) (2 * q + 1) ((leaf_default now)\<lparr> lb_nodes := filter (\<lambda>n. \<not> ?P n) (lb_nodes l) \<rparr>)"
    using l(2) half_less [OF b _ L(2) V(2)] ids
    by (auto simp: bucket_ok_def leaf_default_def sorted_wrt_map sorted_wrt_filter
        intro: order_trans [OF length_filter_le])
  have "rep data' b' q' (split_skel i (length data))" if "covers b' q' (data ! i)" for b' q'
  proof -
    have eq: "b' = b" "q' = q" using covers_unique [OF c that] by simp_all
    have "covers b q top" using c by (simp add: top_def covers_def)
    then show ?thesis
      using b i_len covl covr okl okr unfolding eq
      by (simp add: at) (simp add: data'_def top_def left_def right_def)
  qed
  then have "tree_rep data' (graft i (split_skel i (length data)) s)"
    using i_len by (intro tree_rep_graft_split [OF T i]) (simp_all add: data'_def nth_append)
  moreover have "bag data' = bag data"
  proof -
    have "bag data' + mset (lb_nodes l) = bag data + mset (filter ?P (lb_nodes l)) + mset (filter (\<lambda>n. \<not> ?P n) (lb_nodes l))"
      using bag_update [of i "data @ [left, right]" top] i_len l(1)
      by (simp add: data'_def bag_append nth_append) (simp add: bag_def top_def left_def right_def ac_simps)
    moreover have "mset (filter ?P (lb_nodes l)) + mset (filter (\<lambda>n. \<not> ?P n) (lb_nodes l)) = mset (lb_nodes l)"
      by (simp add: multiset_partition [symmetric])
    ultimately show ?thesis by (simp add: add.assoc)
  qed
  moreover have "set (leaf_nodes (bn_data left)) \<subseteq> set (lb_nodes l)" "set (leaf_nodes (bn_data right)) \<subseteq> set (lb_nodes l)"
    by (auto simp: left_def right_def)
  ultimately show ?thesis
    using run L(2) V(2) covl covr by (intro exI [of _ rs] exI [of _ data']) (simp add: at)
qed

section \<open>Insertion\<close>

definition tree_inv :: "bucket_tree \<Rightarrow> bool" where
  "tree_inv t \<longleftrightarrow> (\<exists>s. tree_rep (tr_data t) s) \<and> tr_size t = size (bag (tr_data t)) \<and> tr_size t \<le> tr_max_size t"

text \<open>The effect of an insertion on the stored nodes, by its result.\<close>

fun inserted :: "instant \<Rightarrow> routing_table_node \<Rightarrow> insert_result \<Rightarrow> routing_table_node multiset \<Rightarrow>
    routing_table_node multiset \<Rightarrow> bool" where
  "inserted now new WasExisting B B' \<longleftrightarrow> B' = B"
| "inserted now new Ignored B B' \<longleftrightarrow> B' = B"
| "inserted now new Added B B' \<longleftrightarrow> B' = add_mset new B"
| "inserted now new (ReplacedBad old) B B' \<longleftrightarrow>
     old \<in># B \<and> status old now = Bad \<and> B' = add_mset new (B - {#old#})"

lemma find_Some_nth: "List.find p xs = Some x \<Longrightarrow> x \<in> set xs \<and> p x"
  by (auto simp: find_Some_iff)

lemma new_node_id [simp]: "rn_id (new_routing_table_node i a) = i"
  by (simp add: new_routing_table_node_def)

lemma bag_put:
  assumes "i < length data" and "bn_data (data ! i) = Leaf l"
  shows "bag (data[i := (data ! i)\<lparr> bn_data := Leaf l' \<rparr>]) + mset (lb_nodes l) = bag data + mset (lb_nodes l')"
  using bag_update [OF assms(1), of "(data ! i)\<lparr> bn_data := Leaf l' \<rparr>"] assms(2) by simp

lemma leaf_in_bag:
  assumes "i < length data" and "bn_data (data ! i) = Leaf l"
  shows "mset (lb_nodes l) \<subseteq># bag data"
proof -
  have "bag data = bag (data[i := data ! i])" by simp
  then have "bag (data[i := (data ! i)\<lparr> bn_data := Leaf \<lparr> lb_nodes = [], lb_last_refreshed = 0 \<rparr> \<rparr>]) + mset (lb_nodes l) = bag data"
    using bag_put [OF assms, of "\<lparr> lb_nodes = [], lb_last_refreshed = 0 \<rparr>"] by simp
  then show ?thesis by (metis mset_subset_eq_add_right)
qed

text \<open>Replacing node \<open>i\<close> of a bucket by a node with a new identifier of the same range.\<close>

lemma bucket_replace:
  assumes ok: "bucket_ok b q l" and i: "i < length (lb_nodes l)" and n: "in_bucket b q (rn_id n)"
    and new: "\<forall>r \<in> set (lb_nodes l). rn_id r \<noteq> rn_id n"
  shows "bucket_ok b q \<lparr> lb_nodes = sort_key rn_id ((lb_nodes l)[i := n]), lb_last_refreshed = now \<rparr>"
proof (rule bucket_sort)
  have "distinct ((map rn_id (lb_nodes l))[i := rn_id n])"
    using bucket_ok_distinct [OF ok] new by (intro distinct_list_update) auto
  then show "distinct (map rn_id ((lb_nodes l)[i := n]))" by (simp add: map_update)
  show "length ((lb_nodes l)[i := n]) \<le> 8" using ok by (simp add: bucket_ok_def)
  show "\<forall>m \<in> set ((lb_nodes l)[i := n]). in_bucket b q (rn_id m)"
    using ok n set_update_subset_insert [of "lb_nodes l" i n] unfolding bucket_ok_def by blast
qed

lemma bucket_add:
  assumes ok: "bucket_ok b q l" and len: "length (lb_nodes l) < 8" and n: "in_bucket b q (rn_id n)"
    and new: "\<forall>r \<in> set (lb_nodes l). rn_id r \<noteq> rn_id n"
  shows "bucket_ok b q \<lparr> lb_nodes = sort_key rn_id (lb_nodes l @ [n]), lb_last_refreshed = now \<rparr>"
  using bucket_ok_distinct [OF ok] assms by (intro bucket_sort) (auto simp: bucket_ok_def)

lemma full_bucket_splits:
  assumes "bucket_ok b q l" and "lb_nodes l \<noteq> []" and "in_bucket b q i" and "\<forall>r \<in> set (lb_nodes l). rn_id r \<noteq> i"
  shows "0 < b"
proof (rule ccontr)
  assume "\<not> 0 < b"
  then have "be_value (rn_id (hd (lb_nodes l))) = be_value i" "length (rn_id (hd (lb_nodes l))) = length i"
    using assms by (auto simp: bucket_ok_def)
  then show False using assms be_value_inject by (metis list.set_sel(1))
qed

lemma insert_into_leaf_ok:
  assumes "tree_rep (tr_data t) s" and "idx \<in> set (leaf_indices s)" and "covers b q (tr_data t ! idx)"
    and "in_bucket b q nid" and "b < fuel" and "tr_size t = size (bag (tr_data t))" and "tr_size t \<le> tr_max_size t"
  shows "\<exists>res t'. (insert_into_leaf fuel now idx self_id nid addr t :: (_, unit) rust) = Inr (res, t')
    \<and> tree_inv t' \<and> tr_max_size t' = tr_max_size t
    \<and> inserted now (new_routing_table_node nid addr) res (bag (tr_data t)) (bag (tr_data t'))
    \<and> (res = WasExisting \<longleftrightarrow> (\<exists>r \<in> set (leaf_nodes (bn_data (tr_data t ! idx))). rn_id r = nid))"
  using assms
proof (induction fuel arbitrary: t s idx b q)
  case (Suc fuel)
  let ?data = "tr_data t" and ?new = "new_routing_table_node nid addr"
  note T = Suc.prems(1) and i = Suc.prems(2) and c = Suc.prems(3)
  have len: "idx < length ?data" using tree_rep_leaf [OF T i c] by simp
  obtain l where l: "bn_data (?data ! idx) = Leaf l" and ok: "bucket_ok b q l" using tree_rep_leaf [OF T i c] by blast
  define put where "put ns = ?data[idx := (?data ! idx)\<lparr> bn_data := Leaf \<lparr> lb_nodes = sort_key rn_id ns, lb_last_refreshed = now \<rparr> \<rparr>]" for ns
  have inv0: "tree_inv t" using Suc.prems by (auto simp: tree_inv_def)
  have bagput: "bag (put ns) + mset (lb_nodes l) = bag ?data + mset ns" for ns
    using bag_put [OF len l] by (simp add: put_def)
  show ?case
  proof (cases "\<exists>r \<in> set (lb_nodes l). rn_id r = nid")
    case True
    then show ?thesis using len l inv0 by simp
  next
    case new: False
    then have new': "\<forall>r \<in> set (lb_nodes l). rn_id r \<noteq> rn_id ?new" by simp
    have bk: "in_bucket b q (rn_id ?new)" using Suc.prems(4) by simp
    show ?thesis
    proof (cases "List.find (\<lambda>i. status (lb_nodes l ! i) now = Bad) [0..<length (lb_nodes l)]")
      case (Some k)
      have k: "k < length (lb_nodes l)" "status (lb_nodes l ! k) now = Bad" using find_Some_nth [OF Some] by simp_all
      let ?t' = "t\<lparr> tr_data := put ((lb_nodes l)[k := ?new]) \<rparr>"
      have run: "(insert_into_leaf (Suc fuel) now idx self_id nid addr t :: (_, unit) rust) = Inr (ReplacedBad (lb_nodes l ! k), ?t')"
        using len l new Some by (simp add: put_def Let_def)
      have mem: "lb_nodes l ! k \<in># bag ?data" using leaf_in_bag [OF len l] k(1) by (meson mset_subset_eqD nth_mem set_mset_mset in_multiset_in_set)
      have "bag (put ((lb_nodes l)[k := ?new])) + mset (lb_nodes l) = add_mset ?new (bag ?data - {#lb_nodes l ! k#}) + mset (lb_nodes l)"
        unfolding bagput using k(1) mem by (simp add: mset_update)
      then have bag: "bag (put ((lb_nodes l)[k := ?new])) = add_mset ?new (bag ?data - {#lb_nodes l ! k#})" by simp
      have "tree_rep (put ((lb_nodes l)[k := ?new])) s"
        unfolding put_def by (rule tree_rep_put [OF T i c bucket_replace [OF ok k(1) bk new']])
      then have "tree_inv ?t'" using Suc.prems(6,7) size_Suc_Diff1 [OF mem] by (auto simp: tree_inv_def bag)
      then show ?thesis using run bag mem k(2) l new by (intro exI [of _ "ReplacedBad (lb_nodes l ! k)"] exI [of _ ?t']) simp
    next
      case None
      consider (full) "tr_size t = tr_max_size t"
        | (add) "tr_size t \<noteq> tr_max_size t" "length (lb_nodes l) < 8"
        | (away) "tr_size t \<noteq> tr_max_size t" "\<not> length (lb_nodes l) < 8"
            "self_id < bn_start (?data ! idx) \<or> bn_end_inclusive (?data ! idx) < self_id"
        | (split) "tr_size t \<noteq> tr_max_size t" "\<not> length (lb_nodes l) < 8"
            "\<not> (self_id < bn_start (?data ! idx) \<or> bn_end_inclusive (?data ! idx) < self_id)"
        by blast
      then show ?thesis
      proof cases
        case full
        then show ?thesis using len l new None inv0 by (simp add: Let_def)
      next
        case away
        then show ?thesis using len l new None inv0 by (simp add: Let_def)
      next
        case add
        let ?t' = "t\<lparr> tr_data := put (lb_nodes l @ [?new]), tr_size := tr_size t + 1 \<rparr>"
        have run: "(insert_into_leaf (Suc fuel) now idx self_id nid addr t :: (_, unit) rust) = Inr (Added, ?t')"
          using len l new None add by (simp add: put_def Let_def)
        have bag: "bag (put (lb_nodes l @ [?new])) = add_mset ?new (bag ?data)" using bagput [of "lb_nodes l @ [?new]"] by simp
        have "tree_rep (put (lb_nodes l @ [?new])) s"
          unfolding put_def by (rule tree_rep_put [OF T i c bucket_add [OF ok add(2) bk new']])
        then have "tree_inv ?t'" using Suc.prems(6,7) add(1) by (auto simp: tree_inv_def bag)
        then show ?thesis using run bag l new by (intro exI [of _ Added] exI [of _ ?t']) simp
      next
        case split
        have b: "0 < b" using full_bucket_splits [OF ok _ Suc.prems(4)] new split(2) by (cases "lb_nodes l = []") auto
        obtain rs data' where S: "(split_leaf now idx l ?data :: (_, unit) rust) = Inr (rs, data')"
            "tree_rep data' (graft idx (split_skel idx (length ?data)) s)" "bag data' = bag ?data"
            "length rs = 20" "be_value rs = (2 * q + 1) * 2 ^ (b - 1)"
            "covers (b - 1) (2 * q) (data' ! length ?data)" "covers (b - 1) (2 * q + 1) (data' ! Suc (length ?data))"
            "set (leaf_nodes (bn_data (data' ! length ?data))) \<subseteq> set (lb_nodes l)"
            "set (leaf_nodes (bn_data (data' ! Suc (length ?data)))) \<subseteq> set (lb_nodes l)"
          using split_leaf_rep [OF T i c b l ok] by blast
        define idx' where "idx' = (if nid < rs then length ?data else Suc (length ?data))"
        define q' where "q' = (if nid < rs then 2 * q else 2 * q + 1)"
        let ?t1 = "t\<lparr> tr_data := data' \<rparr>"
        have run: "(insert_into_leaf (Suc fuel) now idx self_id nid addr t :: (_, unit) rust) =
            insert_into_leaf fuel now idx' self_id nid addr ?t1"
          using len l new None split S(1) by (simp add: Let_def idx'_def)
        have "idx' \<in> set (leaf_indices (graft idx (split_skel idx (length ?data)) s))"
          using leaf_indices_graft [OF i, of "split_skel idx (length ?data)"] by (auto simp: idx'_def)
        moreover have "covers (b - 1) q' (data' ! idx')" using S(6,7) by (simp add: idx'_def q'_def)
        moreover have "in_bucket (b - 1) q' nid" unfolding q'_def by (rule half_less [OF b Suc.prems(4) S(4,5)])
        moreover have "\<not> (\<exists>r \<in> set (leaf_nodes (bn_data (data' ! idx'))). rn_id r = nid)"
          using S(8,9) new by (auto simp: idx'_def)
        ultimately show ?thesis
          unfolding run using Suc.IH [of ?t1 "graft idx (split_skel idx (length ?data)) s" idx' "b - 1" q'] S(2,3)
            Suc.prems(5-7) b l new by simp
      qed
    qed
  qed
qed simp

lemma tree_find:
  assumes T: "tree_rep (tr_data t) s" and i: "length i = 20"
  shows "\<exists>idx b q. (get_leaf t i :: (_, unit) rust) = Inr idx \<and> idx \<in> set (leaf_indices s) \<and> covers b q (tr_data t ! idx)
    \<and> in_bucket b q i \<and> b \<le> 160
    \<and> (\<forall>n \<in># bag (tr_data t). rn_id n = i \<longrightarrow> n \<in> set (leaf_nodes (bn_data (tr_data t ! idx))))"
proof -
  have R: "root s = 0" "rep (tr_data t) 160 0 s" using T by (simp_all add: tree_rep_def)
  have "be_value i < 2 ^ 160" using be_value_bound [of i] i by simp
  then have root: "in_bucket 160 0 i" using i by simp
  let ?idx = "find_leaf 160 (be_value i) s"
  have "(get_leaf_loop (length (tr_data t)) (tr_data t) i (root s) :: (_, unit) rust) = Inr ?idx"
    by (rule get_leaf_loop_find [OF R(2) root]) simp
  then have "(get_leaf t i :: (_, unit) rust) = Inr ?idx" using R(1) by (simp add: get_leaf_def)
  moreover obtain b q where "covers b q (tr_data t ! ?idx)" "be_value i div 2 ^ b = q" "b \<le> 160"
    using find_leaf_bucket(1) [OF R(2)] root by blast
  moreover have "?idx \<in> set (leaf_indices s)" using find_leaf_bucket(2) [OF R(2)] root by blast
  moreover have "n \<in> set (leaf_nodes (bn_data (tr_data t ! ?idx)))" if "n \<in># bag (tr_data t)" "rn_id n = i" for n
    using node_in_its_leaf [OF R(2)] that mset_node_list [OF T] by (metis set_mset_mset)
  ultimately show ?thesis using i by blast
qed

lemma leaf_node_in_bag:
  "i < length data \<Longrightarrow> n \<in> set (leaf_nodes (bn_data (data ! i))) \<Longrightarrow> n \<in># bag data"
  by (cases "bn_data (data ! i)") (auto dest!: leaf_in_bag mset_subset_eqD)

lemma tree_add_node_ok:
  assumes inv: "tree_inv t" and nid: "length nid = 20"
  shows "\<exists>res t'. (tree_add_node now self_id nid addr t :: (_, unit) rust) = Inr (res, t')
    \<and> tree_inv t' \<and> tr_max_size t' = tr_max_size t
    \<and> inserted now (new_routing_table_node nid addr) res (bag (tr_data t)) (bag (tr_data t'))
    \<and> (res = WasExisting \<longleftrightarrow> (\<exists>r \<in># bag (tr_data t). rn_id r = nid))"
proof -
  obtain s where T: "tree_rep (tr_data t) s" and sz: "tr_size t = size (bag (tr_data t))" "tr_size t \<le> tr_max_size t"
    using inv by (auto simp: tree_inv_def)
  obtain idx b q where F: "(get_leaf t nid :: (_, unit) rust) = Inr idx" "idx \<in> set (leaf_indices s)" "covers b q (tr_data t ! idx)"
      "in_bucket b q nid" "b \<le> 160"
      "\<forall>n \<in># bag (tr_data t). rn_id n = nid \<longrightarrow> n \<in> set (leaf_nodes (bn_data (tr_data t ! idx)))"
    using tree_find [OF T nid] by blast
  have "(\<exists>r \<in> set (leaf_nodes (bn_data (tr_data t ! idx))). rn_id r = nid) \<longleftrightarrow> (\<exists>r \<in># bag (tr_data t). rn_id r = nid)"
    using F(6) leaf_node_in_bag [OF tree_rep_leaf(1) [OF T F(2,3)]] by blast
  moreover have "b < 161" using F(5) by simp
  ultimately show ?thesis
    using insert_into_leaf_ok [OF T F(2-4) \<open>b < 161\<close> sz, of now self_id addr] by (simp add: tree_add_node_def F(1))
qed

section \<open>Updates of a node\<close>

lemma update_first_map:
  assumes "\<forall>x. g (f x) = g x"
  shows "map g (update_first p f xs) = map g xs"
  using assms by (induction xs) auto

lemma update_first_mset:
  "\<exists>x \<in> set xs. p x \<Longrightarrow> \<exists>x \<in> set xs. p x \<and> mset (update_first p f xs) = add_mset (f x) (mset xs - {#x#})"
proof (induction xs)
  case (Cons y ys)
  then show ?case
  proof (cases "p y")
    case False
    then obtain x where x: "x \<in> set ys" "p x" "mset (update_first p f ys) = add_mset (f x) (mset ys - {#x#})"
      using Cons by auto
    then have "mset (update_first p f (y # ys)) = add_mset (f x) (mset (y # ys) - {#x#})"
      using False by (auto simp: diff_add_mset_swap)
    then show ?thesis using x by (intro bexI [of _ x]) auto
  qed auto
qed simp

lemma get_mut_ok:
  assumes inv: "tree_inv t" and nid: "length nid = 20" and f: "\<forall>n. rn_id (f n) = rn_id n"
  shows "\<exists>found t'. (get_mut nid refresh f t :: (_, unit) rust) = Inr (found, t') \<and> tree_inv t' \<and> tr_max_size t' = tr_max_size t
    \<and> (found \<longleftrightarrow> (\<exists>r \<in># bag (tr_data t). rn_id r = nid))
    \<and> (found \<longrightarrow> (\<exists>r \<in># bag (tr_data t). rn_id r = nid \<and> bag (tr_data t') = add_mset (f r) (bag (tr_data t) - {#r#})))
    \<and> (\<not> found \<longrightarrow> t' = t)"
proof -
  obtain s where T: "tree_rep (tr_data t) s" and sz: "tr_size t = size (bag (tr_data t))" "tr_size t \<le> tr_max_size t"
    using inv by (auto simp: tree_inv_def)
  obtain idx b q where F: "(get_leaf t nid :: (_, unit) rust) = Inr idx" "idx \<in> set (leaf_indices s)" "covers b q (tr_data t ! idx)"
      "\<forall>n \<in># bag (tr_data t). rn_id n = nid \<longrightarrow> n \<in> set (leaf_nodes (bn_data (tr_data t ! idx)))"
    using tree_find [OF T nid] by blast
  obtain l where l: "bn_data (tr_data t ! idx) = Leaf l" and ok: "bucket_ok b q l" using tree_rep_leaf [OF T F(2,3)] by blast
  note len = tree_rep_leaf(1) [OF T F(2,3)]
  have mem: "(\<exists>r \<in> set (lb_nodes l). rn_id r = nid) \<longleftrightarrow> (\<exists>r \<in># bag (tr_data t). rn_id r = nid)"
    using F(4) leaf_node_in_bag [OF len] l by auto
  show ?thesis
  proof (cases "\<exists>r \<in> set (lb_nodes l). rn_id r = nid")
    case False
    then show ?thesis using F(1) l inv mem by (intro exI [of _ False] exI [of _ t]) (simp add: get_mut_def)
  next
    case True
    define l' where "l' = l\<lparr> lb_nodes := update_first (\<lambda>b. rn_id b = nid) f (lb_nodes l),
        lb_last_refreshed := (case refresh of None \<Rightarrow> lb_last_refreshed l | Some r \<Rightarrow> r) \<rparr>"
    let ?d = "(tr_data t)[idx := (tr_data t ! idx)\<lparr> bn_data := Leaf l' \<rparr>]"
    have run: "(get_mut nid refresh f t :: (_, unit) rust) = Inr (True, t\<lparr> tr_data := ?d \<rparr>)"
      using True F(1) l by (simp add: get_mut_def l'_def Let_def)
    have ids: "map rn_id (lb_nodes l') = map rn_id (lb_nodes l)"
      using f by (simp add: l'_def update_first_map)
    have "length (lb_nodes l') = length (lb_nodes l)" using arg_cong [OF ids, of length] by simp
    moreover have "\<forall>i \<in> set (map rn_id (lb_nodes l')). in_bucket b q i" using ok unfolding ids bucket_ok_def by simp
    then have "\<forall>n \<in> set (lb_nodes l'). in_bucket b q (rn_id n)" by simp
    ultimately have ok': "bucket_ok b q l'" using ok ids unfolding bucket_ok_def by simp
    obtain r where r: "r \<in> set (lb_nodes l)" "rn_id r = nid" "mset (lb_nodes l') = add_mset (f r) (mset (lb_nodes l) - {#r#})"
      using update_first_mset [OF True] by (auto simp: l'_def)
    have rin: "r \<in># bag (tr_data t)" using leaf_node_in_bag [OF len, of r] r l by simp
    have "bag ?d + mset (lb_nodes l) = add_mset (f r) (bag (tr_data t) - {#r#}) + mset (lb_nodes l)"
      unfolding bag_put [OF len l] using r(1) rin by (simp add: r(3))
    then have bag: "bag ?d = add_mset (f r) (bag (tr_data t) - {#r#})" by simp
    have "tree_inv (t\<lparr> tr_data := ?d \<rparr>)"
      using tree_rep_put [OF T F(2,3) ok'] sz size_Suc_Diff1 [OF rin] by (simp add: tree_inv_def bag exI [of _ s])
    moreover have "\<exists>r \<in># bag (tr_data t). rn_id r = nid \<and> bag ?d = add_mset (f r) (bag (tr_data t) - {#r#})"
      using rin r(2) bag by blast
    moreover have "\<exists>r \<in># bag (tr_data t). rn_id r = nid" using rin r(2) by blast
    ultimately show ?thesis
      using run by (intro exI [of _ True] exI [of _ "t\<lparr> tr_data := ?d \<rparr>"]) simp
  qed
qed

end
