(* ===== verification/Routing_Table_Props.thy ===== *)
theory Routing_Table_Props
  imports Routing_Table_Insert
begin

text \<open>Properties of the routing table in the states that its operations reach.\<close>

inductive rt_reachable :: "routing_table \<Rightarrow> bool" where
  new: "length i = 20 \<Longrightarrow> rt_reachable (rt_new now i max_size)"
| add: "rt_reachable t \<Longrightarrow> length i = 20 \<Longrightarrow> (rt_add_node now i addr t :: (_, unit) rust) = Inr (res, t') \<Longrightarrow> rt_reachable t'"
| request: "rt_reachable t \<Longrightarrow> length i = 20 \<Longrightarrow> (rt_mark_outgoing_request i now t :: (_, unit) rust) = Inr (found, t') \<Longrightarrow> rt_reachable t'"
| response: "rt_reachable t \<Longrightarrow> length i = 20 \<Longrightarrow> (rt_mark_response i now t :: (_, unit) rust) = Inr (found, t') \<Longrightarrow> rt_reachable t'"
| error: "rt_reachable t \<Longrightarrow> length i = 20 \<Longrightarrow> (rt_mark_error i t :: (_, unit) rust) = Inr (found, t') \<Longrightarrow> rt_reachable t'"
| query: "rt_reachable t \<Longrightarrow> length i = 20 \<Longrightarrow> (rt_mark_last_query i now t :: (_, unit) rust) = Inr (found, t') \<Longrightarrow> rt_reachable t'"

lemma tree_new_inv: "tree_inv (tree_new now m)"
proof -
  have "be_value (replicate n 0xff) = 256 ^ n - 1" for n
  proof (induction n)
    case (Suc n)
    have "(1 :: nat) \<le> 256 ^ n" by simp
    then show ?case using Suc be_value_Cons [of "0xff" "replicate n 0xff"] by simp
  qed (simp add: be_value_def)
  moreover have "be_value (replicate n 0) = 0" for n
    by (induction n) (simp_all add: be_value_Cons, simp add: be_value_def)
  ultimately have "tree_rep (tr_data (tree_new now m)) (SLeaf 0)"
    by (simp add: tree_rep_def tree_new_def covers_def bucket_ok_def leaf_default_def lessThan_Suc)
  then show ?thesis by (auto simp: tree_inv_def tree_new_def bag_def leaf_default_def)
qed

lemma marks_keep_id [simp]:
  "rn_id (node_mark_outgoing_request now n) = rn_id n" "rn_id (node_mark_response now n) = rn_id n"
  "rn_id (node_mark_error n) = rn_id n" "rn_id (node_mark_last_query now n) = rn_id n"
  by (simp_all add: node_mark_outgoing_request_def node_mark_response_def node_mark_error_def node_mark_last_query_def)

lemma with_buckets_get_mut:
  assumes "tree_inv (rt_buckets t)" and "length i = 20" and "\<forall>n. rn_id (f n) = rn_id n"
    and "with_buckets (get_mut i refresh f (rt_buckets t)) t = Inr (found, t')"
  shows "tree_inv (rt_buckets t')"
  using get_mut_ok [OF assms(1-3), of refresh] assms(4)
  by (fastforce simp: with_buckets_def)

lemmas rt_marks = rt_mark_outgoing_request_def rt_mark_response_def rt_mark_error_def rt_mark_last_query_def

lemma rt_reachable_inv: "rt_reachable t \<Longrightarrow> tree_inv (rt_buckets t)"
proof (induction rule: rt_reachable.induct)
  case (new i now max_size)
  show ?case by (simp add: rt_new_def tree_new_inv)
next
  case (add t i now addr res t')
  then show ?case
    using tree_add_node_ok [OF add.IH add.hyps(2), of now "rt_id t" addr] by (fastforce simp: rt_add_node_def Let_def)
qed (auto simp: rt_marks elim!: with_buckets_get_mut [rotated 3])

lemma rt_iter_inv:
  assumes "tree_inv (rt_buckets t)"
  shows "\<exists>ns. (rt_iter t :: (_, unit) rust) = Inr ns \<and> sorted_wrt (<) (map rn_id ns) \<and> mset ns = bag (tr_data (rt_buckets t))
    \<and> (\<forall>n \<in> set ns. length (rn_id n) = 20)"
proof -
  obtain s where T: "tree_rep (tr_data (rt_buckets t)) s" using assms by (auto simp: tree_inv_def)
  then have "rep (tr_data (rt_buckets t)) 160 0 s" by (simp add: tree_rep_def)
  then show ?thesis
    using tree_iter_rep [OF T] node_list_sorted mset_node_list [OF T] unfolding rt_iter_def by blast
qed


definition sample_id :: "u8 \<Rightarrow> id" where
  "sample_id n = n # replicate 19 0"

definition sample_addr :: socket_addr where
  "sample_addr = sa_new (V4 0x7f000001) 6881"


lemma routing_insert_effect:
  assumes "rt_reachable t" and "length i = 20" and "rt_iter t = Inr ns"
  shows "\<exists>res t' ns'. rt_add_node now i addr t = Inr (res, t') \<and> rt_iter t' = Inr ns'
    \<and> inserted now (new_routing_table_node i addr) res (mset ns) (mset ns')
    \<and> (res = WasExisting \<longleftrightarrow> i \<in> rn_id ` set ns)"
proof -
  note inv = rt_reachable_inv [OF assms(1)]
  obtain res b where A: "tree_add_node now (rt_id t) i addr (rt_buckets t) = Inr (res, b)" "tree_inv b"
      "inserted now (new_routing_table_node i addr) res (bag (tr_data (rt_buckets t))) (bag (tr_data b))"
      "res = WasExisting \<longleftrightarrow> (\<exists>r \<in># bag (tr_data (rt_buckets t)). rn_id r = i)"
    using tree_add_node_ok [OF inv assms(2)] by blast
  obtain t' where t': "rt_add_node now i addr t = Inr (res, t')" "rt_buckets t' = b"
    by (simp add: rt_add_node_def A(1) Let_def)
  obtain ns' where ns': "rt_iter t' = Inr ns'" "mset ns' = bag (tr_data b)"
    using rt_iter_inv [of t'] A(2) t'(2) by blast
  have "mset ns = bag (tr_data (rt_buckets t))" using rt_iter_inv [OF inv] assms(3) by auto
  then show ?thesis using A(3,4) t'(1) ns' by (metis (no_types, lifting) image_iff set_mset_mset)
qed

text \<open>
  C20: inserting a node never panics and ends, and its effect on the stored nodes is the one its result
  says: an existing identifier is found and nothing changes, a new node is added, a new node takes the
  place of a stored bad one, or nothing changes.
\<close>
theorem routing_table_insert_exact:
  assumes "rt_reachable t" and "length i = 20" and "rt_iter t = Inr ns"
  shows "\<exists>res t' ns'. rt_add_node now i addr t = Inr (res, t') \<and> rt_iter t' = Inr ns'
    \<and> inserted now (new_routing_table_node i addr) res (mset ns) (mset ns')
    \<and> (res = WasExisting \<longleftrightarrow> i \<in> rn_id ` set ns)"
  using assms by (rule routing_insert_effect)

lemma routing_table_insert_exact_witness:
  "\<exists>res t' ns'. rt_add_node 5 (sample_id 1) sample_addr (rt_new 0 (sample_id 0) None) = Inr (res, t') \<and> rt_iter t' = Inr ns'
    \<and> inserted 5 (new_routing_table_node (sample_id 1) sample_addr) res {#} (mset ns')"
proof -
  have "rt_reachable (rt_new 0 (sample_id 0) None)" "length (sample_id 1) = 20"
    by (auto intro: rt_reachable.new simp: sample_id_def)
  moreover have "rt_iter (rt_new 0 (sample_id 0) None) = Inr []" by code_simp
  ultimately show ?thesis using routing_table_insert_exact [of "rt_new 0 (sample_id 0) None" "sample_id 1" "[]" 5 sample_addr] by auto
qed

text \<open>Replacing a bad node increments the length that the table reports, though the number of nodes stays.\<close>

lemma replaced_node_counted_twice:
  assumes "rt_reachable t" and "length i = 20" and "rt_add_node now i addr t = Inr (ReplacedBad old, t')"
  shows "\<exists>ns ns'. rt_iter t = Inr ns \<and> rt_iter t' = Inr ns' \<and> length ns' = length ns \<and> rt_len t' = rt_len t + 1"
proof -
  note inv = rt_reachable_inv [OF assms(1)]
  obtain ns where ns: "rt_iter t = Inr ns" using rt_iter_inv [OF inv] by blast
  obtain ns' where ns': "rt_iter t' = Inr ns'"
      "old \<in># mset ns" "mset ns' = add_mset (new_routing_table_node i addr) (mset ns - {#old#})"
    using routing_insert_effect [OF assms(1,2) ns, of now addr] assms(3) by auto
  have "size (mset ns') = size (mset ns)" using ns'(2,3) size_Suc_Diff1 [OF ns'(2)] by simp
  moreover have "rt_len t' = rt_len t + 1"
    using assms(3) by (auto simp: rt_add_node_def rt_len_def rbind_eq_Inr Let_def split: prod.splits insert_result.splits)
  ultimately show ?thesis using ns ns'(1) by simp
qed

section \<open>Random identifiers for refreshing a bucket\<close>

lemma generate_random_id_bits:
  assumes data: "length data = 20" and start: "length start = 20" and bits: "unat bits \<le> 160"
  shows "\<exists>i. generate_random_id data start bits = Inr i \<and> length i = 20
    \<and> (\<forall>k. unat bits \<le> k \<longrightarrow> bit (be_value i) k = bit (be_value start) k)"
proof -
  let ?f = "\<lambda>d n. rbind (id_get_bit start (of_nat n)) (\<lambda>v. id_set_bit d (of_nat n) v)"
  let ?P = "\<lambda>ns d. length d = 20 \<and> (\<forall>k. 160 - length ns \<le> k \<longrightarrow> bit (be_value d) k = bit (be_value start) k)"
  have n: "unat (160 - bits) = 160 - unat bits" using bits by (subst unat_sub) (simp_all add: word_le_nat_alt)
  have "\<exists>d. rfold ?f data [0..<160 - unat bits] = Inr d \<and> ?P [0..<160 - unat bits] d"
  proof (rule rfold_invariant)
    show "?P [] data" using bit_be_value_out [of data] bit_be_value_out [of start] data start by simp
  next
    fix "done" x todo d
    assume split: "[0..<160 - unat bits] = done @ x # todo" and P: "?P done d"
    have x: "x = length done" "x < 160"
    proof -
      have "length done < 160 - unat bits" using arg_cong [OF split, of length] by simp
      then show "x = length done" "x < 160" using arg_cong [OF split, of "\<lambda>xs. xs ! length done"] by simp_all
    qed
    have ux: "unat (of_nat x :: u8) = x" using x(2) by (simp add: unat_of_nat)
    have get: "id_get_bit start (of_nat x) = Inr (bit (be_value start) (159 - x))"
      using id_get_bit_value [of "of_nat x" start] start ux x(2) by simp
    obtain d' where d': "id_set_bit d (of_nat x) (bit (be_value start) (159 - x)) = Inr d'" "length d' = length d"
        "\<forall>k. bit (be_value d') k = (if k = 159 - x then bit (be_value start) (159 - x) else bit (be_value d) k)"
      using id_set_bit_value [of "of_nat x" d "bit (be_value start) (159 - x)"] P ux x(2) by auto
    have "bit (be_value d') k = bit (be_value start) k" if "160 - length (done @ [x]) \<le> k" for k
      using that x P d'(3) by (cases "k = 159 - x") auto
    then show "\<exists>d'. ?f d x = Inr d' \<and> ?P (done @ [x]) d'" using get d'(1,2) P by auto
  qed
  then show ?thesis using n bits by (auto simp: generate_random_id_def)
qed

text \<open>
  The identifier drawn to refresh a bucket lies in the range of the bucket, whatever the random
  bytes are.
\<close>
lemma random_id_within_bucket:
  assumes "rt_reachable t" and "iter_leaves (rt_buckets t) = Inr bs" and "n \<in> set bs" and "length data = 20"
  shows "\<exists>i. generate_random_id data (bn_start n) (bn_bits n) = Inr i \<and> bn_start n \<le> i \<and> i \<le> bn_end_inclusive n"
proof -
  obtain s where T: "tree_rep (tr_data (rt_buckets t)) s" using rt_reachable_inv [OF assms(1)] by (auto simp: tree_inv_def)
  then have R: "rep (tr_data (rt_buckets t)) 160 0 s" by (simp add: tree_rep_def)
  obtain j where "j \<in> set (leaf_indices s)" "n = tr_data (rt_buckets t) ! j"
    using iter_leaves_rep [OF T] assms(2,3) by auto
  then obtain b q where c: "covers b q n" using rep_leaf [OF R] by blast
  note C = c [unfolded covers_def]
  obtain i where i: "generate_random_id data (bn_start n) (bn_bits n) = Inr i" "length i = 20"
      "\<forall>k. b \<le> k \<longrightarrow> bit (be_value i) k = bit (be_value (bn_start n)) k"
    using generate_random_id_bits [OF assms(4), of "bn_start n" "bn_bits n"] C by auto
  have "drop_bit b (be_value i) = drop_bit b (be_value (bn_start n))"
    using i(3) by (intro bit_eqI) (simp add: bit_drop_bit_eq)
  then have "in_bucket b q i" using C i(2) by (simp add: drop_bit_eq_div)
  then show ?thesis using covers_mem [OF c i(2)] i(1) by blast
qed

lemma random_id_within_bucket_witness:
  "\<exists>i. generate_random_id (replicate 20 7) (replicate 20 0) 160 = Inr i \<and> i \<le> replicate 20 0xff"
proof -
  let ?t = "rt_new 0 (sample_id 0) None"
  let ?n = "tr_data (rt_buckets ?t) ! 0"
  have "rt_reachable ?t" by (auto intro: rt_reachable.new simp: sample_id_def)
  moreover have "iter_leaves (rt_buckets ?t) = Inr [?n]" by code_simp
  ultimately have "\<exists>i. generate_random_id (replicate 20 7) (bn_start ?n) (bn_bits ?n) = Inr i \<and> bn_start ?n \<le> i \<and> i \<le> bn_end_inclusive ?n"
    by (rule random_id_within_bucket) simp_all
  then show ?thesis by (auto simp: rt_new_def tree_new_def)
qed

end
