(* ===== verification/Metainfo.thy ===== *)
theory Metainfo
  imports File_Info
begin

text \<open>
  The description of a torrent, \<^verbatim>\<open>crates/librtbit-core/src/torrent_metainfo.rs\<close>, and the list of files the
  client derives from it, \<^verbatim>\<open>TorrentMetadata\<close> of \<^verbatim>\<open>librtbit/src/torrent_state/mod.rs\<close>. Buffers are byte strings,
  and so are strings, in UTF-8. An encoding is its decoding function; the detector that chooses one from the
  names it is fed is an argument.
\<close>

section \<open>Data\<close>

type_synonym encoding = "bytes \<Rightarrow> bytes"

record torrent_meta_v1_file =
  mf_length :: u64
  mf_path :: "bytes list"
  mf_attr :: "bytes option"
  mf_sha1 :: "bytes option"
  mf_symlink_path :: "bytes list option"

record torrent_meta_v1_info =
  mi_name :: "bytes option"
  mi_pieces :: "bytes option"
  mi_piece_length :: u32
  mi_meta_version :: "u32 option"
  mi_length :: "u64 option"
  mi_attr :: "bytes option"
  mi_sha1 :: "bytes option"
  mi_symlink_path :: "bytes list option"
  mi_md5sum :: "bytes option"
  mi_files :: "torrent_meta_v1_file list option"
  mi_private :: bool

datatype file_name_data = Single "bytes option" | Tree "bytes list"

record file_iterator_name =
  fn_encoding :: encoding
  fn_data :: file_name_data

record file_details =
  fd_filename :: file_iterator_name
  fd_len :: u64
  fd_attr :: "bytes option"
  fd_sha1 :: "bytes option"
  fd_symlink_path :: "bytes list option"

record file_details_ext =
  fx_details :: file_details
  fx_offset :: u64
  fx_pieces :: "u32 \<times> u32"

record validated_info =
  vi_encoding :: encoding
  vi_lengths :: lengths
  vi_info :: torrent_meta_v1_info

section \<open>File names and attributes\<close>

definition torrent_content :: bytes where
  "torrent_content = [116, 111, 114, 114, 101, 110, 116, 45, 99, 111, 110, 116, 101, 110, 116]"

definition iter_components_bytes :: "file_iterator_name \<Rightarrow> bytes list" where
  "iter_components_bytes name =
     (case fn_data name of
        Single None \<Rightarrow> [torrent_content]
      | Single (Some n) \<Rightarrow> [n]
      | Tree t \<Rightarrow> t)"

definition iter_components :: "file_iterator_name \<Rightarrow> bytes list" where
  "iter_components name = map (fn_encoding name) (iter_components_bytes name)"

definition to_pathbuf :: "file_iterator_name \<Rightarrow> path_buf" where
  "to_pathbuf name = foldl path_push [] (iter_components name)"

definition default_attrs :: file_attrs where
  "default_attrs = \<lparr> fa_symlink = False, fa_hidden = False, fa_padding = False, fa_executable = False \<rparr>"

definition attr_byte :: "file_attrs \<Rightarrow> u8 \<Rightarrow> file_attrs" where
  "attr_byte result b =
     (if b = 108 then result\<lparr> fa_symlink := True \<rparr>
      else if b = 104 then result\<lparr> fa_hidden := True \<rparr>
      else if b = 112 then result\<lparr> fa_padding := True \<rparr>
      else if b = 120 then result\<lparr> fa_executable := True \<rparr>
      else result)"

definition attrs :: "file_details \<Rightarrow> file_attrs" where
  "attrs fd = (case fd_attr fd of None \<Rightarrow> default_attrs | Some bs \<Rightarrow> foldl attr_byte default_attrs bs)"

section \<open>Validation\<close>

definition iter_file_details_raw :: "encoding \<Rightarrow> torrent_meta_v1_info \<Rightarrow> (file_details list, core_error) rust" where
  "iter_file_details_raw enc info =
     (case (mi_length info, mi_files info) of
        (Some len, None) \<Rightarrow>
          Inr [\<lparr> fd_filename = \<lparr> fn_encoding = enc, fn_data = Single (mi_name info) \<rparr>, fd_len = len, fd_attr = mi_attr info,
                 fd_sha1 = mi_sha1 info, fd_symlink_path = mi_symlink_path info \<rparr>]
      | (None, Some files) \<Rightarrow>
          if files = [] then Inl (Err BadTorrentMultiFileEmpty)
          else Inr (map (\<lambda>f. \<lparr> fd_filename = \<lparr> fn_encoding = enc, fn_data = Tree (mf_path f) \<rparr>, fd_len = mf_length f,
                 fd_attr = mf_attr f, fd_sha1 = mf_sha1 f, fd_symlink_path = mf_symlink_path f \<rparr>) files)
      | _ \<Rightarrow> Inl (Err BadTorrentBothSingleAndMultiFile))"

text \<open>\<^verbatim>\<open>Lengths::from_torrent\<close> of \<^verbatim>\<open>lengths.rs\<close>; the sum of the lengths wraps. The encoding does not matter there.\<close>

definition Lengths_from_torrent :: "torrent_meta_v1_info \<Rightarrow> (lengths, core_error) rust" where
  "Lengths_from_torrent torrent =
     rbind (iter_file_details_raw (\<lambda>b. b) torrent) (\<lambda>ds.
       Lengths_new (sum_list (map fd_len ds)) (mi_piece_length torrent))"

definition has_v1_pieces :: "torrent_meta_v1_info \<Rightarrow> bool" where
  "has_v1_pieces info \<longleftrightarrow> (case mi_pieces info of None \<Rightarrow> False | Some p \<Rightarrow> p \<noteq> [])"

definition is_v2 :: "torrent_meta_v1_info \<Rightarrow> bool" where
  "is_v2 info \<longleftrightarrow> mi_meta_version info = Some 2"

definition is_hybrid :: "torrent_meta_v1_info \<Rightarrow> bool" where
  "is_hybrid info \<longleftrightarrow> has_v1_pieces info \<and> is_v2 info"

definition detect_encoding :: "(bytes list \<Rightarrow> encoding) \<Rightarrow> torrent_meta_v1_info \<Rightarrow> encoding" where
  "detect_encoding guess info =
     guess ((case mi_name info of None \<Rightarrow> [] | Some n \<Rightarrow> [n])
            @ (case mi_files info of None \<Rightarrow> [] | Some files \<Rightarrow> concat (map mf_path files)))"

definition check_part :: "bytes \<Rightarrow> (unit, core_error) rust" where
  "check_part part =
     (if part = dot_dot then Inl (Err BadTorrentPathTraversal)
      else if slash \<in> set part \<or> 92 \<in> set part then Inl (Err BadTorrentSeparatorInName)
      else Inr ())"

definition check_file_name :: "nat \<Rightarrow> file_details \<Rightarrow> (nat, core_error) rust" where
  "check_file_name seen_files file =
     rbind (rfold (\<lambda>_ part. rbind (check_part part) (\<lambda>_. Inr True)) False (iter_components_bytes (fd_filename file)))
       (\<lambda>seen_a_bit. if \<not> seen_a_bit then Inl (Err BadTorrentFileNoName) else Inr (Suc seen_files))"

text \<open>The set of unique file names holds one path for each list of components.\<close>

definition insert_filename :: "path_buf list \<Rightarrow> file_details \<Rightarrow> (path_buf list, core_error) rust" where
  "insert_filename unique_filenames fd =
     (let pb = to_pathbuf (fd_filename fd)
      in if pb = [] then Inl (Err BadTorrentFileNoName)
         else Inr (if components pb \<in> components ` set unique_filenames then unique_filenames else unique_filenames @ [pb]))"

definition iter_file_details :: "validated_info \<Rightarrow> (file_details list, core_error) rust" where
  "iter_file_details v =
     (case iter_file_details_raw (vi_encoding v) (vi_info v) of Inl _ \<Rightarrow> Inl Panic | Inr ds \<Rightarrow> Inr ds)"

definition validate :: "(bytes list \<Rightarrow> encoding) \<Rightarrow> torrent_meta_v1_info \<Rightarrow> (validated_info, core_error) rust" where
  "validate guess self =
     (if \<not> has_v1_pieces self then Inl (Err V2OnlyNotSupported)
      else rbind (Lengths_from_torrent self) (\<lambda>l.
        let validated = \<lparr> vi_encoding = detect_encoding guess self, vi_lengths = l, vi_info = self \<rparr>
        in rbind (iter_file_details_raw (vi_encoding validated) self) (\<lambda>ds.
             rbind (rfold check_file_name 0 ds) (\<lambda>seen_files.
               if seen_files = 0 then Inl (Err BadTorrentNoFiles)
               else rbind (iter_file_details validated) (\<lambda>ds.
                 rbind (rfold insert_filename [] ds) (\<lambda>unique_filenames.
                   if length unique_filenames \<noteq> seen_files then Inl (Err BadTorrentDuplicateFilenames)
                   else Inr validated))))))"

definition vi_name :: "validated_info \<Rightarrow> bytes option" where
  "vi_name v = (case map_option (vi_encoding v) (mi_name (vi_info v)) of Some n \<Rightarrow> if n = [] then None else Some n | None \<Rightarrow> None)"

definition get_hash :: "torrent_meta_v1_info \<Rightarrow> u32 \<Rightarrow> bytes option" where
  "get_hash info piece =
     (case mi_pieces info of
        None \<Rightarrow> None
      | Some ps \<Rightarrow>
          let start = unat piece * 20; stop = start + 20
          in if stop \<le> length ps then Some (take 20 (drop start ps)) else None)"

section \<open>The files of a torrent\<close>

fun file_details_scan :: "lengths \<Rightarrow> u64 \<Rightarrow> file_details list \<Rightarrow> (file_details_ext list, core_error) rust" where
  "file_details_scan l acc_offset [] = Inr []"
| "file_details_scan l acc_offset (details # ds) =
     (case iter_pieces_within_offset l acc_offset (fd_len details) of
        Inl _ \<Rightarrow> Inl Panic
      | Inr pieces \<Rightarrow>
          rbind (file_details_scan l (acc_offset + fd_len details) ds) (\<lambda>rest.
            Inr (\<lparr> fx_details = details, fx_offset = acc_offset, fx_pieces = pieces \<rparr> # rest)))"

definition iter_file_details_ext :: "validated_info \<Rightarrow> (file_details_ext list, core_error) rust" where
  "iter_file_details_ext v = rbind (iter_file_details v) (file_details_scan (vi_lengths v) 0)"

record torrent_metadata =
  tm_info :: validated_info
  tm_torrent_bytes :: bytes
  tm_info_bytes :: bytes
  tm_file_infos :: "file_info list"

definition file_info_of :: "file_details_ext \<Rightarrow> file_info" where
  "file_info_of fd =
     \<lparr> fi_relative_filename = to_pathbuf (fd_filename (fx_details fd)), fi_offset_in_torrent = fx_offset fd,
       fi_piece_range = fx_pieces fd, fi_attrs = attrs (fx_details fd), fi_len = fd_len (fx_details fd) \<rparr>"

definition TorrentMetadata_new :: "validated_info \<Rightarrow> bytes \<Rightarrow> bytes \<Rightarrow> (torrent_metadata, core_error) rust" where
  "TorrentMetadata_new info torrent_bytes info_bytes =
     rbind (iter_file_details_ext info) (\<lambda>fds.
       Inr \<lparr> tm_info = info, tm_torrent_bytes = torrent_bytes, tm_info_bytes = info_bytes,
             tm_file_infos = map file_info_of fds \<rparr>)"

section \<open>Renaming files\<close>

datatype rename_error =
    NothingToRename | NoSuchFile nat | EmptyPath nat | PathNotRelative path_buf | PathNotPlain path_buf | SamePath path_buf

definition rename_file :: "file_info list \<Rightarrow> nat \<times> path_buf \<Rightarrow> file_info list" where
  "rename_file file_infos = (\<lambda>(file_id, new_path).
     if file_id < length file_infos
     then file_infos[file_id := (file_infos ! file_id)\<lparr> fi_relative_filename := new_path \<rparr>] else file_infos)"

definition with_renamed_files :: "(nat \<times> path_buf) list \<Rightarrow> torrent_metadata \<Rightarrow> torrent_metadata" where
  "with_renamed_files renames self = self\<lparr> tm_file_infos := foldl rename_file (tm_file_infos self) renames \<rparr>"

fun is_normal :: "component \<Rightarrow> bool" where
  "is_normal (Normal _) = True"
| "is_normal _ = False"

definition rename_path :: "file_info list \<Rightarrow> path_buf list \<Rightarrow> nat \<times> path_buf \<Rightarrow> (path_buf list, rename_error) rust" where
  "rename_path file_infos paths = (\<lambda>(file_id, new_relative).
     if length file_infos \<le> file_id then Inl (Err (NoSuchFile file_id))
     else if new_relative = [] then Inl (Err (EmptyPath file_id))
     else if is_absolute new_relative then Inl (Err (PathNotRelative new_relative))
     else if \<not> list_all is_normal (components new_relative) then Inl (Err (PathNotPlain new_relative))
     else Inr (paths[file_id := new_relative]))"

definition see_path :: "path_buf list \<Rightarrow> path_buf \<Rightarrow> (path_buf list, rename_error) rust" where
  "see_path seen path =
     (if components path \<in> components ` set seen then Inl (Err (SamePath path)) else Inr (seen @ [path]))"

definition validate_renames :: "file_info list \<Rightarrow> (nat \<times> path_buf) list \<Rightarrow> (unit, rename_error) rust" where
  "validate_renames file_infos renames =
     (if renames = [] then Inl (Err NothingToRename)
      else rbind (rfold (rename_path file_infos) (map fi_relative_filename file_infos) renames) (\<lambda>paths.
        rbind (rfold see_path [] paths) (\<lambda>_. Inr ())))"

end
