(* ===== verification/File_Ops.thy ===== *)
theory File_Ops
  imports File_Info Double_Buf Peer_Protocol
begin

text \<open>
  \<^verbatim>\<open>crates/librtbit/src/file_ops.rs\<close>: reading and writing chunks that span files, and checking pieces against
  their hashes, over a storage. A storage (\<^verbatim>\<open>trait TorrentStorage\<close> of \<^verbatim>\<open>storage/mod.rs\<close>) is a record of its
  operations on a state \<open>'s\<close>; \<^verbatim>\<open>storage/filesystem/mmap.rs\<close> is one of them.
\<close>

section \<open>Storage\<close>

datatype file_error =
    NoSuchFile
  | BadRange
  | NotEnoughCapacity
  | EmptyFileList
  | BrokenMetadata
  | Cancelled
  | NoPieceHash

record 's torrent_storage =
  st_pread_exact :: "nat \<Rightarrow> u64 \<Rightarrow> nat \<Rightarrow> 's \<Rightarrow> (bytes, file_error) rust"
  st_pwrite_all_vectored :: "nat \<Rightarrow> u64 \<Rightarrow> bytes \<times> bytes \<Rightarrow> 's \<Rightarrow> (nat, file_error) rust \<times> 's"

text \<open>The default of \<^verbatim>\<open>pwrite_all_vectored\<close>: one \<^verbatim>\<open>pwrite_all\<close> per slice.\<close>

definition default_pwrite_all_vectored ::
  "(nat \<Rightarrow> u64 \<Rightarrow> bytes \<Rightarrow> 's \<Rightarrow> (unit, file_error) rust \<times> 's) \<Rightarrow>
   nat \<Rightarrow> u64 \<Rightarrow> bytes \<times> bytes \<Rightarrow> 's \<Rightarrow> (nat, file_error) rust \<times> 's" where
  "default_pwrite_all_vectored pwrite_all file_id offset bufs s =
     (case pwrite_all file_id offset (fst bufs) s of
        (Inl e, s) \<Rightarrow> (Inl e, s)
      | (Inr _, s) \<Rightarrow>
          (case pwrite_all file_id (offset + of_nat (length (fst bufs))) (snd bufs) s of
             (Inl e, s) \<Rightarrow> (Inl e, s)
           | (Inr _, s) \<Rightarrow> (Inr (length (fst bufs) + length (snd bufs)), s)))"

text \<open>The mapped files of \<^verbatim>\<open>MmapFilesystemStorage\<close>, one byte array for each file.\<close>

type_synonym opened_mmaps = "bytes list"

definition mmap_pread_exact :: "nat \<Rightarrow> u64 \<Rightarrow> nat \<Rightarrow> opened_mmaps \<Rightarrow> (bytes, file_error) rust" where
  "mmap_pread_exact file_id offset n s =
     (if file_id \<ge> length s then Inl (Err NoSuchFile)
      else let start = unat offset; stop = unat (offset + of_nat n)
      in if start \<le> stop \<and> stop \<le> length (s ! file_id)
         then (let slice = take (stop - start) (drop start (s ! file_id))
               in if length slice = n then Inr slice else Inl Panic)
         else Inl (Err BadRange))"

definition mmap_pwrite_all :: "nat \<Rightarrow> u64 \<Rightarrow> bytes \<Rightarrow> opened_mmaps \<Rightarrow> (unit, file_error) rust \<times> opened_mmaps" where
  "mmap_pwrite_all file_id offset buf s =
     (if file_id \<ge> length s then (Inl (Err NoSuchFile), s)
      else let m = s ! file_id; start = unat offset; stop = unat (offset + of_nat (length buf))
      in if start \<le> stop \<and> stop \<le> length m
         then if stop - start = length buf
              then (Inr (), s[file_id := take start m @ buf @ drop stop m])
              else (Inl Panic, s)
         else (Inl (Err BadRange), s))"

definition mmap_storage :: "opened_mmaps torrent_storage" where
  "mmap_storage = \<lparr> st_pread_exact = mmap_pread_exact,
     st_pwrite_all_vectored = default_pwrite_all_vectored mmap_pwrite_all \<rparr>"

section \<open>Chunks\<close>

record file_ops =
  fo_lengths :: lengths
  fo_pieces :: "bytes option"
  fo_file_infos :: "file_info list"

text \<open>
  The loop of \<^verbatim>\<open>read_chunk\<close> from the file with number \<open>idx\<close> on, for \<open>n\<close> bytes of the buffer. It returns what
  is read into the front of the buffer.
\<close>

fun read_files :: "'s torrent_storage \<Rightarrow> 's \<Rightarrow> nat \<Rightarrow> file_info list \<Rightarrow> u64 \<Rightarrow> nat \<Rightarrow> (bytes, file_error) rust" where
  "read_files S s idx [] absolute_offset n = Inr []"
| "read_files S s idx (fi # fis) absolute_offset n =
     (if absolute_offset > fi_len fi then read_files S s (Suc idx) fis (absolute_offset - fi_len fi) n
      else let file_remaining_len = fi_len fi - absolute_offset;
               to_read_in_file = min (unat file_remaining_len) n
           in rbind (if fa_padding (fi_attrs fi) then Inr (replicate to_read_in_file 0)
                     else st_pread_exact S idx absolute_offset to_read_in_file s) (\<lambda>bs.
                if n - to_read_in_file = 0 then Inr bs
                else rbind (read_files S s (Suc idx) fis 0 (n - to_read_in_file)) (\<lambda>rest. Inr (bs @ rest))))"

definition read_chunk :: "'s torrent_storage \<Rightarrow> file_ops \<Rightarrow> chunk_info \<Rightarrow> bytes \<Rightarrow> 's \<Rightarrow> (bytes, file_error) rust" where
  "read_chunk S fo chunk_info result_buf s =
     (if length result_buf < unat (ci_size chunk_info) then Inl (Err NotEnoughCapacity)
      else rbind (read_files S s 0 (fo_file_infos fo) (chunk_absolute_offset (fo_lengths fo) chunk_info) (length result_buf))
             (\<lambda>bs. Inr (bs @ drop (length bs) result_buf)))"

fun write_files :: "'s torrent_storage \<Rightarrow> nat \<Rightarrow> file_info list \<Rightarrow> u64 \<Rightarrow> double_buf \<Rightarrow> 's \<Rightarrow> (unit, file_error) rust \<times> 's" where
  "write_files S idx [] absolute_offset data s = (Inr (), s)"
| "write_files S idx (fi # fis) absolute_offset data s =
     (if absolute_offset > fi_len fi then write_files S (Suc idx) fis (absolute_offset - fi_len fi) data s
      else let remaining_len = fi_len fi - absolute_offset;
               to_write = min (db_len data) (unat remaining_len);
               slices = as_ioslices data to_write
           in case (if fa_padding (fi_attrs fi) then (Inr 0, s)
                    else st_pwrite_all_vectored S idx absolute_offset slices s) of
                (Inl e, s) \<Rightarrow> (Inl e, s)
              | (Inr _, s) \<Rightarrow>
                  let data = advance data to_write
                  in if db_is_empty data then (Inr (), s) else write_files S (Suc idx) fis 0 data s)"

definition write_chunk :: "'s torrent_storage \<Rightarrow> file_ops \<Rightarrow> piece \<Rightarrow> chunk_info \<Rightarrow> 's \<Rightarrow> (unit, file_error) rust \<times> 's" where
  "write_chunk S fo data chunk_info s =
     write_files S 0 (fo_file_infos fo) (chunk_absolute_offset (fo_lengths fo) chunk_info)
       (DoubleBufHelper_new (pc_block_0 data) (pc_block_1 data)) s"

section \<open>Checking pieces\<close>

text \<open>\<^verbatim>\<open>TorrentMetaV1Info::compare_hash\<close> of \<^verbatim>\<open>librtbit-core/src/torrent_metainfo.rs\<close>.\<close>

definition compare_hash :: "bytes option \<Rightarrow> u32 \<Rightarrow> bytes \<Rightarrow> bool option" where
  "compare_hash pieces piece hash =
     (case pieces of
        None \<Rightarrow> None
      | Some ps \<Rightarrow>
          let start = unat piece * 20; stop = start + 20
          in if stop \<le> length ps then Some (take 20 (drop start ps) = hash) else None)"

text \<open>
  The hasher is the list of the bytes it was given; \<open>sha1\<close> is its \<^verbatim>\<open>finish\<close>. The loop reads at most \<open>buf_len\<close>
  bytes at a time; with an empty buffer it would not end, which is why it runs on fuel.
\<close>

fun update_hash_from_file :: "nat \<Rightarrow> 's torrent_storage \<Rightarrow> 's \<Rightarrow> nat \<Rightarrow> file_info \<Rightarrow> u64 \<Rightarrow> bytes \<Rightarrow> nat \<Rightarrow> nat \<Rightarrow>
    (unit, file_error) rust \<times> bytes" where
  "update_hash_from_file fuel S s file_id fi pos hash buf_len bytes_to_read =
     (if bytes_to_read = 0 then (Inr (), hash)
      else case fuel of
        0 \<Rightarrow> (Inl Panic, hash)
      | Suc fuel \<Rightarrow>
          let chunk = min buf_len bytes_to_read
          in case (if fa_padding (fi_attrs fi) then Inr (replicate chunk 0) else st_pread_exact S file_id pos chunk s) of
               Inl e \<Rightarrow> (Inl e, hash)
             | Inr bs \<Rightarrow>
                 update_hash_from_file fuel S s file_id fi (pos + of_nat chunk) (hash @ bs) buf_len (bytes_to_read - chunk))"

declare update_hash_from_file.simps [simp del]

fun check_files :: "'s torrent_storage \<Rightarrow> 's \<Rightarrow> nat \<Rightarrow> nat \<Rightarrow> file_info list \<Rightarrow> u64 \<Rightarrow> nat \<Rightarrow> bytes \<Rightarrow> (bytes, file_error) rust" where
  "check_files S s buf_len idx [] absolute_offset n hash = Inr hash"
| "check_files S s buf_len idx (fi # fis) absolute_offset n hash =
     (if absolute_offset > fi_len fi then check_files S s buf_len (Suc idx) fis (absolute_offset - fi_len fi) n hash
      else let file_remaining_len = fi_len fi - absolute_offset;
               to_read_in_file = min (unat file_remaining_len) n
           in case update_hash_from_file to_read_in_file S s idx fi absolute_offset hash buf_len to_read_in_file of
                (Inl e, _) \<Rightarrow> Inl e
              | (Inr _, hash) \<Rightarrow>
                  if n - to_read_in_file = 0 then Inr hash
                  else check_files S s buf_len (Suc idx) fis 0 (n - to_read_in_file) hash)"

definition check_piece :: "(bytes \<Rightarrow> bytes) \<Rightarrow> 's torrent_storage \<Rightarrow> file_ops \<Rightarrow> valid_piece_index \<Rightarrow> 's \<Rightarrow> (bool, file_error) rust" where
  "check_piece sha1 S fo piece_index s =
     (let n = unat (piece_length (fo_lengths fo) piece_index);
          absolute_offset = piece_offset (fo_lengths fo) piece_index
      in rbind (check_files S s (min 65536 n) 0 (fo_file_infos fo) absolute_offset n []) (\<lambda>h.
           case compare_hash (fo_pieces fo) (vpi_get piece_index) (sha1 h) of
             Some b \<Rightarrow> Inr b | None \<Rightarrow> Inl (Err NoPieceHash)))"

section \<open>The initial check\<close>

record current_file =
  cf_index :: nat
  cf_fi :: file_info
  cf_processed_bytes :: u64
  cf_is_broken :: bool

definition remaining :: "current_file \<Rightarrow> u64" where
  "remaining cf = fi_len (cf_fi cf) - cf_processed_bytes cf"

definition mark_processed_bytes :: "u64 \<Rightarrow> current_file \<Rightarrow> current_file" where
  "mark_processed_bytes n cf = cf\<lparr> cf_processed_bytes := cf_processed_bytes cf + n \<rparr>"

definition file_iterator :: "file_info list \<Rightarrow> current_file list" where
  "file_iterator fis =
     map (\<lambda>(idx, fi). \<lparr> cf_index = idx, cf_fi = fi, cf_processed_bytes = 0, cf_is_broken = False \<rparr>) (enumerate 0 fis)"

text \<open>How much to read from which file, going on to the next file until there is something to read.\<close>

fun next_to_read :: "nat \<Rightarrow> current_file \<Rightarrow> current_file list \<Rightarrow> (nat \<times> current_file \<times> current_file list, file_error) rust" where
  "next_to_read piece_remaining cf its =
     (let to_read_in_file = min (unat (remaining cf)) piece_remaining
      in if to_read_in_file \<noteq> 0 then Inr (to_read_in_file, cf, its)
         else (case its of [] \<Rightarrow> Inl (Err BrokenMetadata) | cf' # its \<Rightarrow> next_to_read piece_remaining cf' its))"

declare next_to_read.simps [simp del]

lemma next_to_read_bounds: "next_to_read n cf its = Inr (k, cf', its') \<Longrightarrow> 0 < k \<and> k \<le> n"
proof (induction n cf its rule: next_to_read.induct)
  case (1 n cf its)
  show ?case
    using 1(2) 1(1) unfolding next_to_read.simps [of n cf its] by (auto simp: Let_def split: if_splits list.splits)
qed

function check_loop :: "'s torrent_storage \<Rightarrow> 's \<Rightarrow> nat \<Rightarrow> current_file \<Rightarrow> current_file list \<Rightarrow> bytes \<Rightarrow> bool \<Rightarrow>
    (bytes \<times> bool \<times> current_file \<times> current_file list, file_error) rust" where
  "check_loop S s piece_remaining cf its hash some_files_broken =
     (if piece_remaining = 0 then Inr (hash, some_files_broken, cf, its)
      else case next_to_read piece_remaining cf its of
        Inl e \<Rightarrow> Inl e
      | Inr (k, cf, its) \<Rightarrow>
          let pos = cf_processed_bytes cf; cf' = mark_processed_bytes (of_nat k) cf
          in if cf_is_broken cf' then check_loop S s (piece_remaining - k) cf' its hash some_files_broken
             else (case update_hash_from_file k S s (cf_index cf') (cf_fi cf') pos hash 65536 k of
                     (Inr _, hash) \<Rightarrow> check_loop S s (piece_remaining - k) cf' its hash some_files_broken
                   | (Inl Panic, hash) \<Rightarrow> Inl Panic
                   | (Inl (Err _), hash) \<Rightarrow>
                       check_loop S s (piece_remaining - k) (cf'\<lparr> cf_is_broken := True \<rparr>) its hash True))"
  by pat_completeness auto
termination
  by (relation "measure (\<lambda>(S, s, n, _). n)") (auto dest!: next_to_read_bounds)

declare check_loop.simps [simp del]

text \<open>
  One piece: \<open>cancelled\<close> tells whether the check is cancelled before it. The state holds the bit field, the
  current file with the files after it, and the progress counter.
\<close>

definition check_one_piece :: "(bytes \<Rightarrow> bytes) \<Rightarrow> (valid_piece_index \<Rightarrow> bool) \<Rightarrow> 's torrent_storage \<Rightarrow> file_ops \<Rightarrow> 's \<Rightarrow>
    bits \<times> current_file \<times> current_file list \<times> u64 \<Rightarrow> piece_info \<Rightarrow>
    (bits \<times> current_file \<times> current_file list \<times> u64, file_error) rust" where
  "check_one_piece sha1 cancelled S fo s = (\<lambda>(have_pieces, cf, its, progress) p.
     if cancelled (pi_piece_index p) then Inl (Err Cancelled)
     else rbind (check_loop S s (unat (pi_len p)) cf its [] False) (\<lambda>(hash, some_files_broken, cf, its).
       let progress = progress + ucast (pi_len p)
       in if some_files_broken then Inr (have_pieces, cf, its, progress)
          else (case compare_hash (fo_pieces fo) (vpi_get (pi_piece_index p)) (sha1 hash) of
                  None \<Rightarrow> Inl (Err NoPieceHash)
                | Some True \<Rightarrow>
                    rbind (set_bit_checked have_pieces (unat (vpi_get (pi_piece_index p))) True)
                      (\<lambda>bs. Inr (bs, cf, its, progress))
                | Some False \<Rightarrow> Inr (have_pieces, cf, its, progress))))"

definition initial_check :: "(bytes \<Rightarrow> bytes) \<Rightarrow> (valid_piece_index \<Rightarrow> bool) \<Rightarrow> 's torrent_storage \<Rightarrow> file_ops \<Rightarrow> u64 \<Rightarrow> 's \<Rightarrow>
    (bits \<times> u64, file_error) rust" where
  "initial_check sha1 cancelled S fo progress s =
     (case file_iterator (fo_file_infos fo) of
        [] \<Rightarrow> Inl (Err EmptyFileList)
      | cf # its \<Rightarrow>
          rbind (rfold (check_one_piece sha1 cancelled S fo s)
                   (replicate (8 * piece_bitfield_bytes (fo_lengths fo)) False, cf, its, progress)
                   (iter_piece_infos (fo_lengths fo)))
            (\<lambda>(have_pieces, _, _, progress). Inr (have_pieces, progress)))"

end
