(* ===== verification/File_Ops_Correct.thy ===== *)
theory File_Ops_Correct
  imports File_Ops Lengths_Correct
begin

text \<open>
  A torrent is the concatenation of its files, with zeros for the padding files. Over every storage that
  keeps its contract, chunks are read from and written to that sequence of bytes, and pieces are hashed
  from it.
\<close>

section \<open>The bytes of a torrent\<close>

definition file_bytes :: "(nat \<Rightarrow> bytes) \<Rightarrow> nat \<Rightarrow> file_info \<Rightarrow> bytes" where
  "file_bytes c i fi = (if fa_padding (fi_attrs fi) then replicate (unat (fi_len fi)) 0 else c i)"

fun torrent_bytes :: "(nat \<Rightarrow> bytes) \<Rightarrow> nat \<Rightarrow> file_info list \<Rightarrow> bytes" where
  "torrent_bytes c i [] = []"
| "torrent_bytes c i (fi # fis) = file_bytes c i fi @ torrent_bytes c (Suc i) fis"

definition padding_mask :: "file_info list \<Rightarrow> bool list" where
  "padding_mask fis = concat (map (\<lambda>fi. replicate (unat (fi_len fi)) (fa_padding (fi_attrs fi))) fis)"

definition total_bytes :: "file_info list \<Rightarrow> nat" where
  "total_bytes fis = sum_list (map (\<lambda>fi. unat (fi_len fi)) fis)"

text \<open>What writing \<open>d\<close> at \<open>a\<close> makes of the bytes \<open>c\<close>; padding is not written.\<close>

definition overlaid :: "bool list \<Rightarrow> nat \<Rightarrow> bytes \<Rightarrow> bytes \<Rightarrow> bytes \<Rightarrow> bool" where
  "overlaid m a d c c' \<longleftrightarrow> length c' = length c
     \<and> (\<forall>q < length c. c' ! q = (if a \<le> q \<and> q < a + length d \<and> \<not> m ! q then d ! (q - a) else c ! q))"

lemma torrent_bytes_cong: "(\<And>j. i \<le> j \<Longrightarrow> c j = c' j) \<Longrightarrow> torrent_bytes c i fis = torrent_bytes c' i fis"
  by (induction fis arbitrary: i) (simp_all add: file_bytes_def)

lemma torrent_bytes_length:
  "(\<And>j. j < length fis \<Longrightarrow> length (c (i + j)) = unat (fi_len (fis ! j))) \<Longrightarrow> length (torrent_bytes c i fis) = total_bytes fis"
proof (induction fis arbitrary: i)
  case (Cons fi fis)
  have "length (c (Suc i + j)) = unat (fi_len (fis ! j))" if "j < length fis" for j
    using Cons.prems [of "Suc j"] that by simp
  moreover have "length (c i) = unat (fi_len fi)" using Cons.prems [of 0] by simp
  ultimately show ?case using Cons.IH [of "Suc i"] by (simp add: file_bytes_def total_bytes_def)
qed (simp add: total_bytes_def)

lemma overlaid_append:
  assumes "overlaid m1 a (take k d) c1 c1'" and "overlaid m2 0 (drop k d) c2 c2'"
    and "length m1 = length c1" and "a + k = length c1 \<or> drop k d = [] \<and> a + length d \<le> length c1" and "a \<le> length c1"
  shows "overlaid (m1 @ m2) a d (c1 @ c2) (c1' @ c2')"
  using assms by (auto simp: overlaid_def nth_append intro!: arg_cong [of _ _ "nth d"])

lemma overlaid_skip:
  assumes "overlaid m2 (a - length c1) d c2 c2'" and "length m1 = length c1" and "length c1 \<le> a"
  shows "overlaid (m1 @ m2) a d (c1 @ c2) (c1 @ c2')"
  using assms by (auto simp: overlaid_def nth_append)

lemma overlaid_refl: "overlaid m a [] c c"
  by (auto simp: overlaid_def)

lemma ioslices_view: "as_ioslices d k = (d0, d1) \<Longrightarrow> d0 @ d1 = take k (db_view d)"
  by (cases "k \<le> length (buf_0 d)") (auto simp: as_ioslices_def db_view_def Let_def min_def)

section \<open>The contract of a storage\<close>

locale storage_laws =
  fixes S :: "'s torrent_storage"
    and ok :: "file_info list \<Rightarrow> 's \<Rightarrow> bool"
    and contents :: "'s \<Rightarrow> nat \<Rightarrow> bytes"
  assumes len: "ok fis s \<Longrightarrow> i < length fis \<Longrightarrow> length (contents s i) = unat (fi_len (fis ! i))"
    and pread: "ok fis s \<Longrightarrow> i < length fis \<Longrightarrow> \<not> fa_padding (fi_attrs (fis ! i)) \<Longrightarrow>
      unat a + n \<le> unat (fi_len (fis ! i)) \<Longrightarrow>
      st_pread_exact S i a n s = Inr (take n (drop (unat a) (contents s i)))"
    and pwrite: "ok fis s \<Longrightarrow> i < length fis \<Longrightarrow> \<not> fa_padding (fi_attrs (fis ! i)) \<Longrightarrow>
      unat a + length d0 + length d1 \<le> unat (fi_len (fis ! i)) \<Longrightarrow>
      \<exists>s'. st_pwrite_all_vectored S i a (d0, d1) s = (Inr (length d0 + length d1), s') \<and> ok fis s'
        \<and> (\<forall>j. j \<noteq> i \<longrightarrow> contents s' j = contents s j)
        \<and> contents s' i = take (unat a) (contents s i) @ d0 @ d1 @ drop (unat a + length d0 + length d1) (contents s i)"
begin

lemma suffix_len:
  assumes "ok FS s" and "fi # fis = drop idx FS"
  shows "idx < length FS" "FS ! idx = fi" "fis = drop (Suc idx) FS" "length (contents s idx) = unat (fi_len fi)"
proof -
  show 1: "idx < length FS" using assms(2) by (metis drop_all list.distinct(1) not_le)
  show 2: "FS ! idx = fi" "fis = drop (Suc idx) FS" using assms(2) 1 by (simp_all add: Cons_nth_drop_Suc [symmetric])
  show "length (contents s idx) = unat (fi_len fi)" using len [OF assms(1) 1] 2 by simp
qed

lemma suffix_bytes_length:
  assumes "ok FS s" shows "length (torrent_bytes (contents s) idx (drop idx FS)) = total_bytes (drop idx FS)"
proof (rule torrent_bytes_length)
  fix j assume "j < length (drop idx FS)"
  then show "length (contents s (idx + j)) = unat (fi_len (drop idx FS ! j))" using len [OF assms, of "idx + j"] by simp
qed

lemma read_files_ok:
  assumes "ok FS s" and "fis = drop idx FS" and "unat a + n \<le> length (torrent_bytes (contents s) idx fis)"
  shows "read_files S s idx fis a n = Inr (take n (drop (unat a) (torrent_bytes (contents s) idx fis)))"
  using assms(2,3)
proof (induction fis arbitrary: idx a n)
  case (Cons fi fis)
  note F = suffix_len [OF assms(1) Cons.prems(1)]
  let ?L = "unat (fi_len fi)" and ?A = "file_bytes (contents s) idx fi" and ?C = "torrent_bytes (contents s) (Suc idx) fis"
  have A: "length ?A = ?L" using F by (simp add: file_bytes_def)
  show ?case
  proof (cases "a > fi_len fi")
    case True
    have u: "unat (a - fi_len fi) = unat a - ?L" using True by (simp add: unat_sub less_imp_le)
    have "?L < unat a" using True by (simp add: word_less_nat_alt)
    then show ?thesis using Cons.IH [OF F(3), of "a - fi_len fi" n] Cons.prems(2) True u A by (simp add: drop_append)
  next
    case False
    have le: "unat a \<le> ?L" using False by (simp add: word_le_nat_alt not_less)
    have rem: "unat (fi_len fi - a) = ?L - unat a" using False by (simp add: unat_sub not_less)
    let ?k = "min (?L - unat a) n"
    have rd: "(if fa_padding (fi_attrs fi) then Inr (replicate ?k 0) else st_pread_exact S idx a ?k s) = Inr (take ?k (drop (unat a) ?A))"
      using pread [OF assms(1) F(1), of a ?k] F(2) le by (auto simp: file_bytes_def)
    have step: "read_files S s idx (fi # fis) a n = rbind (Inr (take ?k (drop (unat a) ?A))) (\<lambda>bs.
        if n - ?k = 0 then Inr bs else rbind (read_files S s (Suc idx) fis 0 (n - ?k)) (\<lambda>rest. Inr (bs @ rest)))"
      using False by (simp only: read_files.simps Let_def rem rd if_False)
    show ?thesis
    proof (cases "n \<le> ?L - unat a")
      case True
      then show ?thesis unfolding step using A le by simp
    next
      case more: False
      have "n - (?L - unat a) \<le> length ?C" using Cons.prems(2) A more by simp
      then have "read_files S s (Suc idx) fis 0 (n - (?L - unat a)) = Inr (take (n - (?L - unat a)) ?C)"
        using Cons.IH [OF F(3), of 0 "n - (?L - unat a)"] by simp
      then show ?thesis unfolding step using A le more by simp
    qed
  qed
qed simp

lemma write_one_file:
  assumes "ok FS s" and "fi # fis = drop idx FS" and "unat a + length (d0 @ d1) \<le> unat (fi_len fi)"
  shows "\<exists>r s'. (if fa_padding (fi_attrs fi) then (Inr 0, s) else st_pwrite_all_vectored S idx a (d0, d1) s) = (Inr r, s')
    \<and> ok FS s' \<and> (\<forall>j. j \<noteq> idx \<longrightarrow> contents s' j = contents s j)
    \<and> overlaid (replicate (unat (fi_len fi)) (fa_padding (fi_attrs fi))) (unat a) (d0 @ d1)
        (file_bytes (contents s) idx fi) (file_bytes (contents s') idx fi)"
proof (cases "fa_padding (fi_attrs fi)")
  case True
  then show ?thesis using assms(1) by (simp add: overlaid_def file_bytes_def)
next
  case False
  note F = suffix_len [OF assms(1,2)]
  have fit: "unat a + length d0 + length d1 \<le> unat (fi_len (FS ! idx))" using assms(3) F(2) by simp
  obtain s' where w: "st_pwrite_all_vectored S idx a (d0, d1) s = (Inr (length d0 + length d1), s')" "ok FS s'"
      "\<forall>j. j \<noteq> idx \<longrightarrow> contents s' j = contents s j"
      "contents s' idx = take (unat a) (contents s idx) @ d0 @ d1 @ drop (unat a + length d0 + length d1) (contents s idx)"
    using pwrite [OF assms(1) F(1) _ fit] False F(2) by auto
  have "overlaid (replicate (unat (fi_len fi)) False) (unat a) (d0 @ d1) (contents s idx) (contents s' idx)"
    using assms(3) F(4) unfolding w(4) overlaid_def by (auto simp: nth_append)
  then show ?thesis using w False by (simp add: file_bytes_def)
qed

lemma write_files_ok:
  assumes "ok FS s" and "fis = drop idx FS" and "unat a + length (db_view d) \<le> length (torrent_bytes (contents s) idx fis)"
  shows "\<exists>s'. write_files S idx fis a d s = (Inr (), s') \<and> ok FS s' \<and> (\<forall>j < idx. contents s' j = contents s j)
    \<and> overlaid (padding_mask fis) (unat a) (db_view d) (torrent_bytes (contents s) idx fis) (torrent_bytes (contents s') idx fis)"
  using assms
proof (induction fis arbitrary: idx a d s)
  case (Cons fi fis)
  note F = suffix_len [OF Cons.prems(1,2)]
  let ?L = "unat (fi_len fi)" and ?A = "file_bytes (contents s) idx fi" and ?C = "torrent_bytes (contents s) (Suc idx) fis"
  let ?m = "replicate ?L (fa_padding (fi_attrs fi))"
  have A: "length ?A = ?L" using F by (simp add: file_bytes_def)
  have mask: "padding_mask (fi # fis) = ?m @ padding_mask fis" by (simp add: padding_mask_def)
  show ?case
  proof (cases "a > fi_len fi")
    case True
    have u: "unat (a - fi_len fi) = unat a - ?L" "?L \<le> unat a"
      using True by (simp_all add: unat_sub less_imp_le word_less_nat_alt)
    obtain s' where w: "write_files S (Suc idx) fis (a - fi_len fi) d s = (Inr (), s')" "ok FS s'"
        "\<forall>j < Suc idx. contents s' j = contents s j"
        "overlaid (padding_mask fis) (unat a - ?L) (db_view d) ?C (torrent_bytes (contents s') (Suc idx) fis)"
    proof -
      have "unat (a - fi_len fi) + length (db_view d) \<le> length ?C" using Cons.prems(3) u A by simp
      from Cons.IH [OF Cons.prems(1) F(3) this] show ?thesis using that unfolding u(1) by blast
    qed
    have "file_bytes (contents s') idx fi = ?A" using w(3) by (simp add: file_bytes_def)
    then show ?thesis
      using w True u overlaid_skip [of "padding_mask fis" "unat a" ?A "db_view d" ?C _ ?m] A by (simp add: mask)
  next
    case False
    have le: "unat a \<le> ?L" using False by (simp add: word_le_nat_alt not_less)
    have rem: "unat (fi_len fi - a) = ?L - unat a" using False by (simp add: unat_sub not_less)
    let ?k = "min (length (db_view d)) (?L - unat a)"
    obtain d0 d1 where sl: "as_ioslices d ?k = (d0, d1)" by (rule prod.exhaust)
    have sl': "d0 @ d1 = take ?k (db_view d)"
      by (rule ioslices_view [OF sl])
    have "unat a + length (d0 @ d1) \<le> ?L" using le unfolding sl' by simp
    from write_one_file [OF Cons.prems(1,2) this] obtain r s1 where
      1: "(if fa_padding (fi_attrs fi) then (Inr 0, s) else st_pwrite_all_vectored S idx a (d0, d1) s) = (Inr r, s1)"
        "ok FS s1" "\<forall>j. j \<noteq> idx \<longrightarrow> contents s1 j = contents s j"
        "overlaid ?m (unat a) (take ?k (db_view d)) ?A (file_bytes (contents s1) idx fi)"
      unfolding sl' by blast
    have C1: "torrent_bytes (contents s1) (Suc idx) fis = ?C" using 1(3) by (intro torrent_bytes_cong) simp
    have step: "write_files S idx (fi # fis) a d s =
        (if drop ?k (db_view d) = [] then (Inr (), s1) else write_files S (Suc idx) fis 0 (advance d ?k) s1)"
      using False by (simp only: write_files.simps Let_def rem db_len_view sl 1(1) if_False prod.case sum.case db_is_empty_view advance_view)
    show ?thesis
    proof (cases "drop ?k (db_view d) = []")
      case True
      have "overlaid (?m @ padding_mask fis) (unat a) (db_view d) (?A @ ?C) (file_bytes (contents s1) idx fi @ ?C)"
        using True le A 1(4) by (intro overlaid_append [of _ _ ?k]) (auto simp: overlaid_refl)
      then show ?thesis unfolding step using True 1 C1 mask by auto
    next
      case more: False
      then have k: "?k = ?L - unat a" by auto
      have fit: "unat (0 :: u64) + length (db_view (advance d ?k)) \<le> length (torrent_bytes (contents s1) (Suc idx) fis)"
        using Cons.prems(3) A le more C1 by simp
      obtain s' where w: "write_files S (Suc idx) fis 0 (advance d ?k) s1 = (Inr (), s')" "ok FS s'"
          "\<forall>j < Suc idx. contents s' j = contents s1 j"
          "overlaid (padding_mask fis) 0 (drop ?k (db_view d)) ?C (torrent_bytes (contents s') (Suc idx) fis)"
        using Cons.IH [OF 1(2) F(3) fit] C1 by auto
      have same: "file_bytes (contents s') idx fi = file_bytes (contents s1) idx fi" using w(3) by (simp add: file_bytes_def)
      have "overlaid (?m @ padding_mask fis) (unat a) (db_view d) (?A @ ?C)
          (file_bytes (contents s1) idx fi @ torrent_bytes (contents s') (Suc idx) fis)"
        by (rule overlaid_append [OF 1(4) w(4)]) (use A le k in auto)
      moreover have "contents s' j = contents s j" if "j < idx" for j using w(3) 1(3) that by simp
      ultimately show ?thesis unfolding step using more w(1,2) same mask by auto
    qed
  qed
qed (auto simp: overlaid_def padding_mask_def)

lemma update_hash_ok:
  assumes "ok FS s" and "idx < length FS" and "FS ! idx = fi" and "0 < buf_len"
    and "n \<le> fuel" and "unat pos + n \<le> unat (fi_len fi)"
  shows "update_hash_from_file fuel S s idx fi pos h buf_len n =
    (Inr (), h @ take n (drop (unat pos) (file_bytes (contents s) idx fi)))"
  using assms(5,6)
proof (induction fuel arbitrary: pos h n)
  case 0
  then show ?case by (simp add: update_hash_from_file.simps)
next
  case (Suc fuel)
  show ?case
  proof (cases "n = 0")
    case False
    let ?k = "min buf_len n" and ?A = "file_bytes (contents s) idx fi"
    have L: "length ?A = unat (fi_len fi)" using len [OF assms(1,2)] assms(3) by (simp add: file_bytes_def)
    have fit: "unat pos + ?k \<le> unat (fi_len fi)" using Suc.prems(2) by simp
    have rd: "(if fa_padding (fi_attrs fi) then Inr (replicate ?k 0) else st_pread_exact S idx pos ?k s) = Inr (take ?k (drop (unat pos) ?A))"
      using pread [OF assms(1,2), of pos ?k] assms(3) fit by (auto simp: file_bytes_def)
    have pos: "unat (pos + of_nat ?k) = unat pos + ?k"
      using fit unat_bound64 [of "fi_len fi"] by (simp add: unat_word_ariths(1) unat_of_nat)
    have "update_hash_from_file fuel S s idx fi (pos + of_nat ?k) (h @ take ?k (drop (unat pos) ?A)) buf_len (n - ?k) =
        (Inr (), (h @ take ?k (drop (unat pos) ?A)) @ take (n - ?k) (drop (unat pos + ?k) ?A))"
      using Suc.IH [of "n - ?k" "pos + of_nat ?k"] Suc.prems False assms(4) pos by simp
    also have "(h @ take ?k (drop (unat pos) ?A)) @ take (n - ?k) (drop (unat pos + ?k) ?A) = h @ take n (drop (unat pos) ?A)"
      using take_add [of ?k "n - ?k" "drop (unat pos) ?A"] by (simp add: add.commute)
    finally show ?thesis
      using False by (subst update_hash_from_file.simps) (simp only: nat.case Let_def rd sum.case if_False)
  qed (simp add: update_hash_from_file.simps)
qed

lemma check_files_ok:
  assumes "ok FS s" and "fis = drop idx FS" and "unat a + n \<le> length (torrent_bytes (contents s) idx fis)" and "0 < buf_len"
  shows "check_files S s buf_len idx fis a n h = Inr (h @ take n (drop (unat a) (torrent_bytes (contents s) idx fis)))"
  using assms(2,3)
proof (induction fis arbitrary: idx a n h)
  case (Cons fi fis)
  note F = suffix_len [OF assms(1) Cons.prems(1)]
  let ?L = "unat (fi_len fi)" and ?A = "file_bytes (contents s) idx fi" and ?C = "torrent_bytes (contents s) (Suc idx) fis"
  have A: "length ?A = ?L" using F by (simp add: file_bytes_def)
  show ?case
  proof (cases "a > fi_len fi")
    case True
    have u: "unat (a - fi_len fi) = unat a - ?L" using True by (simp add: unat_sub less_imp_le)
    have "?L < unat a" using True by (simp add: word_less_nat_alt)
    then show ?thesis using Cons.IH [OF F(3), of "a - fi_len fi" n] Cons.prems(2) True u A by (simp add: drop_append)
  next
    case False
    have le: "unat a \<le> ?L" using False by (simp add: word_le_nat_alt not_less)
    have rem: "unat (fi_len fi - a) = ?L - unat a" using False by (simp add: unat_sub not_less)
    let ?k = "min (?L - unat a) n"
    have rd: "update_hash_from_file ?k S s idx fi a h buf_len ?k = (Inr (), h @ take ?k (drop (unat a) ?A))"
      using le by (intro update_hash_ok [OF assms(1) F(1,2) assms(4)]) auto
    have step: "check_files S s buf_len idx (fi # fis) a n h = (if n - ?k = 0 then Inr (h @ take ?k (drop (unat a) ?A))
        else check_files S s buf_len (Suc idx) fis 0 (n - ?k) (h @ take ?k (drop (unat a) ?A)))"
      using False by (simp only: check_files.simps Let_def rem rd if_False prod.case sum.case)
    show ?thesis
    proof (cases "n \<le> ?L - unat a")
      case True
      then show ?thesis unfolding step using A le by simp
    next
      case more: False
      have "n - (?L - unat a) \<le> length ?C" using Cons.prems(2) A more by simp
      then show ?thesis unfolding step using A le more Cons.IH [OF F(3), of 0 "n - (?L - unat a)"] by simp
    qed
  qed
qed simp

end

section \<open>The initial check\<close>

definition current_files :: "nat \<Rightarrow> file_info list \<Rightarrow> current_file list" where
  "current_files i fis =
     map (\<lambda>(idx, fi). \<lparr> cf_index = idx, cf_fi = fi, cf_processed_bytes = 0, cf_is_broken = False \<rparr>) (enumerate i fis)"

definition iterating :: "file_info list \<Rightarrow> current_file \<Rightarrow> current_file list \<Rightarrow> bool" where
  "iterating FS cf its \<longleftrightarrow> cf_index cf < length FS \<and> cf_fi cf = FS ! cf_index cf \<and> \<not> cf_is_broken cf
     \<and> unat (cf_processed_bytes cf) \<le> unat (fi_len (cf_fi cf))
     \<and> its = current_files (Suc (cf_index cf)) (drop (Suc (cf_index cf)) FS)"

definition pending :: "(nat \<Rightarrow> bytes) \<Rightarrow> file_info list \<Rightarrow> current_file \<Rightarrow> bytes" where
  "pending c FS cf = drop (unat (cf_processed_bytes cf)) (file_bytes c (cf_index cf) (cf_fi cf))
     @ torrent_bytes c (Suc (cf_index cf)) (drop (Suc (cf_index cf)) FS)"

lemma current_files_drop:
  "current_files i (drop i FS) =
     (if i < length FS then \<lparr> cf_index = i, cf_fi = FS ! i, cf_processed_bytes = 0, cf_is_broken = False \<rparr>
        # current_files (Suc i) (drop (Suc i) FS) else [])"
  by (auto simp: current_files_def Cons_nth_drop_Suc [symmetric])

context storage_laws
begin

lemma remaining_nat:
  assumes "iterating FS cf its"
  shows "unat (remaining cf) = unat (fi_len (cf_fi cf)) - unat (cf_processed_bytes cf)"
proof -
  have "cf_processed_bytes cf \<le> fi_len (cf_fi cf)" using assms unfolding iterating_def word_le_nat_alt by blast
  then show ?thesis by (simp add: remaining_def unat_sub)
qed

lemma next_to_read_ok:
  assumes "ok FS s" and "iterating FS cf its" and "0 < n" and "n \<le> length (pending (contents s) FS cf)"
  shows "\<exists>cf' its'. next_to_read n cf its = Inr (min (unat (remaining cf')) n, cf', its') \<and> iterating FS cf' its'
    \<and> pending (contents s) FS cf' = pending (contents s) FS cf \<and> 0 < unat (remaining cf')"
  using assms(2,4)
proof (induction its arbitrary: cf)
  case Nil
  note R = remaining_nat [OF Nil.prems(1)]
  have "drop (Suc (cf_index cf)) FS = []" 
    using Nil.prems(1) current_files_drop [of "Suc (cf_index cf)" FS] by (auto simp: iterating_def split: if_splits)
  then have "0 < unat (remaining cf)"
    using Nil.prems assms(3) len [OF assms(1)] R by (auto simp: pending_def iterating_def file_bytes_def split: if_splits)
  then show ?case using Nil.prems(1) assms(3) by (subst next_to_read.simps) (auto simp: Let_def)
next
  case (Cons cf2 its)
  note R = remaining_nat [OF Cons.prems(1)]
  let ?j = "Suc (cf_index cf)"
  show ?case
  proof (cases "0 < unat (remaining cf)")
    case True
    then show ?thesis using Cons.prems(1) assms(3) by (subst next_to_read.simps) (auto simp: Let_def)
  next
    case False
    have its: "cf2 # its = current_files ?j (drop ?j FS)" using Cons.prems(1) by (simp add: iterating_def)
    then have j: "?j < length FS" by (metis current_files_drop list.distinct(1))
    then have cf2: "cf2 = \<lparr> cf_index = ?j, cf_fi = FS ! ?j, cf_processed_bytes = 0, cf_is_broken = False \<rparr>"
        "its = current_files (Suc ?j) (drop (Suc ?j) FS)"
      using its current_files_drop [of ?j FS] by simp_all
    have L: "length (file_bytes (contents s) (cf_index cf) (cf_fi cf)) = unat (fi_len (cf_fi cf))"
      using Cons.prems(1) len [OF assms(1), of "cf_index cf"] by (simp add: iterating_def file_bytes_def)
    have "pending (contents s) FS cf = torrent_bytes (contents s) ?j (drop ?j FS)"
      using False R L by (simp add: pending_def)
    then have P: "pending (contents s) FS cf2 = pending (contents s) FS cf"
      using j unfolding cf2(1) by (simp add: pending_def Cons_nth_drop_Suc [symmetric])
    have I: "iterating FS cf2 its" unfolding iterating_def using cf2 j by simp
    have "next_to_read n cf (cf2 # its) = next_to_read n cf2 its"
      using False by (subst next_to_read.simps) (simp add: Let_def)
    then show ?thesis using Cons.IH [OF I] Cons.prems(2) P by auto
  qed
qed

lemma check_loop_ok:
  assumes "ok FS s" and "iterating FS cf its" and "n \<le> length (pending (contents s) FS cf)"
  shows "\<exists>cf' its'. check_loop S s n cf its h b = Inr (h @ take n (pending (contents s) FS cf), b, cf', its')
    \<and> iterating FS cf' its' \<and> pending (contents s) FS cf' = drop n (pending (contents s) FS cf)"
  using assms(2,3)
proof (induction n arbitrary: cf its h rule: less_induct)
  case (less n)
  show ?case
  proof (cases "n = 0")
    case True
    then show ?thesis using less.prems by (simp add: check_loop.simps)
  next
    case False
    then obtain cf1 its1 where 1: "next_to_read n cf its = Inr (min (unat (remaining cf1)) n, cf1, its1)" "iterating FS cf1 its1"
        "pending (contents s) FS cf1 = pending (contents s) FS cf" "0 < unat (remaining cf1)"
      using next_to_read_ok [OF assms(1) less.prems(1) _ less.prems(2)] by auto
    note R = remaining_nat [OF 1(2)] and I = 1(2) [unfolded iterating_def]
    let ?k = "min (unat (remaining cf1)) n" and ?A = "file_bytes (contents s) (cf_index cf1) (cf_fi cf1)"
    let ?cf = "mark_processed_bytes (of_nat ?k) cf1" and ?p = "unat (cf_processed_bytes cf1)"
    have fit: "?p + ?k \<le> unat (fi_len (cf_fi cf1))" using R I by linarith
    have p: "unat (cf_processed_bytes ?cf) = ?p + ?k"
      using fit unat_bound64 [of "fi_len (cf_fi cf1)"] by (simp add: mark_processed_bytes_def unat_word_ariths(1) unat_of_nat)
    have I': "iterating FS ?cf its1" unfolding iterating_def using I p fit by (simp add: mark_processed_bytes_def)
    have L: "length ?A = unat (fi_len (cf_fi cf1))" using len [OF assms(1), of "cf_index cf1"] I by (simp add: file_bytes_def)
    have P: "pending (contents s) FS ?cf = drop ?k (pending (contents s) FS cf)"
      using p fit L 1(3) [symmetric] by (simp add: pending_def mark_processed_bytes_def add.commute)
    have h: "update_hash_from_file ?k S s (cf_index ?cf) (cf_fi ?cf) (cf_processed_bytes cf1) h 65536 ?k
        = (Inr (), h @ take ?k (pending (contents s) FS cf))"
      using update_hash_ok [OF assms(1), of "cf_index cf1" "cf_fi cf1" 65536 ?k ?k "cf_processed_bytes cf1" h] I fit L 1(3) [symmetric]
      by (simp add: pending_def mark_processed_bytes_def)
    have step: "check_loop S s n cf its h b = check_loop S s (n - ?k) ?cf its1 (h @ take ?k (pending (contents s) FS cf)) b"
    proof -
      have nb: "cf_is_broken ?cf = False" using I' unfolding iterating_def by blast
      show ?thesis using False by (subst check_loop.simps) (simp only: 1(1) h nb Let_def if_False sum.case prod.case)
    qed
    have "n - ?k \<le> length (pending (contents s) FS ?cf)" using less.prems(2) P by simp
    from less.IH [OF _ I' this, of "h @ take ?k (pending (contents s) FS cf)"] False 1(4)
    obtain cf' its' where 2: "check_loop S s n cf its h b =
          Inr ((h @ take ?k (pending (contents s) FS cf)) @ take (n - ?k) (pending (contents s) FS ?cf), b, cf', its')"
        "iterating FS cf' its'" "pending (contents s) FS cf' = drop (n - ?k) (pending (contents s) FS ?cf)"
      unfolding step by auto
    have "take ?k q @ take (n - ?k) (drop ?k q) = take n q" "drop (n - ?k) (drop ?k q) = drop n q" for q :: bytes
      using take_add [of ?k "n - ?k" q] by simp_all
    then show ?thesis using 2 unfolding P append_assoc by metis
  qed
qed

end

end
