(* ===== verification/File_Ops_Props.thy ===== *)
theory File_Ops_Props
  imports File_Ops_Correct Chunk_Tracker_Correct
begin

text \<open>
  What \<open>read_chunk\<close>, \<open>write_chunk\<close>, \<open>check_piece\<close> and \<open>initial_check\<close> do for a torrent whose files add up to its
  length: first over any storage that keeps its contract, then over the memory-mapped files.
\<close>

definition file_ops_ok :: "file_ops \<Rightarrow> bool" where
  "file_ops_ok fo \<longleftrightarrow> wf_lengths (fo_lengths fo) \<and> total_bytes (fo_file_infos fo) = unat (ln_total_length (fo_lengths fo))"

text \<open>The chunks of a torrent, and what is stored of a block: nothing in padding files.\<close>

definition is_chunk :: "lengths \<Rightarrow> chunk_info \<Rightarrow> bool" where
  "is_chunk l ci \<longleftrightarrow> valid_index l (ci_piece_index ci) \<and> ci \<in> set (iter_chunk_infos l (ci_piece_index ci))"

abbreviation chunk_start :: "lengths \<Rightarrow> chunk_info \<Rightarrow> nat" where
  "chunk_start l ci \<equiv> unat (chunk_absolute_offset l ci)"

definition stored_block :: "file_ops \<Rightarrow> chunk_info \<Rightarrow> piece \<Rightarrow> bytes" where
  "stored_block fo ci p =
     map (\<lambda>k. if padding_mask (fo_file_infos fo) ! (chunk_start (fo_lengths fo) ci + k) then 0 else (pc_block_0 p @ pc_block_1 p) ! k)
       [0..<unat (ci_size ci)]"

section \<open>Where chunks lie\<close>

lemma chunk_shape:
  assumes wf: "wf_lengths l" and "is_chunk l ci"
  obtains c where "c < piece_chunks l (unat (vpi_get (ci_piece_index ci)))" "ci = chunk_at l (ci_piece_index ci) c"
    "chunk_start l ci = unat (vpi_get (ci_piece_index ci)) * unat (ln_piece_length l) + c * 16384"
    "unat (ci_size ci) = min 16384 (piece_bytes l (unat (vpi_get (ci_piece_index ci))) - c * 16384)"
    "c * 16384 < piece_bytes l (unat (vpi_get (ci_piece_index ci)))"
proof -
  have i: "valid_index l (ci_piece_index ci)" using assms(2) by (simp add: is_chunk_def)
  obtain c where c: "c < piece_chunks l (unat (vpi_get (ci_piece_index ci)))" "ci = chunk_at l (ci_piece_index ci) c"
    using assms(2) by (auto simp: is_chunk_def iter_chunk_infos_closed [OF wf i])
  show thesis
    using that [OF c] chunk_at_absolute [OF wf i c(1)] chunk_at_nat [OF wf i c(1)] c(2) by simp
qed

lemma chunk_fits:
  assumes wf: "wf_lengths l" and "is_chunk l ci"
  shows "chunk_start l ci + unat (ci_size ci) \<le> unat (ln_total_length l)"
proof -
  obtain c where c: "chunk_start l ci = unat (vpi_get (ci_piece_index ci)) * unat (ln_piece_length l) + c * 16384"
    "unat (ci_size ci) = min 16384 (piece_bytes l (unat (vpi_get (ci_piece_index ci))) - c * 16384)"
    "c * 16384 < piece_bytes l (unat (vpi_get (ci_piece_index ci)))"
    using chunk_shape [OF assms] .
  then show ?thesis by (auto simp: piece_bytes_def)
qed

lemma chunks_disjoint:
  assumes wf: "wf_lengths l" and "is_chunk l ci" and "is_chunk l cj" and "ci \<noteq> cj"
  shows "chunk_start l ci + unat (ci_size ci) \<le> chunk_start l cj \<or> chunk_start l cj + unat (ci_size cj) \<le> chunk_start l ci"
proof -
  let ?i = "unat (vpi_get (ci_piece_index ci))" and ?j = "unat (vpi_get (ci_piece_index cj))" and ?P = "unat (ln_piece_length l)"
  obtain c where c: "ci = chunk_at l (ci_piece_index ci) c" "chunk_start l ci = ?i * ?P + c * 16384"
      "unat (ci_size ci) = min 16384 (piece_bytes l ?i - c * 16384)" "c * 16384 < piece_bytes l ?i"
    using chunk_shape [OF assms(1,2)] .
  obtain d where d: "cj = chunk_at l (ci_piece_index cj) d" "chunk_start l cj = ?j * ?P + d * 16384"
      "unat (ci_size cj) = min 16384 (piece_bytes l ?j - d * 16384)" "d * 16384 < piece_bytes l ?j"
    using chunk_shape [OF assms(1,3)] .
  have le: "piece_bytes l k \<le> ?P" for k by (simp add: piece_bytes_def)
  have next_piece: "a * ?P + ?P \<le> b * ?P" if "a < b" for a b :: nat
    using mult_le_mono1 [of "Suc a" b ?P] that by simp
  consider "?i < ?j" | "?j < ?i" | "?i = ?j" by linarith
  then show ?thesis
  proof cases
    case 1
    then show ?thesis using next_piece [OF 1] le [of ?i] c d by linarith
  next
    case 2
    then show ?thesis using next_piece [OF 2] le [of ?j] c d by linarith
  next
    case 3
    then have "ci_piece_index ci = ci_piece_index cj" by (metis valid_piece_index.expand word_unat_eq_iff)
    then have "c \<noteq> d" using c(1) d(1) assms(4) by metis
    then have "c < d \<or> d < c" by linarith
    then have "c * 16384 + 16384 \<le> d * 16384 \<or> d * 16384 + 16384 \<le> c * 16384"
      using mult_le_mono1 [of "Suc c" d 16384] mult_le_mono1 [of "Suc d" c 16384] by linarith
    then show ?thesis using c d 3 by auto
  qed
qed

lemma overlaid_inside:
  assumes "overlaid m a d c c'" and "length d = n" and "a + n \<le> length c"
  shows "take n (drop a c') = map (\<lambda>k. if m ! (a + k) then c ! (a + k) else d ! k) [0..<n]"
  using assms by (intro nth_equalityI) (auto simp: overlaid_def)

lemma overlaid_outside:
  assumes "overlaid m a d c c'" and "b + n \<le> length c" and "b + n \<le> a \<or> a + length d \<le> b"
  shows "take n (drop b c') = take n (drop b c)"
  using assms by (intro nth_equalityI) (auto simp: overlaid_def)

lemma padding_zero:
  assumes "\<And>j. j < length fis \<Longrightarrow> length (c (i + j)) = unat (fi_len (fis ! j))" and "q < total_bytes fis" and "padding_mask fis ! q"
  shows "torrent_bytes c i fis ! q = 0"
  using assms
proof (induction fis arbitrary: i q)
  case (Cons fi fis)
  have "length (c i) = unat (fi_len fi)" using Cons.prems(1) [of 0] by simp
  then have A: "length (file_bytes c i fi) = unat (fi_len fi)" by (simp add: file_bytes_def)
  show ?case
  proof (cases "q < unat (fi_len fi)")
    case True
    then show ?thesis using Cons.prems(3) A by (auto simp: nth_append padding_mask_def file_bytes_def)
  next
    case False
    have "length (c (Suc i + j)) = unat (fi_len (fis ! j))" if "j < length fis" for j
      using Cons.prems(1) [of "Suc j"] that by simp
    then show ?thesis
      using False A Cons.IH [of "Suc i" "q - unat (fi_len fi)"] Cons.prems(2,3)
      by (simp add: nth_append padding_mask_def total_bytes_def)
  qed
qed (simp add: total_bytes_def)

section \<open>Pieces as slices\<close>

definition piece_slice :: "lengths \<Rightarrow> nat \<Rightarrow> bytes \<Rightarrow> bytes" where
  "piece_slice l k b = take (piece_bytes l k) (drop (k * unat (ln_piece_length l)) b)"

lemma piece_slice_fits:
  assumes "wf_lengths l" and "k < piece_count l"
  shows "k * unat (ln_piece_length l) + piece_bytes l k \<le> unat (ln_total_length l)"
  using less_piece_count [OF assms(1)] assms(2) by (simp add: piece_bytes_def)

lemma chunk_piece:
  assumes "wf_lengths l" and "valid_index l i" and "ci \<in> set (iter_chunk_infos l i)"
  shows "ci_piece_index ci = i"
  using assms by (auto simp: iter_chunk_infos_closed chunk_at_def)

lemma concat_chunks:
  "B \<le> length x \<Longrightarrow> concat (map (\<lambda>c. take (min 16384 (B - c * 16384)) (drop (c * 16384) x)) [0..<n]) = take (min (n * 16384) B) x"
proof (induction n)
  case (Suc n)
  have "take (min (n * 16384) B) x @ take (min 16384 (B - n * 16384)) (drop (n * 16384) x) = take (min (Suc n * 16384) B) x"
  proof (cases "n * 16384 \<le> B")
    case True
    then have "min (n * 16384) B = n * 16384" "min (Suc n * 16384) B = n * 16384 + min 16384 (B - n * 16384)" by auto
    then show ?thesis by (simp only: take_add)
  next
    case False
    then have "min (n * 16384) B = B" "min (Suc n * 16384) B = B" "B - n * 16384 = 0" by auto
    then show ?thesis by simp
  qed
  then show ?case using Suc by simp
qed simp

lemma piece_slice_chunks:
  assumes wf: "wf_lengths l" and i: "valid_index l i" and "length b = unat (ln_total_length l)"
  shows "piece_slice l (unat (vpi_get i)) b =
    concat (map (\<lambda>ci. take (unat (ci_size ci)) (drop (chunk_start l ci) b)) (iter_chunk_infos l i))"
proof -
  let ?k = "unat (vpi_get i)" and ?O = "unat (vpi_get i) * unat (ln_piece_length l)"
  let ?B = "piece_bytes l ?k"
  have k: "?k < piece_count l" using i valid_index_nat [OF wf] by simp
  have "map (\<lambda>ci. take (unat (ci_size ci)) (drop (chunk_start l ci) b)) (iter_chunk_infos l i)
      = map (\<lambda>c. take (min 16384 (?B - c * 16384)) (drop (c * 16384) (drop ?O b))) [0..<nceil ?B 16384]"
    unfolding iter_chunk_infos_closed [OF wf i] map_map piece_chunks_def [symmetric]
    using chunk_at_absolute [OF wf i] chunk_at_nat(3) [OF wf i] by (intro map_cong) (auto simp: add.commute)
  moreover have "?B \<le> length (drop ?O b)" using piece_slice_fits [OF wf k] assms(3) by simp
  then have "concat (map (\<lambda>c. take (min 16384 (?B - c * 16384)) (drop (c * 16384) (drop ?O b))) [0..<nceil ?B 16384])
      = take (min (nceil ?B 16384 * 16384) ?B) (drop ?O b)" by (rule concat_chunks)
  moreover have "?B \<le> nceil ?B 16384 * 16384" using nceil_le_iff [of 16384 ?B "nceil ?B 16384"] by simp
  ultimately show ?thesis by (simp add: piece_slice_def)
qed

text \<open>Blocks written one after the other.\<close>

fun write_blocks :: "'s torrent_storage \<Rightarrow> file_ops \<Rightarrow> (chunk_info \<Rightarrow> piece) \<Rightarrow> chunk_info list \<Rightarrow> 's \<Rightarrow> (unit, file_error) rust \<times> 's" where
  "write_blocks S fo blk [] s = (Inr (), s)"
| "write_blocks S fo blk (ci # cs) s =
     (case write_chunk S fo (blk ci) ci s of (Inl e, s) \<Rightarrow> (Inl e, s) | (Inr _, s) \<Rightarrow> write_blocks S fo blk cs s)"

section \<open>Over any storage\<close>

context storage_laws
begin

definition bytes_of :: "file_ops \<Rightarrow> 's \<Rightarrow> bytes" where
  "bytes_of fo s = torrent_bytes (contents s) 0 (fo_file_infos fo)"

lemma bytes_of_length:
  assumes "file_ops_ok fo" and "ok (fo_file_infos fo) s"
  shows "length (bytes_of fo s) = unat (ln_total_length (fo_lengths fo))"
  using suffix_bytes_length [OF assms(2), of 0] assms(1) by (simp add: bytes_of_def file_ops_ok_def)

lemma read_chunk_ok:
  assumes fo: "file_ops_ok fo" and s: "ok (fo_file_infos fo) s" and ci: "is_chunk (fo_lengths fo) ci" and "length buf = unat (ci_size ci)"
  shows "read_chunk S fo ci buf s = Inr (take (unat (ci_size ci)) (drop (chunk_start (fo_lengths fo) ci) (bytes_of fo s)))"
proof -
  have "chunk_start (fo_lengths fo) ci + length buf \<le> length (torrent_bytes (contents s) 0 (fo_file_infos fo))"
    using chunk_fits [OF _ ci] fo assms(4) bytes_of_length [OF fo s] by (simp add: file_ops_ok_def bytes_of_def)
  from read_files_ok [OF s _ this] this show ?thesis using assms(4) by (simp add: read_chunk_def bytes_of_def)
qed

lemma write_chunk_ok:
  assumes fo: "file_ops_ok fo" and s: "ok (fo_file_infos fo) s" and ci: "is_chunk (fo_lengths fo) ci" and "pc_len p = unat (ci_size ci)"
  shows "\<exists>s'. write_chunk S fo p ci s = (Inr (), s') \<and> ok (fo_file_infos fo) s'
    \<and> overlaid (padding_mask (fo_file_infos fo)) (chunk_start (fo_lengths fo) ci) (pc_block_0 p @ pc_block_1 p) (bytes_of fo s) (bytes_of fo s')"
proof -
  have "chunk_start (fo_lengths fo) ci + length (db_view (DoubleBufHelper_new (pc_block_0 p) (pc_block_1 p)))
      \<le> length (torrent_bytes (contents s) 0 (fo_file_infos fo))"
    using chunk_fits [OF _ ci] fo assms(4) bytes_of_length [OF fo s] by (simp add: file_ops_ok_def bytes_of_def pc_len_def)
  from write_files_ok [OF s _ this] show ?thesis by (simp add: write_chunk_def bytes_of_def)
qed

lemma write_chunk_effect:
  assumes fo: "file_ops_ok fo" and s: "ok (fo_file_infos fo) s" and ci: "is_chunk (fo_lengths fo) ci" and p: "pc_len p = unat (ci_size ci)"
  shows "\<exists>s'. write_chunk S fo p ci s = (Inr (), s') \<and> ok (fo_file_infos fo) s'
    \<and> take (unat (ci_size ci)) (drop (chunk_start (fo_lengths fo) ci) (bytes_of fo s')) = stored_block fo ci p
    \<and> (\<forall>cj. is_chunk (fo_lengths fo) cj \<longrightarrow> cj \<noteq> ci \<longrightarrow>
         take (unat (ci_size cj)) (drop (chunk_start (fo_lengths fo) cj) (bytes_of fo s'))
         = take (unat (ci_size cj)) (drop (chunk_start (fo_lengths fo) cj) (bytes_of fo s)))"
proof -
  let ?l = "fo_lengths fo" and ?d = "pc_block_0 p @ pc_block_1 p" and ?m = "padding_mask (fo_file_infos fo)"
  obtain s' where w: "write_chunk S fo p ci s = (Inr (), s')" "ok (fo_file_infos fo) s'"
      "overlaid ?m (chunk_start ?l ci) ?d (bytes_of fo s) (bytes_of fo s')"
    using write_chunk_ok [OF assms] by blast
  have wf: "wf_lengths ?l" using fo by (simp add: file_ops_ok_def)
  have d: "length ?d = unat (ci_size ci)" using p by (simp add: pc_len_def)
  have fit: "chunk_start ?l cj + unat (ci_size cj) \<le> length (bytes_of fo s)" if "is_chunk ?l cj" for cj
    using chunk_fits [OF wf that] bytes_of_length [OF fo s] by simp
  have zero: "bytes_of fo s ! q = 0" if "q < length (bytes_of fo s)" "?m ! q" for q
    using that bytes_of_length [OF fo s] fo len [OF s] unfolding bytes_of_def
    by (intro padding_zero) (auto simp: file_ops_ok_def)
  have "take (unat (ci_size ci)) (drop (chunk_start ?l ci) (bytes_of fo s')) = stored_block fo ci p"
    using overlaid_inside [OF w(3) d fit [OF ci]] fit [OF ci] zero by (auto simp: stored_block_def)
  moreover have "take (unat (ci_size cj)) (drop (chunk_start ?l cj) (bytes_of fo s'))
      = take (unat (ci_size cj)) (drop (chunk_start ?l cj) (bytes_of fo s))" if "is_chunk ?l cj" "cj \<noteq> ci" for cj
    using overlaid_outside [OF w(3) fit [OF that(1)]] chunks_disjoint [OF wf that(1) ci that(2)] d by simp
  ultimately show ?thesis using w(1,2) by blast
qed

lemma check_piece_ok:
  assumes fo: "file_ops_ok fo" and s: "ok (fo_file_infos fo) s" and i: "valid_index (fo_lengths fo) i"
  shows "check_piece sha1 S fo i s = (case compare_hash (fo_pieces fo) (vpi_get i) (sha1 (piece_slice (fo_lengths fo) (unat (vpi_get i)) (bytes_of fo s))) of
     Some b \<Rightarrow> Inr b | None \<Rightarrow> Inl (Err NoPieceHash))"
proof -
  let ?l = "fo_lengths fo" and ?k = "unat (vpi_get i)"
  have wf: "wf_lengths ?l" using fo by (simp add: file_ops_ok_def)
  have k: "?k < piece_count ?l" using i valid_index_nat [OF wf] by simp
  note n = piece_length_nat [OF wf i] and o = piece_offset_nat [OF wf i]
  have pos: "0 < min 65536 (unat (piece_length ?l i))" using piece_bytes_pos [OF wf k] n by simp
  have "unat (piece_offset ?l i) + unat (piece_length ?l i) \<le> length (torrent_bytes (contents s) 0 (fo_file_infos fo))"
    using bytes_of_length [OF fo s] n o by (simp add: bytes_of_def piece_slice_fits [OF wf k])
  from check_files_ok [OF s _ this pos] show ?thesis
    using n o by (simp add: check_piece_def Let_def bytes_of_def piece_slice_def)
qed

lemma write_blocks_ok:
  assumes fo: "file_ops_ok fo" and "ok (fo_file_infos fo) s"
    and "\<forall>ci \<in> set cs. is_chunk (fo_lengths fo) ci \<and> pc_len (blk ci) = unat (ci_size ci)"
  shows "\<exists>s'. write_blocks S fo blk cs s = (Inr (), s') \<and> ok (fo_file_infos fo) s'
    \<and> (\<forall>cj. is_chunk (fo_lengths fo) cj \<longrightarrow>
         take (unat (ci_size cj)) (drop (chunk_start (fo_lengths fo) cj) (bytes_of fo s'))
         = (if cj \<in> set cs then stored_block fo cj (blk cj)
            else take (unat (ci_size cj)) (drop (chunk_start (fo_lengths fo) cj) (bytes_of fo s))))"
  using assms(2,3)
proof (induction cs arbitrary: s)
  case (Cons ci cs)
  have ci: "is_chunk (fo_lengths fo) ci" "pc_len (blk ci) = unat (ci_size ci)" using Cons.prems(2) by auto
  obtain s1 where 1: "write_chunk S fo (blk ci) ci s = (Inr (), s1)" "ok (fo_file_infos fo) s1"
      "take (unat (ci_size ci)) (drop (chunk_start (fo_lengths fo) ci) (bytes_of fo s1)) = stored_block fo ci (blk ci)"
      "\<forall>cj. is_chunk (fo_lengths fo) cj \<longrightarrow> cj \<noteq> ci \<longrightarrow>
         take (unat (ci_size cj)) (drop (chunk_start (fo_lengths fo) cj) (bytes_of fo s1))
         = take (unat (ci_size cj)) (drop (chunk_start (fo_lengths fo) cj) (bytes_of fo s))"
    using write_chunk_effect [OF fo Cons.prems(1) ci] by blast
  from Cons.IH [OF 1(2)] Cons.prems(2) obtain s' where 2: "write_blocks S fo blk cs s1 = (Inr (), s')" "ok (fo_file_infos fo) s'"
      "\<forall>cj. is_chunk (fo_lengths fo) cj \<longrightarrow>
         take (unat (ci_size cj)) (drop (chunk_start (fo_lengths fo) cj) (bytes_of fo s'))
         = (if cj \<in> set cs then stored_block fo cj (blk cj)
            else take (unat (ci_size cj)) (drop (chunk_start (fo_lengths fo) cj) (bytes_of fo s1)))"
    by auto
  then show ?case using 1 by auto
qed simp

lemma check_written_piece:
  assumes fo: "file_ops_ok fo" and s: "ok (fo_file_infos fo) s" and i: "valid_index (fo_lengths fo) i"
    and cs: "set cs = set (iter_chunk_infos (fo_lengths fo) i)"
    and blk: "\<forall>ci \<in> set cs. pc_len (blk ci) = unat (ci_size ci)"
    and ps: "fo_pieces fo = Some ps" "20 * piece_count (fo_lengths fo) \<le> length ps"
  shows "\<exists>s'. write_blocks S fo blk cs s = (Inr (), s') \<and> ok (fo_file_infos fo) s'
    \<and> check_piece sha1 S fo i s' =
        Inr (take 20 (drop (unat (vpi_get i) * 20) ps) =
             sha1 (concat (map (\<lambda>ci. stored_block fo ci (blk ci)) (iter_chunk_infos (fo_lengths fo) i))))"
proof -
  let ?l = "fo_lengths fo" and ?k = "unat (vpi_get i)"
  have wf: "wf_lengths ?l" using fo by (simp add: file_ops_ok_def)
  have k: "?k < piece_count ?l" using i valid_index_nat [OF wf] by simp
  have chunks: "is_chunk ?l ci" if "ci \<in> set (iter_chunk_infos ?l i)" for ci
    using that i chunk_piece [OF wf i that] by (simp add: is_chunk_def)
  obtain s' where w: "write_blocks S fo blk cs s = (Inr (), s')" "ok (fo_file_infos fo) s'"
      "\<forall>cj. is_chunk ?l cj \<longrightarrow> take (unat (ci_size cj)) (drop (chunk_start ?l cj) (bytes_of fo s'))
         = (if cj \<in> set cs then stored_block fo cj (blk cj)
            else take (unat (ci_size cj)) (drop (chunk_start ?l cj) (bytes_of fo s)))"
    using write_blocks_ok [OF fo s, of cs blk] cs blk chunks by auto
  have "piece_slice ?l ?k (bytes_of fo s') = concat (map (\<lambda>ci. take (unat (ci_size ci)) (drop (chunk_start ?l ci) (bytes_of fo s'))) (iter_chunk_infos ?l i))"
    using bytes_of_length [OF fo w(2)] by (intro piece_slice_chunks [OF wf i]) simp
  also have "\<dots> = concat (map (\<lambda>ci. stored_block fo ci (blk ci)) (iter_chunk_infos ?l i))"
    using w(3) cs chunks by (intro arg_cong [of _ _ concat] map_cong) auto
  finally have slice: "piece_slice ?l ?k (bytes_of fo s') = concat (map (\<lambda>ci. stored_block fo ci (blk ci)) (iter_chunk_infos ?l i))" .
  have "?k * 20 + 20 \<le> length ps" using ps(2) k by linarith
  then have "check_piece sha1 S fo i s' = Inr (take 20 (drop (?k * 20) ps) = sha1 (piece_slice ?l ?k (bytes_of fo s')))"
    unfolding check_piece_ok [OF fo w(2) i] using ps(1) by (simp add: compare_hash_def Let_def)
  then show ?thesis using w(1,2) slice by auto
qed

lemma initial_check_ok:
  assumes fo: "file_ops_ok fo" and s: "ok (fo_file_infos fo) s"
    and ps: "fo_pieces fo = Some ps" "20 * piece_count (fo_lengths fo) \<le> length ps"
  shows "\<exists>hv. initial_check sha1 (\<lambda>_. False) S fo progress s = Inr (hv, progress + ln_total_length (fo_lengths fo))
    \<and> length hv = 8 * piece_bitfield_bytes (fo_lengths fo)
    \<and> (\<forall>j < length hv. hv ! j \<longleftrightarrow> j < piece_count (fo_lengths fo)
        \<and> take 20 (drop (j * 20) ps) = sha1 (piece_slice (fo_lengths fo) j (bytes_of fo s)))"
proof -
  let ?l = "fo_lengths fo" and ?FS = "fo_file_infos fo" and ?b = "bytes_of fo s"
  let ?N = "piece_count ?l" and ?P = "unat (ln_piece_length ?l)" and ?bits = "8 * piece_bitfield_bytes ?l"
  let ?good = "\<lambda>j. take 20 (drop (j * 20) ps) = sha1 (piece_slice ?l j ?b)"
  have wf: "wf_lengths ?l" and tot: "total_bytes ?FS = unat (ln_total_length ?l)" using fo by (simp_all add: file_ops_ok_def)
  note nth = iter_piece_infos_nth [OF wf]
  have N: "0 < ?N" using wf_lengthsD(4) [OF wf] by simp
  have len: "length (iter_piece_infos ?l) = ?N" using nth(2) [OF N] .
  have ne: "?FS \<noteq> []" using tot wf_lengthsD(1) [OF wf] by (auto simp: total_bytes_def)
  let ?cf = "\<lparr> cf_index = 0, cf_fi = ?FS ! 0, cf_processed_bytes = 0, cf_is_broken = False \<rparr>"
  have it: "file_iterator ?FS = ?cf # current_files 1 (drop 1 ?FS)"
    using ne current_files_drop [of 0 ?FS] by (simp add: file_iterator_def current_files_def)
  define I where "I = (\<lambda>done (hv :: bits, cf, its, pr). length hv = ?bits \<and> iterating ?FS cf its
    \<and> pending (contents s) ?FS cf = drop (\<Sum>j<length (done :: piece_info list). piece_bytes ?l j) ?b
    \<and> pr = progress + of_nat (\<Sum>j<length done. piece_bytes ?l j)
    \<and> (\<forall>j < ?bits. hv ! j \<longleftrightarrow> j < length done \<and> ?good j))"
  have "\<exists>st. rfold (check_one_piece sha1 (\<lambda>_. False) S fo s) (replicate ?bits False, ?cf, current_files 1 (drop 1 ?FS), progress)
      (iter_piece_infos ?l) = Inr st \<and> I (iter_piece_infos ?l) st"
  proof (rule rfold_invariant)
    have "?b = pending (contents s) ?FS ?cf"
      using ne by (cases ?FS) (simp_all add: bytes_of_def pending_def)
    then show "I [] (replicate ?bits False, ?cf, current_files 1 (drop 1 ?FS), progress)"
      using ne by (simp add: I_def iterating_def)
  next
    fix seen x todo st
    assume xs: "iter_piece_infos ?l = seen @ x # todo" and inv: "I seen st"
    obtain hv cf its pr where st: "st = (hv, cf, its, pr)" by (rule prod_cases4)
    let ?k = "length seen"
    have k: "?k < ?N" using xs len by (metis add_Suc_right length_Cons length_append less_add_Suc1)
    have x: "x = \<lparr> pi_piece_index = ValidPieceIndex (of_nat ?k), pi_len = piece_length ?l (ValidPieceIndex (of_nat ?k)) \<rparr>"
      using nth(1) [OF k] xs by simp
    note K = nth(3,4) [OF k]
    have n: "unat (pi_len x) = piece_bytes ?l ?k" using piece_length_nat [OF wf K(1)] K(2) by (simp add: x)
    have sum: "(\<Sum>j<?k. piece_bytes ?l j) = ?k * ?P"
      using less_piece_count [OF wf, of ?k] k by (simp add: piece_bytes_sum)
    note J = inv [unfolded I_def st prod.case]
    have "piece_bytes ?l ?k \<le> length (pending (contents s) ?FS cf)"
      using J piece_slice_fits [OF wf k] bytes_of_length [OF fo s] sum by simp
    from check_loop_ok [OF s _ this, of its "[]" False] obtain cf' its' where
      c: "check_loop S s (piece_bytes ?l ?k) cf its [] False = Inr (piece_slice ?l ?k ?b, False, cf', its')"
        "iterating ?FS cf' its'" "pending (contents s) ?FS cf' = drop (?k * ?P + piece_bytes ?l ?k) ?b"
      using J unfolding sum piece_slice_def by (auto simp: add.commute)
    have "?k * 20 + 20 \<le> length ps" using ps(2) k by linarith
    then have cmp: "compare_hash (fo_pieces fo) (of_nat ?k) (sha1 (piece_slice ?l ?k ?b)) = Some (?good ?k)"
      using ps(1) K(2) by (simp add: compare_hash_def Let_def)
    have kb: "?k < ?bits" using k piece_bits [OF wf] by simp
    have pr: "pr + ucast (pi_len x) = progress + of_nat (\<Sum>j<Suc ?k. piece_bytes ?l j)"
      using J n by (simp add: add.assoc unsigned_ucast_eq flip: n)
    let ?hv = "if ?good ?k then hv[?k := True] else hv"
    have "check_one_piece sha1 (\<lambda>_. False) S fo s st x = Inr (?hv, cf', its', pr + ucast (pi_len x))"
      using c(1) cmp kb J K(2) n unfolding st
      by (simp add: check_one_piece_def Let_def x set_bit_checked_def split: bool.splits)
    moreover have "I (seen @ [x]) (?hv, cf', its', pr + ucast (pi_len x))"
      unfolding I_def prod.case pr using J c(2,3) sum kb by (auto simp: nth_list_update less_Suc_eq)
    ultimately show "\<exists>s'. check_one_piece sha1 (\<lambda>_. False) S fo s st x = Inr s' \<and> I (seen @ [x]) s'" by blast
  qed
  then obtain hv cf its pr where r: "rfold (check_one_piece sha1 (\<lambda>_. False) S fo s) (replicate ?bits False, ?cf, current_files 1 (drop 1 ?FS), progress)
      (iter_piece_infos ?l) = Inr (hv, cf, its, pr)" "I (iter_piece_infos ?l) (hv, cf, its, pr)"
    by (metis prod_cases4)
  have "(\<Sum>j<?N. piece_bytes ?l j) = unat (ln_total_length ?l)" using piece_bytes_total [OF wf] .
  then show ?thesis using r it by (simp add: initial_check_def I_def len del: of_nat_sum)
qed

end

section \<open>Over memory-mapped files\<close>

definition mmap_ok :: "file_info list \<Rightarrow> opened_mmaps \<Rightarrow> bool" where
  "mmap_ok fis s \<longleftrightarrow> length s = length fis \<and> (\<forall>i < length fis. length (s ! i) = unat (fi_len (fis ! i)))"

lemma add_fits: "unat (a :: u64) + n \<le> unat (b :: u64) \<Longrightarrow> unat (a + of_nat n) = unat a + n"
  using unat_bound64 [of b] by (simp add: unat_word_ariths(1) unat_of_nat)

lemma mmap_pwrite_ok:
  assumes "mmap_ok fis s" and "i < length fis" and "unat a + length d \<le> unat (fi_len (fis ! i))"
  shows "mmap_pwrite_all i a d s = (Inr (), s[i := take (unat a) (s ! i) @ d @ drop (unat a + length d) (s ! i)])"
    and "mmap_ok fis (s[i := take (unat a) (s ! i) @ d @ drop (unat a + length d) (s ! i)])"
  using assms add_fits [OF assms(3)] by (auto simp: mmap_pwrite_all_def mmap_ok_def Let_def nth_list_update)

lemma write_twice:
  assumes "a + length d0 + length d1 \<le> length (m :: bytes)"
  shows "take (a + length d0) (take a m @ d0 @ drop (a + length d0) m) @ d1
      @ drop (a + length d0 + length d1) (take a m @ d0 @ drop (a + length d0) m)
    = take a m @ d0 @ d1 @ drop (a + length d0 + length d1) m"
proof -
  have "length (take a m) = a" using assms by simp
  then show ?thesis using assms by (simp add: add.commute)
qed

interpretation mm: storage_laws mmap_storage mmap_ok nth
proof
  fix fis s i and a :: u64 and n :: nat and d0 d1 :: bytes
  assume s: "mmap_ok fis s" and i: "i < length fis"
  show "length (s ! i) = unat (fi_len (fis ! i))" using s i by (simp add: mmap_ok_def)
  show "st_pread_exact mmap_storage i a n s = Inr (take n (drop (unat a) (s ! i)))" if "unat a + n \<le> unat (fi_len (fis ! i))"
    using s i that add_fits [OF that] by (simp add: mmap_storage_def mmap_pread_exact_def mmap_ok_def Let_def)
  assume fit: "unat a + length d0 + length d1 \<le> unat (fi_len (fis ! i))"
  let ?s1 = "s[i := take (unat a) (s ! i) @ d0 @ drop (unat a + length d0) (s ! i)]"
  have f0: "unat a + length d0 \<le> unat (fi_len (fis ! i))" using fit by simp
  note 1 = mmap_pwrite_ok [OF s i f0]
  have a: "unat (a + of_nat (length d0)) = unat a + length d0" using add_fits [OF f0] .
  have f1: "unat (a + of_nat (length d0)) + length d1 \<le> unat (fi_len (fis ! i))" using fit a by simp
  note 2 = mmap_pwrite_ok [OF 1(2) i f1]
  let ?s2 = "?s1[i := take (unat (a + of_nat (length d0))) (?s1 ! i) @ d1 @ drop (unat (a + of_nat (length d0)) + length d1) (?s1 ! i)]"
  have L: "i < length s" "length (s ! i) = unat (fi_len (fis ! i))" using s i by (simp_all add: mmap_ok_def)
  have "?s2 ! i = take (unat a) (s ! i) @ d0 @ d1 @ drop (unat a + length d0 + length d1) (s ! i)"
    using L fit write_twice [of "unat a" d0 d1 "s ! i"] unfolding a by simp
  then show "\<exists>s'. st_pwrite_all_vectored mmap_storage i a (d0, d1) s = (Inr (length d0 + length d1), s') \<and> mmap_ok fis s'
      \<and> (\<forall>j. j \<noteq> i \<longrightarrow> s' ! j = s ! j)
      \<and> s' ! i = take (unat a) (s ! i) @ d0 @ d1 @ drop (unat a + length d0 + length d1) (s ! i)"
    using 1 2 by (intro exI [of _ ?s2]) (simp add: mmap_storage_def default_pwrite_all_vectored_def)
qed

lemma check_piece_true_iff:
  assumes "file_ops_ok fo" and "mmap_ok (fo_file_infos fo) s"
    and "fo_pieces fo = Some ps" and "20 * piece_count (fo_lengths fo) \<le> length ps" and j: "j < piece_count (fo_lengths fo)"
  shows "check_piece sha1 mmap_storage fo (ValidPieceIndex (of_nat j)) s = Inr True
    \<longleftrightarrow> take 20 (drop (j * 20) ps) = sha1 (piece_slice (fo_lengths fo) j (mm.bytes_of fo s))"
proof -
  have wf: "wf_lengths (fo_lengths fo)" using assms(1) by (simp add: file_ops_ok_def)
  note J = iter_piece_infos_nth(3,4) [OF wf j]
  have "j * 20 + 20 \<le> length ps" using assms(4) j by linarith
  then show ?thesis unfolding mm.check_piece_ok [OF assms(1,2) J(1)] using assms(3) J(2) by (simp add: compare_hash_def Let_def)
qed

section \<open>A torrent of two files\<close>

definition two_files :: file_ops where
  "two_files = \<lparr> fo_lengths = \<lparr> ln_total_length = 5, ln_piece_length = 4, ln_last_piece_id = 1, ln_last_piece_length = 1, ln_chunks_per_piece = 1 \<rparr>,
     fo_pieces = Some ([10, 11, 12, 13] @ replicate 36 0),
     fo_file_infos = (let attrs = \<lparr> fa_symlink = False, fa_hidden = False, fa_padding = False, fa_executable = False \<rparr> in
       [\<lparr> fi_relative_filename = [97], fi_offset_in_torrent = 0, fi_piece_range = (0, 1), fi_attrs = attrs, fi_len = 3 \<rparr>,
        \<lparr> fi_relative_filename = [98], fi_offset_in_torrent = 3, fi_piece_range = (0, 2), fi_attrs = attrs, fi_len = 2 \<rparr>]) \<rparr>"

definition first_chunk :: chunk_info where
  "first_chunk = \<lparr> ci_piece_index = ValidPieceIndex 0, ci_chunk_index = 0, ci_absolute_index = 0, ci_size = 4, ci_offset = 0 \<rparr>"

lemma two_files_ok:
  "file_ops_ok two_files" "mmap_ok (fo_file_infos two_files) [[1, 2, 3], [4, 5]]"
  "fo_pieces two_files = Some ([10, 11, 12, 13] @ replicate 36 0)"
  "20 * piece_count (fo_lengths two_files) \<le> length ([10, 11, 12, 13] @ replicate 36 (0 :: u8))"
  by (auto simp: file_ops_ok_def wf_lengths_def total_bytes_def mmap_ok_def two_files_def nceil_def piece_count_def Let_def less_Suc_eq)

lemma two_files_chunks:
  "iter_chunk_infos (fo_lengths two_files) (ValidPieceIndex 0) = [first_chunk]"
  "stored_block two_files first_chunk (pc_from_data 0 0 [10, 11, 12, 13]) = [10, 11, 12, 13]"
  by code_simp+

lemma first_chunk_ok:
  "is_chunk (fo_lengths two_files) first_chunk" "set [first_chunk] = set (iter_chunk_infos (fo_lengths two_files) (ValidPieceIndex 0))"
  "valid_index (fo_lengths two_files) (ValidPieceIndex 0)"
proof -
  show 1: "set [first_chunk] = set (iter_chunk_infos (fo_lengths two_files) (ValidPieceIndex 0))" by (simp add: two_files_chunks)
  show 2: "valid_index (fo_lengths two_files) (ValidPieceIndex 0)" by (simp add: valid_index_def two_files_def)
  have "first_chunk \<in> set (iter_chunk_infos (fo_lengths two_files) (ValidPieceIndex 0))" unfolding 1 [symmetric] by simp
  then show "is_chunk (fo_lengths two_files) first_chunk" using 2 by (simp add: is_chunk_def first_chunk_def)
qed

section \<open>Properties\<close>

text \<open>
  C9: a chunk is read back as it was written. Writing a received block to the files of the torrent succeeds;
  reading the chunk again returns the block, with zeros where it lies in padding files, and every other
  chunk reads as before, however the chunks are spread over files.
\<close>
theorem chunk_write_read:
  assumes "file_ops_ok fo" and "mmap_ok (fo_file_infos fo) s" and "is_chunk (fo_lengths fo) ci" and "pc_len p = unat (ci_size ci)"
    and "length buf = unat (ci_size ci)"
  shows "\<exists>s'. write_chunk mmap_storage fo p ci s = (Inr (), s') \<and> mmap_ok (fo_file_infos fo) s'
    \<and> read_chunk mmap_storage fo ci buf s' = Inr (stored_block fo ci p)
    \<and> (\<forall>cj buf. is_chunk (fo_lengths fo) cj \<and> cj \<noteq> ci \<and> length buf = unat (ci_size cj) \<longrightarrow>
         read_chunk mmap_storage fo cj buf s' = read_chunk mmap_storage fo cj buf s)"
proof -
  obtain s' where w: "write_chunk mmap_storage fo p ci s = (Inr (), s')" "mmap_ok (fo_file_infos fo) s'"
      "take (unat (ci_size ci)) (drop (chunk_start (fo_lengths fo) ci) (mm.bytes_of fo s')) = stored_block fo ci p"
      "\<forall>cj. is_chunk (fo_lengths fo) cj \<longrightarrow> cj \<noteq> ci \<longrightarrow>
         take (unat (ci_size cj)) (drop (chunk_start (fo_lengths fo) cj) (mm.bytes_of fo s'))
         = take (unat (ci_size cj)) (drop (chunk_start (fo_lengths fo) cj) (mm.bytes_of fo s))"
    using mm.write_chunk_effect [OF assms(1-4)] by blast
  show ?thesis
    using w mm.read_chunk_ok [OF assms(1) w(2) assms(3,5)] mm.read_chunk_ok [OF assms(1) w(2)] mm.read_chunk_ok [OF assms(1,2)] by auto
qed

lemma chunk_write_read_witness:
  "\<exists>s'. write_chunk mmap_storage two_files (pc_from_data 0 0 [10, 11, 12, 13]) first_chunk [[1, 2, 3], [4, 5]] = (Inr (), s')
     \<and> read_chunk mmap_storage two_files first_chunk (replicate 4 0) s' = Inr [10, 11, 12, 13]"
proof -
  show ?thesis
    using two_files_chunks(2) chunk_write_read [OF two_files_ok(1,2) first_chunk_ok(1), of "pc_from_data 0 0 [10, 11, 12, 13]" "replicate 4 0"]
    by (auto simp: pc_len_def pc_from_data_def first_chunk_def)
qed

text \<open>
  C10: the hash check sees the blocks that were written. When the blocks of all chunks of a piece have been
  written, in any order, the check of the piece compares the expected hash with the hash of the blocks in
  the order of the piece.
\<close>
theorem piece_check_sees_blocks:
  assumes "file_ops_ok fo" and "mmap_ok (fo_file_infos fo) s" and "valid_index (fo_lengths fo) i"
    and "set cs = set (iter_chunk_infos (fo_lengths fo) i)" and "\<forall>ci \<in> set cs. pc_len (blk ci) = unat (ci_size ci)"
    and "fo_pieces fo = Some ps" and "20 * piece_count (fo_lengths fo) \<le> length ps"
  shows "\<exists>s'. write_blocks mmap_storage fo blk cs s = (Inr (), s')
    \<and> check_piece sha1 mmap_storage fo i s' =
        Inr (take 20 (drop (unat (vpi_get i) * 20) ps) =
             sha1 (concat (map (\<lambda>ci. stored_block fo ci (blk ci)) (iter_chunk_infos (fo_lengths fo) i))))"
  using mm.check_written_piece [OF assms] by blast

lemma piece_check_sees_blocks_witness:
  "\<exists>s'. write_blocks mmap_storage two_files (\<lambda>_. pc_from_data 0 0 [10, 11, 12, 13]) [first_chunk] [[1, 2, 3], [4, 5]] = (Inr (), s')
     \<and> check_piece (\<lambda>b. take 20 (b @ replicate 20 0)) mmap_storage two_files (ValidPieceIndex 0) s' = Inr True"
proof -
  have "\<forall>ci \<in> set [first_chunk]. pc_len (pc_from_data 0 0 [10, 11, 12, 13]) = unat (ci_size ci)"
    by (simp add: pc_len_def pc_from_data_def first_chunk_def)
  from piece_check_sees_blocks [OF two_files_ok(1,2) first_chunk_ok(3,2) this two_files_ok(3,4), of "\<lambda>b. take 20 (b @ replicate 20 0)"]
  show ?thesis unfolding two_files_chunks(1) list.map two_files_chunks(2) by (simp del: write_blocks.simps)
qed



end
