(* ===== verification/Data_Integrity.thy ===== *)
theory Data_Integrity
  imports File_Ops_Props Piece_Tracker_Correct
begin

text \<open>
  The download as a whole: the piece tracker together with the files. The function \<^verbatim>\<open>write_to_disk\<close> of
  \<^verbatim>\<open>live/peer_handler.rs\<close> writes a block between the check that the piece is still the peer's and the marking of
  the chunk. The lock of the piece keeps other peers from stealing the piece in between, and the peer's own task,
  which alone gives the piece up, is the one that writes, so this part is one step. The hash check reads the files without a lock; its result is acted on in a later step.
\<close>

section \<open>The operations\<close>

definition write_block :: "'s torrent_storage \<Rightarrow> file_ops \<Rightarrow> nat \<Rightarrow> socket_addr \<Rightarrow> piece \<Rightarrow> chunk_info \<Rightarrow> piece_tracker \<times> 's \<Rightarrow>
    (write_outcome, file_error) rust \<times> piece_tracker \<times> 's" where
  "write_block S fo now addr p chunk_info = (\<lambda>(pt, s).
     case get_inflight (ci_piece_index chunk_info) pt of
       None \<Rightarrow> (Inr Dropped, pt, s)
     | Some inflight \<Rightarrow>
         if ip_peer inflight \<noteq> addr then (Inr Dropped, pt, s)
         else (case write_chunk S fo p chunk_info s of
                 (Inl e, s') \<Rightarrow> (Inl e, pt, s')
               | (Inr _, s') \<Rightarrow>
                   (case write_to_disk now addr p chunk_info pt of
                      Inl _ \<Rightarrow> (Inl Panic, pt, s')
                    | Inr (outcome, pt') \<Rightarrow> (Inr outcome, pt', s'))))"

text \<open>The operations of the piece tracker that neither write blocks nor check hashes.\<close>

inductive idle_step :: "file_info list \<Rightarrow> tracker_state \<Rightarrow> tracker_state \<Rightarrow> bool" for fis where
  acquire: "acquire_piece scale now req (ts_pt ts) = Inr (result, pt') \<Longrightarrow> aq_file_infos req = fis \<Longrightarrow>
     \<forall>p \<in> set (aq_priority_pieces req). valid_index (ct_lengths (ts_ct ts)) p \<Longrightarrow>
     set (aq_priority_pieces req) \<inter> set_mset (ts_checking ts) = {} \<Longrightarrow>
     idle_step fis ts (ts\<lparr> ts_pt := pt' \<rparr>)"
| release: "release_pieces_owned_by peer (ts_pt ts) = Inr (n, pt') \<Longrightarrow> idle_step fis ts (ts\<lparr> ts_pt := pt' \<rparr>)"
| only_files: "pt_update_only_files fis only (ts_pt ts) = Inr (h, pt') \<Longrightarrow>
     \<forall>i \<in> inflight_keys (ts_pt ts) \<union> set_mset (ts_checking ts).
        ct_selected (pt_chunks pt') ! unat (vpi_get i) \<longrightarrow> ct_selected (ts_ct ts) ! unat (vpi_get i) \<Longrightarrow>
     idle_step fis ts (ts\<lparr> ts_pt := pt' \<rparr>)"
| file_have: "pt_update_file_have i file_id (fis ! file_id) (ts_pt ts) = Inr (r, pt') \<Longrightarrow> file_id < length fis \<Longrightarrow>
     idle_step fis ts (ts\<lparr> ts_pt := pt' \<rparr>)"

lemma idle_is_step: "idle_step fis ts ts' \<Longrightarrow> ts_step True fis ts ts' \<and> ts_checking ts' = ts_checking ts"
  by (induction rule: idle_step.induct) (auto intro: ts_step.intros)

section \<open>Runs\<close>

text \<open>\<open>dl_results\<close> holds the hash checks that are done and not yet acted on.\<close>

record download =
  dl_ts :: tracker_state
  dl_files :: opened_mmaps
  dl_results :: "(valid_piece_index \<times> bool) set"

inductive download_step :: "(bytes \<Rightarrow> bytes) \<Rightarrow> file_ops \<Rightarrow> download \<Rightarrow> download \<Rightarrow> bool" for sha1 fo where
  idle: "idle_step (fo_file_infos fo) (dl_ts d) ts' \<Longrightarrow> download_step sha1 fo d (d\<lparr> dl_ts := ts' \<rparr>)"
| block: "write_block mmap_storage fo now addr p ci (ts_pt (dl_ts d), dl_files d) = (Inr outcome, pt', s') \<Longrightarrow>
     chunk_info_from_received_data (fo_lengths fo) (ValidPieceIndex (pc_index p)) (pc_begin p) (of_nat (pc_len p)) = Some ci \<Longrightarrow>
     valid_index (fo_lengths fo) (ValidPieceIndex (pc_index p)) \<Longrightarrow> pc_len p < 2 ^ 32 \<Longrightarrow>
     download_step sha1 fo d (d\<lparr> dl_ts := \<lparr> ts_pt = pt',
         ts_checking = (case outcome of CheckHash _ \<Rightarrow> add_mset (ci_piece_index ci) (ts_checking (dl_ts d)) | _ \<Rightarrow> ts_checking (dl_ts d)) \<rparr>,
       dl_files := s' \<rparr>)"
| checked: "i \<in># ts_checking (dl_ts d) \<Longrightarrow> i \<notin> fst ` dl_results d \<Longrightarrow>
     check_piece sha1 mmap_storage fo i (dl_files d) = Inr b \<Longrightarrow>
     download_step sha1 fo d (d\<lparr> dl_results := insert (i, b) (dl_results d) \<rparr>)"
| hash_ok: "(i, True) \<in> dl_results d \<Longrightarrow> mark_piece_hash_ok i (ts_pt (dl_ts d)) = Inr pt' \<Longrightarrow>
     download_step sha1 fo d (d\<lparr> dl_ts := \<lparr> ts_pt = pt', ts_checking = ts_checking (dl_ts d) - {#i#} \<rparr>,
       dl_results := dl_results d - {(i, True)} \<rparr>)"
| hash_failed: "(i, False) \<in> dl_results d \<Longrightarrow> mark_piece_hash_failed i (ts_pt (dl_ts d)) = Inr pt' \<Longrightarrow>
     download_step sha1 fo d (d\<lparr> dl_ts := \<lparr> ts_pt = pt', ts_checking = ts_checking (dl_ts d) - {#i#} \<rparr>,
       dl_results := dl_results d - {(i, False)} \<rparr>)"

text \<open>A download starts with the check of what the files hold.\<close>

inductive download_run :: "(bytes \<Rightarrow> bytes) \<Rightarrow> file_ops \<Rightarrow> download \<Rightarrow> bool" for sha1 fo where
  start: "mmap_ok (fo_file_infos fo) s \<Longrightarrow> initial_check sha1 (\<lambda>_. False) mmap_storage fo progress s = Inr (hv, progress') \<Longrightarrow>
     ct_new hv sel (fo_lengths fo) (fo_file_infos fo) = Inr ct \<Longrightarrow>
     download_run sha1 fo \<lparr> dl_ts = \<lparr> ts_pt = pt_new ct, ts_checking = {#} \<rparr>, dl_files = s, dl_results = {} \<rparr>"
| step: "download_run sha1 fo d \<Longrightarrow> download_step sha1 fo d d' \<Longrightarrow> download_run sha1 fo d'"

section \<open>Invariant\<close>

definition verified_good :: "(bytes \<Rightarrow> bytes) \<Rightarrow> file_ops \<Rightarrow> download \<Rightarrow> bool" where
  "verified_good sha1 fo d \<longleftrightarrow>
     (\<forall>k < piece_count (fo_lengths fo). ct_have (ts_ct (dl_ts d)) ! k \<or> (vpi_of k, True) \<in> dl_results d \<longrightarrow>
        check_piece sha1 mmap_storage fo (vpi_of k) (dl_files d) = Inr True)
     \<and> fst ` dl_results d \<subseteq> set_mset (ts_checking (dl_ts d)) \<and> inj_on fst (dl_results d)"

lemma have_from_checking: "piece_step strict v v' \<Longrightarrow> pv_have v' \<Longrightarrow> pv_have v \<or> pv_checking v' < pv_checking v"
  by (induction rule: piece_step.induct) auto

text \<open>The check of a piece depends only on the chunks of the piece.\<close>

lemma check_piece_frame:
  assumes fo: "file_ops_ok fo" and s: "mmap_ok (fo_file_infos fo) s" "mmap_ok (fo_file_infos fo) s'" and i: "valid_index (fo_lengths fo) i"
    and same: "\<And>ci. ci \<in> set (iter_chunk_infos (fo_lengths fo) i) \<Longrightarrow>
      take (unat (ci_size ci)) (drop (chunk_start (fo_lengths fo) ci) (mm.bytes_of fo s'))
      = take (unat (ci_size ci)) (drop (chunk_start (fo_lengths fo) ci) (mm.bytes_of fo s))"
  shows "check_piece sha1 mmap_storage fo i s' = check_piece sha1 mmap_storage fo i s"
proof -
  have wf: "wf_lengths (fo_lengths fo)" using fo by (simp add: file_ops_ok_def)
  have "piece_slice (fo_lengths fo) (unat (vpi_get i)) (mm.bytes_of fo s') = piece_slice (fo_lengths fo) (unat (vpi_get i)) (mm.bytes_of fo s)"
    unfolding piece_slice_chunks [OF wf i mm.bytes_of_length [OF fo s(1)]] piece_slice_chunks [OF wf i mm.bytes_of_length [OF fo s(2)]]
    using same by (intro arg_cong [of _ _ concat] map_cong) auto
  then show ?thesis unfolding mm.check_piece_ok [OF fo s(1) i] mm.check_piece_ok [OF fo s(2) i] by simp
qed

lemma write_block_effect:
  assumes fo: "file_ops_ok fo" and s: "mmap_ok (fo_file_infos fo) s"
    and ci: "chunk_info_from_received_data (fo_lengths fo) (ValidPieceIndex (pc_index p)) (pc_begin p) (of_nat (pc_len p)) = Some ci"
    and i: "valid_index (fo_lengths fo) (ValidPieceIndex (pc_index p))" and len: "pc_len p < 2 ^ 32"
    and run: "write_block mmap_storage fo now addr p ci (pt, s) = (Inr outcome, pt', s')"
  shows "write_to_disk now addr p ci pt = Inr (outcome, pt')" "ci_piece_index ci = ValidPieceIndex (pc_index p)"
    "mmap_ok (fo_file_infos fo) s'"
    "s' = s \<or> ci_piece_index ci \<in> inflight_keys pt"
    "\<And>j. valid_index (fo_lengths fo) j \<Longrightarrow> j \<noteq> ci_piece_index ci \<Longrightarrow>
       check_piece sha1 mmap_storage fo j s' = check_piece sha1 mmap_storage fo j s"
proof -
  let ?l = "fo_lengths fo" and ?i = "ValidPieceIndex (pc_index p)"
  have wf: "wf_lengths ?l" using fo by (simp add: file_ops_ok_def)
  have in_piece: "ci \<in> set (iter_chunk_infos ?l ?i)" and size: "ci_size ci = of_nat (pc_len p)"
    using received_data_iff [OF wf i] ci by auto
  show idx: "ci_piece_index ci = ?i" using chunk_piece [OF wf i in_piece] .
  have chunk: "is_chunk ?l ci" using in_piece i idx by (simp add: is_chunk_def)
  have n: "pc_len p = unat (ci_size ci)" using size len by (simp add: unat_of_nat)
  obtain s1 where w: "write_chunk mmap_storage fo p ci s = (Inr (), s1)" "mmap_ok (fo_file_infos fo) s1"
      "\<forall>cj. is_chunk ?l cj \<longrightarrow> cj \<noteq> ci \<longrightarrow>
         take (unat (ci_size cj)) (drop (chunk_start ?l cj) (mm.bytes_of fo s1))
         = take (unat (ci_size cj)) (drop (chunk_start ?l cj) (mm.bytes_of fo s))"
    using mm.write_chunk_effect [OF fo s chunk n] by blast
  have cases: "(get_inflight (ci_piece_index ci) pt = None \<or> (\<exists>inf. get_inflight (ci_piece_index ci) pt = Some inf \<and> ip_peer inf \<noteq> addr))
        \<and> outcome = Dropped \<and> pt' = pt \<and> s' = s
      \<or> (\<exists>inf. get_inflight (ci_piece_index ci) pt = Some inf) \<and> write_to_disk now addr p ci pt = Inr (outcome, pt') \<and> s' = s1"
    using run w(1) by (auto simp: write_block_def split: option.splits if_splits sum.splits)
  show "write_to_disk now addr p ci pt = Inr (outcome, pt')" using cases by (auto simp: write_to_disk_def)
  show "mmap_ok (fo_file_infos fo) s'" using cases s w(2) by auto
  show "s' = s \<or> ci_piece_index ci \<in> inflight_keys pt"
    using cases by (auto simp: get_inflight_def dest: map_of_SomeD intro: rev_image_eqI)
  fix j assume j: "valid_index ?l j" "j \<noteq> ci_piece_index ci"
  have "check_piece sha1 mmap_storage fo j s1 = check_piece sha1 mmap_storage fo j s"
  proof (rule check_piece_frame [OF fo s w(2) j(1)])
    fix cj assume cj: "cj \<in> set (iter_chunk_infos ?l j)"
    have "ci_piece_index cj = j" using chunk_piece [OF wf j(1) cj] .
    then have "is_chunk ?l cj" "cj \<noteq> ci" using cj j by (auto simp: is_chunk_def)
    then show "take (unat (ci_size cj)) (drop (chunk_start ?l cj) (mm.bytes_of fo s1))
        = take (unat (ci_size cj)) (drop (chunk_start ?l cj) (mm.bytes_of fo s))" using w(3) by blast
  qed
  then show "check_piece sha1 mmap_storage fo j s' = check_piece sha1 mmap_storage fo j s" using cases by auto
qed

text \<open>Acting on a result takes the piece out of the pieces being checked.\<close>

lemma results_taken:
  assumes "inj_on fst R" "fst ` R \<subseteq> set_mset M" "(i, b) \<in> R"
  shows "inj_on fst (R - {(i, b)})" "fst ` (R - {(i, b)}) \<subseteq> set_mset (M - {#i#})"
proof -
  show "inj_on fst (R - {(i, b)})" using assms(1) by (rule inj_on_diff)
  show "fst ` (R - {(i, b)}) \<subseteq> set_mset (M - {#i#})"
  proof
    fix j assume "j \<in> fst ` (R - {(i, b)})"
    then obtain r where r: "r \<in> R" "r \<noteq> (i, b)" "fst r = j" by auto
    have "j \<noteq> i" using inj_onD [OF assms(1), of r "(i, b)"] r assms(3) by auto
    then show "j \<in># M - {#i#}" using r assms(2) by (auto simp: in_diff_count count_eq_zero_iff)
  qed
qed

lemma verified_good_step:
  assumes fo: "file_ops_ok fo" and files: "\<forall>fi \<in> set (fo_file_infos fo). file_ok (fo_lengths fo) fi"
    and reach: "ts_reachable True (fo_lengths fo) (fo_file_infos fo) (dl_ts d)" and s: "mmap_ok (fo_file_infos fo) (dl_files d)"
    and good: "verified_good sha1 fo d" and st: "download_step sha1 fo d d'"
  shows "ts_reachable True (fo_lengths fo) (fo_file_infos fo) (dl_ts d') \<and> mmap_ok (fo_file_infos fo) (dl_files d') \<and> verified_good sha1 fo d'"
proof -
  let ?l = "fo_lengths fo" and ?fis = "fo_file_infos fo"
  have wf: "wf_lengths ?l" using fo by (simp add: file_ops_ok_def)
  have results: "fst ` dl_results d \<subseteq> set_mset (ts_checking (dl_ts d))" "inj_on fst (dl_results d)"
    and ok: "\<And>k. k < piece_count ?l \<Longrightarrow> ct_have (ts_ct (dl_ts d)) ! k \<or> (vpi_of k, True) \<in> dl_results d \<Longrightarrow>
       check_piece sha1 mmap_storage fo (vpi_of k) (dl_files d) = Inr True"
    using good by (auto simp: verified_good_def)
  have have_step: "ct_have (ts_ct ts') ! k \<Longrightarrow> ct_have (ts_ct (dl_ts d)) ! k \<or> count (ts_checking ts') (vpi_of k) < count (ts_checking (dl_ts d)) (vpi_of k)"
    if "ts_step True ?fis (dl_ts d) ts'" "k < piece_count ?l" for ts' k
    using ts_step_simulates [OF that(1) ts_reachable_shape [OF reach wf files] files] that(2)
      have_from_checking [of True "view (dl_ts d) k" "view ts' k"] by (auto simp: view_def)
  have excl: "pv_exclusive (view (dl_ts d) k)" if "k < piece_count ?l" for k
    using ts_reachable_view(2) [OF reach wf files that] by simp
  show ?thesis
    using st
  proof cases
    case (idle ts')
    note I = idle_is_step [OF idle(2)]
    have "ct_have (ts_ct ts') ! k \<Longrightarrow> ct_have (ts_ct (dl_ts d)) ! k" if "k < piece_count ?l" for k
      using have_step [OF conjunct1 [OF I] that] I by simp
    then show ?thesis using I reach s results ok idle(1) ts_reachable.step by (auto simp: verified_good_def)
  next
    case (block now addr p ci outcome pt' s')
    note E = write_block_effect [OF fo s block(3,4,5,2)]
    let ?ts = "\<lparr> ts_pt = pt', ts_checking = (case outcome of CheckHash _ \<Rightarrow> add_mset (ci_piece_index ci) (ts_checking (dl_ts d)) | _ \<Rightarrow> ts_checking (dl_ts d)) \<rparr>"
    have w: "ts_step True ?fis (dl_ts d) ?ts" by (rule ts_step.wrote [OF E(1) block(5) E(2)])
    have sub: "ts_checking (dl_ts d) \<subseteq># ts_checking ?ts" by (simp split: write_outcome.splits)
    have chk: "check_piece sha1 mmap_storage fo (vpi_of k) s' = Inr True"
      if k: "k < piece_count ?l" and h: "ct_have (ts_ct ?ts) ! k \<or> (vpi_of k, True) \<in> dl_results d" for k
    proof -
      have h': "ct_have (ts_ct (dl_ts d)) ! k \<or> (vpi_of k, True) \<in> dl_results d"
        using h have_step [OF w k] mset_subset_eq_count [OF sub, of "vpi_of k"] by auto
      show ?thesis
      proof (cases "vpi_of k = ci_piece_index ci")
        case True
        have "vpi_of k \<notin> inflight_keys (ts_pt (dl_ts d))"
          using h' excl [OF k] results by (auto simp: pv_exclusive_def view_def)
        then have "s' = dl_files d" using E(4) True by auto
        then show ?thesis using ok [OF k h'] by simp
      next
        case False
        then show ?thesis using E(5) [of "vpi_of k"] iter_piece_infos_nth(3) [OF wf k] ok [OF k h'] by simp
      qed
    qed
    have "set_mset (ts_checking (dl_ts d)) \<subseteq> set_mset (ts_checking ?ts)" using sub by (rule set_mset_mono)
    then show ?thesis using ts_reachable.step [OF reach w] E(3) chk results unfolding block(1) verified_good_def by auto
  next
    case (checked i b)
    then show ?thesis using reach s results ok by (auto simp: verified_good_def)
  next
    case (hash_ok i pt')
    let ?ts = "\<lparr> ts_pt = pt', ts_checking = ts_checking (dl_ts d) - {#i#} \<rparr>"
    have i: "i \<in># ts_checking (dl_ts d)" using hash_ok(2) results by force
    have w: "ts_step True ?fis (dl_ts d) ?ts" by (rule ts_step.hash_ok [OF i hash_ok(3)])
    have "ct_have (ts_ct (dl_ts d)) ! k \<or> (vpi_of k, True) \<in> dl_results d" if "k < piece_count ?l" "ct_have (ts_ct ?ts) ! k" for k
      using have_step [OF w that] hash_ok(2) by (cases "vpi_of k = i") auto
    then show ?thesis using ts_reachable.step [OF reach w] s ok results_taken [OF results(2,1) hash_ok(2)]
      unfolding hash_ok(1) verified_good_def by auto
  next
    case (hash_failed i pt')
    let ?ts = "\<lparr> ts_pt = pt', ts_checking = ts_checking (dl_ts d) - {#i#} \<rparr>"
    have i: "i \<in># ts_checking (dl_ts d)" using hash_failed(2) results by force
    have w: "ts_step True ?fis (dl_ts d) ?ts" by (rule ts_step.hash_failed [OF i hash_failed(3)])
    have "ct_have (ts_ct ?ts) = ct_have (ts_ct (dl_ts d))"
      using hash_failed(3) by (auto simp: mark_piece_hash_failed_def mark_piece_broken_if_not_have_def Let_def rbind_eq_Inr split: if_splits)
    then show ?thesis using ts_reachable.step [OF reach w] s ok results_taken [OF results(2,1) hash_failed(2)]
      unfolding hash_failed(1) verified_good_def by auto
  qed
qed

lemma download_run_good:
  assumes fo: "file_ops_ok fo" and files: "\<forall>fi \<in> set (fo_file_infos fo). file_ok (fo_lengths fo) fi"
    and ps: "fo_pieces fo = Some ps" "20 * piece_count (fo_lengths fo) \<le> length ps" and run: "download_run sha1 fo d"
  shows "ts_reachable True (fo_lengths fo) (fo_file_infos fo) (dl_ts d) \<and> mmap_ok (fo_file_infos fo) (dl_files d) \<and> verified_good sha1 fo d"
  using run
proof induction
  case (start s progress hv progress' sel ct)
  let ?l = "fo_lengths fo" and ?ts = "\<lparr> ts_pt = pt_new ct, ts_checking = {#} \<rparr>"
  have wf: "wf_lengths ?l" using fo by (simp add: file_ops_ok_def)
  have hv: "length hv = 8 * piece_bitfield_bytes ?l"
    "\<And>j. j < length hv \<Longrightarrow> hv ! j \<longleftrightarrow> j < piece_count ?l \<and> take 20 (drop (j * 20) ps) = sha1 (piece_slice ?l j (mm.bytes_of fo s))"
    using mm.initial_check_ok [OF fo start(1) ps, of sha1 progress] start(2) by auto
  have "check_piece sha1 mmap_storage fo (vpi_of k) s = Inr True" if k: "k < piece_count ?l" "ct_have ct ! k" for k
  proof -
    have "view ?ts k = \<lparr> pv_sel = sel ! k, pv_have = hv ! k, pv_queue = (sel ! k \<and> \<not> hv ! k), pv_complete = hv ! k, pv_inflight = False, pv_checking = 0 \<rparr>"
      by (rule ts_start(2) [OF start(3) hv(1) wf files k(1)])
    then have "hv ! k" using k(2) by (simp add: view_def pt_new_def)
    then show ?thesis using hv(2) [of k] k(1) piece_bits [OF wf] hv(1) check_piece_true_iff [OF fo start(1) ps k(1)] by simp
  qed
  then show ?case using ts_reachable.start [OF start(3) hv(1)] start(1) by (simp add: verified_good_def pt_new_def)
next
  case (step d d')
  then show ?case using verified_good_step [OF fo files] by blast
qed

text \<open>A run on the torrent of two files whose first piece is there, with a hash that keeps the first 20 bytes.\<close>

definition sample_hash :: "bytes \<Rightarrow> bytes" where
  "sample_hash b = take 20 (b @ replicate 20 0)"

lemma sample_run: "\<exists>d. download_run sample_hash two_files d \<and> ct_have (ts_ct (dl_ts d)) ! 0"
proof -
  let ?h = "\<lambda>b. take 20 (b @ replicate 20 (0 :: u8))" and ?s = "[[10, 11, 12], [13, 5]] :: bytes list" and ?l = "fo_lengths two_files"
  have ok: "mmap_ok (fo_file_infos two_files) ?s" by (auto simp: mmap_ok_def two_files_def Let_def less_Suc_eq)
  have b: "mm.bytes_of two_files ?s = [10, 11, 12, 13, 5]"
    by (simp add: mm.bytes_of_def two_files_def file_bytes_def Let_def)
  have n: "piece_count ?l = 2" "piece_bitfield_bytes ?l = 1"
    by (simp_all add: two_files_def piece_count_def nceil_def piece_bitfield_bytes_def total_pieces_def div_ceil_def)
  have files: "\<forall>fi \<in> set (fo_file_infos two_files). file_ok ?l fi"
    by (simp add: two_files_def Let_def file_ok_def) code_simp
  have wf: "wf_lengths ?l" using two_files_ok(1) by (simp add: file_ops_ok_def)
  have p: "piece_slice ?l 0 [10, 11, 12, 13, 5] = [10, 11, 12, 13]" by (simp add: piece_slice_def piece_bytes_def two_files_def)
  obtain hv where hv: "initial_check ?h (\<lambda>_. False) mmap_storage two_files 0 ?s = Inr (hv, 0 + ln_total_length ?l)" "length hv = 8" "hv ! 0"
    using mm.initial_check_ok [OF two_files_ok(1) ok two_files_ok(3,4), of ?h 0] n p unfolding b by auto
  obtain ct where ct: "ct_new hv (replicate 8 True) ?l (fo_file_infos two_files) = Inr ct" "ct_have ct = hv"
    using ct_new_spec [OF wf _ _ files, of hv "replicate 8 True"] hv(2) n by auto
  let ?d = "\<lparr> dl_ts = \<lparr> ts_pt = pt_new ct, ts_checking = {#} \<rparr>, dl_files = ?s, dl_results = {} \<rparr>"
  have run: "download_run ?h two_files ?d" by (rule download_run.start [OF ok hv(1) ct(1)])
  have h: "ct_have (ts_ct (dl_ts ?d)) ! 0" using ct(2) hv(3) by (simp add: pt_new_def)
  show ?thesis using run h unfolding sample_hash_def by blast
qed

end
