(* ===== verification/Metainfo_Correct.thy ===== *)
theory Metainfo_Correct
  imports Metainfo Data_Integrity
begin

text \<open>
  What validation guarantees: which descriptions it accepts, that the files it admits have distinct names and lie
  next to each other in the torrent, and that the files and their storage then satisfy what the chunk tracker and
  the file operations need.
\<close>

text \<open>\<^verbatim>\<open>FileOps::new\<close>\<close>

definition FileOps_new :: "validated_info \<Rightarrow> file_info list \<Rightarrow> file_ops" where
  "FileOps_new torrent file_infos =
     \<lparr> fo_lengths = vi_lengths torrent, fo_pieces = mi_pieces (vi_info torrent), fo_file_infos = file_infos \<rparr>"

section \<open>Validation\<close>

definition part_ok :: "bytes \<Rightarrow> bool" where
  "part_ok part \<longleftrightarrow> part \<noteq> dot_dot \<and> slash \<notin> set part \<and> 92 \<notin> set part"

definition name_ok :: "file_details \<Rightarrow> bool" where
  "name_ok fd \<longleftrightarrow> iter_components_bytes (fd_filename fd) \<noteq> [] \<and> (\<forall>part \<in> set (iter_components_bytes (fd_filename fd)). part_ok part)"

lemma check_part_iff: "check_part part = Inr u \<longleftrightarrow> part_ok part"
  by (auto simp: check_part_def part_ok_def)

lemma check_parts_iff:
  "rfold (\<lambda>_ part. rbind (check_part part) (\<lambda>_. Inr True)) b parts = Inr r
     \<longleftrightarrow> (\<forall>part \<in> set parts. part_ok part) \<and> r = (b \<or> parts \<noteq> [])"
  by (induction parts arbitrary: b) (auto simp: rbind_eq_Inr check_part_iff)

lemma check_file_name_iff: "check_file_name n fd = Inr m \<longleftrightarrow> name_ok fd \<and> m = Suc n"
  by (auto simp: check_file_name_def name_ok_def rbind_eq_Inr check_parts_iff)

lemma check_file_names_iff: "rfold check_file_name n ds = Inr m \<longleftrightarrow> (\<forall>d \<in> set ds. name_ok d) \<and> m = n + length ds"
  by (induction ds arbitrary: n) (auto simp: rbind_eq_Inr check_file_name_iff)

text \<open>The set of file names grows with every file exactly when no two files have the same path.\<close>

abbreviation path_of :: "file_details \<Rightarrow> path_buf" where
  "path_of fd \<equiv> to_pathbuf (fd_filename fd)"

lemma insert_filenames:
  assumes "distinct (map components u)" and "rfold insert_filename u ds = Inr u'"
  shows "(\<forall>d \<in> set ds. path_of d \<noteq> []) \<and> distinct (map components u')
    \<and> components ` set u' = components ` (set u \<union> path_of ` set ds)"
  using assms
proof (induction ds arbitrary: u)
  case (Cons d ds)
  obtain u1 where u1: "insert_filename u d = Inr u1" "rfold insert_filename u1 ds = Inr u'"
    using Cons.prems(2) by (auto simp: rbind_eq_Inr)
  have d: "path_of d \<noteq> []" "distinct (map components u1)" "components ` set u1 = insert (components (path_of d)) (components ` set u)"
    using u1(1) Cons.prems(1) by (auto simp: insert_filename_def Let_def split: if_splits)
  show ?case using Cons.IH [OF d(2) u1(2)] d(1,3) by auto
qed simp

lemma insert_filenames_total:
  "\<forall>d \<in> set ds. path_of d \<noteq> [] \<Longrightarrow> \<exists>u'. rfold insert_filename u ds = Inr u'"
  by (induction ds arbitrary: u) (auto simp: insert_filename_def Let_def)

lemma unique_filenames_iff:
  "(\<exists>u. rfold insert_filename [] ds = Inr u \<and> length u = length ds)
     \<longleftrightarrow> (\<forall>d \<in> set ds. path_of d \<noteq> []) \<and> distinct (map (components \<circ> path_of) ds)"
proof -
  have card: "length u = card (set (map (components \<circ> path_of) ds))" if "rfold insert_filename [] ds = Inr u" for u
  proof -
    have "distinct (map components u)" "components ` set u = components ` path_of ` set ds"
      using insert_filenames [OF _ that] by simp_all
    then show ?thesis using distinct_card [of "map components u"] by (simp add: image_image comp_def)
  qed
  have dist: "card (set xs) = length xs \<longleftrightarrow> distinct xs" for xs :: "component list list"
    using distinct_card card_distinct by blast
  note dist' = dist [of "map (components \<circ> path_of) ds", unfolded length_map]
  show ?thesis
  proof
    assume "\<exists>u. rfold insert_filename [] ds = Inr u \<and> length u = length ds"
    then obtain u where u: "rfold insert_filename [] ds = Inr u" "length u = length ds" by blast
    then show "(\<forall>d \<in> set ds. path_of d \<noteq> []) \<and> distinct (map (components \<circ> path_of) ds)"
      using insert_filenames [OF _ u(1)] card [OF u(1)] dist' by simp
  next
    assume r: "(\<forall>d \<in> set ds. path_of d \<noteq> []) \<and> distinct (map (components \<circ> path_of) ds)"
    then obtain u where "rfold insert_filename [] ds = Inr u" using insert_filenames_total by blast
    then show "\<exists>u. rfold insert_filename [] ds = Inr u \<and> length u = length ds" using card dist' r by auto
  qed
qed

lemma details_encoding: "(\<exists>ds. iter_file_details_raw e info = Inr ds) \<longleftrightarrow> (\<exists>ds. iter_file_details_raw e' info = Inr ds)"
  by (auto simp: iter_file_details_raw_def split: option.splits if_splits)

lemma details_nonempty: "iter_file_details_raw e info = Inr ds \<Longrightarrow> ds \<noteq> []"
  by (auto simp: iter_file_details_raw_def split: option.splits if_splits)

lemma details_lens:
  "iter_file_details_raw e info = Inr ds \<Longrightarrow> iter_file_details_raw e' info = Inr ds' \<Longrightarrow> map fd_len ds = map fd_len ds'"
  by (auto simp: iter_file_details_raw_def split: option.splits if_splits)

lemma details_name_encoding: "iter_file_details_raw e info = Inr ds \<Longrightarrow> d \<in> set ds \<Longrightarrow> fn_encoding (fd_filename d) = e"
  by (auto simp: iter_file_details_raw_def split: option.splits if_splits)

lemma validate_accepts_iff:
  "validate guess info = Inr v \<longleftrightarrow>
     has_v1_pieces info \<and> Lengths_from_torrent info = Inr (vi_lengths v) \<and> vi_info v = info \<and> vi_encoding v = detect_encoding guess info
     \<and> (\<exists>ds. iter_file_details_raw (vi_encoding v) info = Inr ds \<and> (\<forall>d \<in> set ds. name_ok d \<and> path_of d \<noteq> [])
          \<and> distinct (map (components \<circ> path_of) ds))"
  (is "_ \<longleftrightarrow> ?R")
proof
  assume a: "validate guess info = Inr v"
  obtain l ds u where r: "has_v1_pieces info" "Lengths_from_torrent info = Inr l"
      "v = \<lparr> vi_encoding = detect_encoding guess info, vi_lengths = l, vi_info = info \<rparr>"
      "iter_file_details_raw (detect_encoding guess info) info = Inr ds" "\<forall>d \<in> set ds. name_ok d"
      "rfold insert_filename [] ds = Inr u" "length u = length ds"
    using a by (auto simp: validate_def Let_def rbind_eq_Inr check_file_names_iff iter_file_details_def split: if_splits)
  then show ?R using unique_filenames_iff [of ds] by auto
next
  assume R: ?R
  then obtain ds where ds: "iter_file_details_raw (vi_encoding v) info = Inr ds" "\<forall>d \<in> set ds. name_ok d \<and> path_of d \<noteq> []"
      "distinct (map (components \<circ> path_of) ds)" by blast
  obtain u where "rfold insert_filename [] ds = Inr u" "length u = length ds" using ds unique_filenames_iff [of ds] by auto
  moreover have "rfold check_file_name 0 ds = Inr (length ds)" using ds(2) by (simp add: check_file_names_iff)
  ultimately show "validate guess info = Inr v"
    using R ds(1) details_nonempty [OF ds(1)] by (cases v) (simp add: validate_def Let_def iter_file_details_def)
qed

section \<open>The layout of the files\<close>

lemma scan_layout:
  assumes wf: "wf_lengths l" and fit: "unat a + sum_list (map (\<lambda>d. unat (fd_len d)) ds) \<le> unat (ln_total_length l)"
  shows "\<exists>xs. file_details_scan l a ds = Inr xs \<and> map fx_details xs = ds
    \<and> (\<forall>x \<in> set xs. file_ok l (file_info_of x))
    \<and> (\<forall>i < length xs. unat (fx_offset (xs ! i)) = unat a + sum_list (map (\<lambda>d. unat (fd_len d)) (take i ds)))"
  using fit
proof (induction ds arbitrary: a)
  case (Cons d ds)
  have T: "unat (ln_total_length l) < 2 ^ 64" using unsigned_less [of "ln_total_length l"] by simp
  have s: "unat a + unat (fd_len d) \<le> unat (ln_total_length l)" using Cons.prems by simp
  then have u: "unat (a + fd_len d) = unat a + unat (fd_len d)"
    using T by (intro unat_add_lem [THEN iffD1]) simp
  obtain p where p: "iter_pieces_within_offset l a (fd_len d) = Inr p"
    using iter_pieces_within_offset_nat [OF wf, of a "fd_len d"] s T by auto
  obtain xs where xs: "file_details_scan l (a + fd_len d) ds = Inr xs" "map fx_details xs = ds" "\<forall>x \<in> set xs. file_ok l (file_info_of x)"
      "\<forall>i < length xs. unat (fx_offset (xs ! i)) = unat (a + fd_len d) + sum_list (map (\<lambda>d. unat (fd_len d)) (take i ds))"
    using Cons.IH [of "a + fd_len d"] Cons.prems u by auto
  have "file_ok l (file_info_of \<lparr> fx_details = d, fx_offset = a, fx_pieces = p \<rparr>)"
    using s p by (simp add: file_ok_def file_end_def file_info_of_def)
  then show ?case using p xs u by (simp add: nth_Cons' take_Cons')
qed simp

lemma scan_details: "file_details_scan l a ds = Inr xs \<Longrightarrow> map fx_details xs = ds"
  by (induction ds arbitrary: a xs) (auto simp: rbind_eq_Inr split: sum.splits)

lemma map_file_info_of: "map fx_details xs = ds \<Longrightarrow> map (\<lambda>x. g (fx_details x)) xs = map g ds"
  by auto

text \<open>The metadata of an accepted torrent, whose total length does not wrap and whose pieces and chunks can be counted in 32 bits.\<close>

definition countable_info :: "torrent_meta_v1_info \<Rightarrow> bool" where
  "countable_info info \<longleftrightarrow>
     (case iter_file_details_raw (\<lambda>b. b) info of Inl _ \<Rightarrow> False
      | Inr ds \<Rightarrow>
          let T = sum_list (map (\<lambda>d. unat (fd_len d)) ds); P = unat (mi_piece_length info)
          in T < 2 ^ 64 \<and> nceil T P * nceil P 16384 < 2 ^ 32)"

lemma unat_sum_lens: "sum_list (map (\<lambda>d. unat (fd_len d)) ds) < 2 ^ 64 \<Longrightarrow> unat (sum_list (map fd_len ds)) = sum_list (map (\<lambda>d. unat (fd_len d)) ds)"
proof (induction ds)
  case (Cons d ds)
  then have "unat (sum_list (map fd_len ds)) = sum_list (map (\<lambda>d. unat (fd_len d)) ds)" by simp
  then show ?case using Cons.prems unat_add_lem [of "fd_len d" "sum_list (map fd_len ds)"] by simp
qed simp

lemma metadata_details:
  assumes v: "validate guess info = Inr v" and m: "TorrentMetadata_new v raw info_raw = Inr m"
  shows "\<exists>ds. iter_file_details_raw (vi_encoding v) info = Inr ds \<and> map fi_relative_filename (tm_file_infos m) = map path_of ds
    \<and> (\<forall>d \<in> set ds. name_ok d \<and> path_of d \<noteq> []) \<and> distinct (map (components \<circ> path_of) ds) \<and> ds \<noteq> []"
proof -
  obtain ds where ds: "iter_file_details_raw (vi_encoding v) info = Inr ds" "\<forall>d \<in> set ds. name_ok d \<and> path_of d \<noteq> []"
      "distinct (map (components \<circ> path_of) ds)" and info: "vi_info v = info"
    using v validate_accepts_iff by blast
  obtain xs where xs: "file_details_scan (vi_lengths v) 0 ds = Inr xs" "tm_file_infos m = map file_info_of xs"
    using m ds(1) info by (auto simp: TorrentMetadata_new_def iter_file_details_ext_def iter_file_details_def rbind_eq_Inr)
  have "map fi_relative_filename (tm_file_infos m) = map path_of ds"
    using map_file_info_of [OF scan_details [OF xs(1)], of path_of] by (simp add: xs(2) file_info_of_def comp_def)
  then show ?thesis using ds details_nonempty [OF ds(1)] by blast
qed

lemma metadata_ok:
  assumes v: "validate guess info = Inr v" and c: "countable_info info"
  shows "\<exists>m. TorrentMetadata_new v raw info_raw = Inr m \<and> tm_info m = v
    \<and> file_ops_ok (FileOps_new v (tm_file_infos m)) \<and> (\<forall>fi \<in> set (tm_file_infos m). file_ok (vi_lengths v) fi)
    \<and> (\<forall>i < length (tm_file_infos m). unat (fi_offset_in_torrent (tm_file_infos m ! i)) = total_bytes (take i (tm_file_infos m)))"
proof -
  obtain ds where ds: "iter_file_details_raw (vi_encoding v) info = Inr ds" and info: "vi_info v = info"
    and l: "Lengths_from_torrent info = Inr (vi_lengths v)" using v validate_accepts_iff by blast
  obtain ds' where ds': "iter_file_details_raw (\<lambda>b. b) info = Inr ds'" using details_encoding ds by blast
  have lens: "map fd_len ds' = map fd_len ds" by (rule details_lens [OF ds' ds])
  have "map (\<lambda>d. unat (fd_len d)) ds' = map unat (map fd_len ds')" by simp
  then have ulens: "map (\<lambda>d. unat (fd_len d)) ds' = map (\<lambda>d. unat (fd_len d)) ds" unfolding lens by simp
  let ?T = "sum_list (map (\<lambda>d. unat (fd_len d)) ds)"
  have T: "?T < 2 ^ 64" "nceil ?T (unat (mi_piece_length info)) * nceil (unat (mi_piece_length info)) 16384 < 2 ^ 32"
    using c by (simp_all add: countable_info_def ds' Let_def ulens)
  have new: "Lengths_new (sum_list (map fd_len ds)) (mi_piece_length info) = Inr (vi_lengths v)"
    using l by (simp add: Lengths_from_torrent_def ds' lens)
  have wf: "wf_lengths (vi_lengths v)" and tot: "ln_total_length (vi_lengths v) = sum_list (map fd_len ds)"
    using Lengths_new_wf(1,2) [OF new] T(2) unat_sum_lens [OF T(1)] by simp_all
  obtain xs where xs: "file_details_scan (vi_lengths v) 0 ds = Inr xs" "map fx_details xs = ds" "\<forall>x \<in> set xs. file_ok (vi_lengths v) (file_info_of x)"
      "\<forall>i < length xs. unat (fx_offset (xs ! i)) = sum_list (map (\<lambda>d. unat (fd_len d)) (take i ds))"
    using scan_layout [OF wf, of 0 ds] tot unat_sum_lens [OF T(1)] by auto
  have bytes: "total_bytes (map file_info_of ys) = sum_list (map (\<lambda>d. unat (fd_len d)) (map fx_details ys))" for ys
    by (simp add: total_bytes_def file_info_of_def comp_def)
  have "total_bytes (map file_info_of xs) = ?T" by (simp only: bytes xs(2))
  moreover have "total_bytes (take i (map file_info_of xs)) = sum_list (map (\<lambda>d. unat (fd_len d)) (take i ds))" for i
    unfolding take_map bytes xs(2) [symmetric] by (simp add: take_map)
  moreover have "unat (fi_offset_in_torrent (map file_info_of xs ! i)) = unat (fx_offset (xs ! i))" if "i < length xs" for i
    using that by (simp add: file_info_of_def)
  ultimately show ?thesis
    using xs ds info wf tot unat_sum_lens [OF T(1)]
    by (auto simp: TorrentMetadata_new_def iter_file_details_ext_def iter_file_details_def file_ops_ok_def FileOps_new_def)
qed

section \<open>Renaming\<close>

lemma see_path_iff: "see_path seen p = Inr r \<longleftrightarrow> components p \<notin> components ` set seen \<and> r = seen @ [p]"
  by (auto simp: see_path_def)

lemma see_paths:
  "rfold see_path seen paths = Inr r \<Longrightarrow> distinct (map components seen) \<Longrightarrow> distinct (map components (seen @ paths))"
proof (induction paths arbitrary: seen)
  case (Cons p ps)
  then have "components p \<notin> components ` set seen" "rfold see_path (seen @ [p]) ps = Inr r"
    by (auto simp: rbind_eq_Inr see_path_iff)
  then show ?case using Cons.IH [of "seen @ [p]"] Cons.prems(2) by simp
qed simp

lemma renamed_files: "tm_file_infos (with_renamed_files renames m) = foldl rename_file (tm_file_infos m) renames"
  by (simp add: with_renamed_files_def)

text \<open>Everything of a file but its name.\<close>

definition extent :: "file_info \<Rightarrow> u64 \<times> (u32 \<times> u32) \<times> file_attrs \<times> u64" where
  "extent fi = (fi_offset_in_torrent fi, fi_piece_range fi, fi_attrs fi, fi_len fi)"

lemma rename_file_extent: "map extent (rename_file fis r) = map extent fis"
  by (auto simp: rename_file_def map_update extent_def list_update_same_conv nth_map split: prod.splits
      intro!: list_update_same_conv [THEN iffD2])

lemma rename_files_extent: "map extent (foldl rename_file fis renames) = map extent fis"
  by (induction renames arbitrary: fis) (simp_all add: rename_file_extent)

lemma rename_path_iff:
  "rename_path fis paths (i, p) = Inr r \<longleftrightarrow> i < length fis \<and> p \<noteq> [] \<and> \<not> is_absolute p \<and> list_all is_normal (components p) \<and> r = paths[i := p]"
  by (auto simp: rename_path_def)

lemma rename_paths:
  "rfold (rename_path fis0) (map fi_relative_filename fis) renames = Inr paths \<Longrightarrow> length fis0 = length fis \<Longrightarrow>
   paths = map fi_relative_filename (foldl rename_file fis renames)
   \<and> (\<forall>(i, p) \<in> set renames. i < length fis \<and> list_all is_normal (components p))"
proof (induction renames arbitrary: fis)
  case (Cons r rs)
  obtain i p where r: "r = (i, p)" by (cases r)
  have ok: "i < length fis" "list_all is_normal (components p)"
      "rfold (rename_path fis0) ((map fi_relative_filename fis)[i := p]) rs = Inr paths"
    using Cons.prems unfolding r by (auto simp: rbind_eq_Inr rename_path_iff)
  have upd: "(map fi_relative_filename fis)[i := p] = map fi_relative_filename (rename_file fis r)"
    using ok(1) by (simp add: r rename_file_def map_update)
  have "length fis0 = length (rename_file fis r)" using Cons.prems(2) by (simp add: r rename_file_def)
  from Cons.IH [OF ok(3) [unfolded upd] this] show ?case using ok(1,2) by (auto simp: r rename_file_def)
qed simp

definition extent_within :: "lengths \<Rightarrow> u64 \<times> (u32 \<times> u32) \<times> file_attrs \<times> u64 \<Rightarrow> bool" where
  "extent_within l = (\<lambda>(off, pr, _, n). unat off + unat n \<le> unat (ln_total_length l) \<and> iter_pieces_within_offset l off n = Inr pr)"

lemma file_ok_extent: "file_ok l fi \<longleftrightarrow> extent_within l (extent fi)"
  by (simp add: extent_def extent_within_def file_ok_def file_end_def)

lemma extent_ok:
  assumes "map extent fis = map extent fis'"
  shows "total_bytes fis = total_bytes fis'" "(\<forall>fi \<in> set fis. file_ok l fi) \<longleftrightarrow> (\<forall>fi \<in> set fis'. file_ok l fi)"
proof -
  have "total_bytes xs = sum_list (map (\<lambda>e. unat (snd (snd (snd e)))) (map extent xs))" for xs
    by (simp add: total_bytes_def extent_def comp_def)
  note total = this [of fis] this [of fis']
  show "total_bytes fis = total_bytes fis'" unfolding total assms ..
  have "(\<forall>fi \<in> set xs. file_ok l fi) \<longleftrightarrow> (\<forall>e \<in> set (map extent xs). extent_within l e)" for xs
    by (simp add: file_ok_extent)
  note ok = this [of fis] this [of fis']
  show "(\<forall>fi \<in> set fis. file_ok l fi) \<longleftrightarrow> (\<forall>fi \<in> set fis'. file_ok l fi)" unfolding ok assms ..
qed

section \<open>Samples\<close>

text \<open>A description of files with the given paths and lengths in pieces of 4 bytes, with two piece hashes.\<close>

definition sample_info :: "(bytes list \<times> u64) list \<Rightarrow> torrent_meta_v1_info" where
  "sample_info files =
     \<lparr> mi_name = None, mi_pieces = Some ([10, 11, 12, 13] @ replicate 36 0), mi_piece_length = 4, mi_meta_version = None, mi_length = None,
       mi_attr = None, mi_sha1 = None, mi_symlink_path = None, mi_md5sum = None,
       mi_files = Some (map (\<lambda>(path, len). \<lparr> mf_length = len, mf_path = path, mf_attr = None, mf_sha1 = None, mf_symlink_path = None \<rparr>) files),
       mi_private = False \<rparr>"

lemma sample_details:
  "files \<noteq> [] \<Longrightarrow> iter_file_details_raw e (sample_info files) = Inr (map (\<lambda>(path, len). \<lparr> fd_filename = \<lparr> fn_encoding = e, fn_data = Tree path \<rparr>,
     fd_len = len, fd_attr = None, fd_sha1 = None, fd_symlink_path = None \<rparr>) files)"
  by (simp add: iter_file_details_raw_def sample_info_def split_def)

lemma sample_validate:
  assumes "files \<noteq> []" and "Lengths_new (sum_list (map snd files)) 4 = Inr l"
    and "\<forall>(path, _) \<in> set files. path \<noteq> [] \<and> (\<forall>part \<in> set path. part_ok part) \<and> foldl path_push [] (map e path) \<noteq> []"
    and "distinct (map (\<lambda>(path, _). components (foldl path_push [] (map e path))) files)"
  shows "validate (\<lambda>_. e) (sample_info files) = Inr \<lparr> vi_encoding = e, vi_lengths = l, vi_info = sample_info files \<rparr>"
proof -
  have "has_v1_pieces (sample_info files)" "detect_encoding (\<lambda>_. e) (sample_info files) = e" "mi_piece_length (sample_info files) = 4"
    by (simp_all add: has_v1_pieces_def detect_encoding_def sample_info_def)
  then show ?thesis
    using assms unfolding validate_accepts_iff
    by (simp add: sample_details Lengths_from_torrent_def name_ok_def iter_components_bytes_def to_pathbuf_def iter_components_def comp_def split_def)
qed

lemma sample_piece_length [simp]: "mi_piece_length (sample_info files) = 4"
  by (simp add: sample_info_def)

lemma sample_countable: "files \<noteq> [] \<Longrightarrow> sum_list (map (\<lambda>f. unat (snd f)) files) < 2 ^ 20 \<Longrightarrow> countable_info (sample_info files)"
  using div_le_dividend [of "\<Sum>f\<leftarrow>files. unat (snd f)" 4]
  by (auto simp: countable_info_def sample_details comp_def split_def nceil_def Let_def)

lemma sample_lengths_5: "Lengths_new 5 4 = Inr (fo_lengths two_files)"
  by (simp add: Lengths_new_def two_files_def div_ceil_def last_element_size_def Let_def CHUNK_SIZE_def)

definition plain_files :: "(bytes list \<times> u64) list" where
  "plain_files = [([[97]], 3), ([[98]], 2)]"

abbreviation plain_valid :: validated_info where
  "plain_valid \<equiv> \<lparr> vi_encoding = (\<lambda>b. b), vi_lengths = fo_lengths two_files, vi_info = sample_info plain_files \<rparr>"

abbreviation plain_torrent :: torrent_metadata where
  "plain_torrent \<equiv> \<lparr> tm_info = plain_valid, tm_torrent_bytes = [], tm_info_bytes = [], tm_file_infos = fo_file_infos two_files \<rparr>"

lemma plain_validated:
  "validate (\<lambda>_ b. b) (sample_info plain_files) = Inr plain_valid"
  "countable_info (sample_info plain_files)"
proof -
  show "countable_info (sample_info plain_files)" by (rule sample_countable) (simp_all add: plain_files_def)
  have "components (foldl path_push [] [[97]]) = [Normal [97]]" "components (foldl path_push [] [[98]]) = [Normal [98]]"
    by code_simp+
  then show "validate (\<lambda>_ b. b) (sample_info plain_files) = Inr plain_valid"
    using sample_lengths_5 by (intro sample_validate) (simp_all add: plain_files_def part_ok_def path_push_def is_absolute_def)
qed

lemma plain_metadata:
  "TorrentMetadata_new plain_valid [] [] =
     Inr plain_torrent"
  "FileOps_new plain_valid (fo_file_infos two_files) = two_files"
proof -
  have p: "iter_pieces_within_offset (fo_lengths two_files) 0 3 = Inr (0, 1)" "iter_pieces_within_offset (fo_lengths two_files) 3 2 = Inr (0, 2)"
    by code_simp+
  show "TorrentMetadata_new plain_valid [] [] =
     Inr plain_torrent"
    using p by (simp add: TorrentMetadata_new_def iter_file_details_ext_def iter_file_details_def sample_details plain_files_def file_info_of_def
        attrs_def default_attrs_def to_pathbuf_def iter_components_def iter_components_bytes_def path_push_def is_absolute_def two_files_def Let_def)
  show "FileOps_new plain_valid (fo_file_infos two_files) = two_files"
    by (simp add: FileOps_new_def sample_info_def two_files_def)
qed

section \<open>Properties\<close>

text \<open>
  C11: an accepted torrent is sound. When validation accepts a torrent whose length fits 64 bits and whose chunks
  can be counted in 32 bits, its metadata has at least one file, every file has a non-empty path, no two paths
  are equal, the files cover the torrent without gap or overlap and the pieces recorded for each file are the
  pieces that hold its bytes.
\<close>
theorem validated_torrent_is_sound:
  assumes v: "validate guess info = Inr v" and c: "countable_info info"
  shows "\<exists>m. TorrentMetadata_new v raw info_raw = Inr m
    \<and> (let fis = tm_file_infos m in
         fis \<noteq> [] \<and> (\<forall>fi \<in> set fis. fi_relative_filename fi \<noteq> []) \<and> distinct (map (components \<circ> fi_relative_filename) fis)
         \<and> sum_list (map (\<lambda>fi. unat (fi_len fi)) fis) = unat (ln_total_length (vi_lengths v))
         \<and> (\<forall>i < length fis. unat (fi_offset_in_torrent (fis ! i)) = sum_list (map (\<lambda>fi. unat (fi_len fi)) (take i fis)))
         \<and> (\<forall>fi \<in> set fis. file_ok (vi_lengths v) fi))"
proof -
  obtain m where m: "TorrentMetadata_new v raw info_raw = Inr m" "file_ops_ok (FileOps_new v (tm_file_infos m))"
      "\<forall>fi \<in> set (tm_file_infos m). file_ok (vi_lengths v) fi"
      "\<forall>i < length (tm_file_infos m). unat (fi_offset_in_torrent (tm_file_infos m ! i)) = total_bytes (take i (tm_file_infos m))"
    using metadata_ok [OF v c] by blast
  obtain ds where ds: "map fi_relative_filename (tm_file_infos m) = map path_of ds" "\<forall>d \<in> set ds. path_of d \<noteq> []"
      "distinct (map (components \<circ> path_of) ds)" "ds \<noteq> []" using metadata_details [OF v m(1)] by blast
  have "distinct (map (components \<circ> fi_relative_filename) (tm_file_infos m))"
    using ds(3) unfolding map_map [symmetric] ds(1) .
  moreover have "\<forall>p \<in> set (map fi_relative_filename (tm_file_infos m)). p \<noteq> []" unfolding ds(1) using ds(2) by simp
  moreover have "tm_file_infos m \<noteq> []" using ds(1,4) by auto
  ultimately show ?thesis using m by (auto simp: Let_def file_ops_ok_def FileOps_new_def total_bytes_def)
qed

lemma validated_torrent_is_sound_witness:
  "\<exists>v m. validate (\<lambda>_ b. b) (sample_info plain_files) = Inr v \<and> TorrentMetadata_new v [] [] = Inr m
     \<and> distinct (map (components \<circ> fi_relative_filename) (tm_file_infos m)) \<and> sum_list (map (\<lambda>fi. unat (fi_len fi)) (tm_file_infos m)) = 5"
  using validated_torrent_is_sound [OF plain_validated, of "[]" "[]"] plain_validated(1) by (auto simp: Let_def two_files_def)



text \<open>
  The condition on the decoding matters. The check looks at the bytes of a name and the path is made of the decoded
  name; an encoding with escape sequences, such as ISO-2022-JP with its switch to ASCII, decodes bytes other than
  two dots to two dots.
\<close>

fun drop_escapes :: "encoding" where
  "drop_escapes (a # b # c # cs) = (if (a, b, c) = (27, 40, 66) then drop_escapes cs else a # drop_escapes (b # c # cs))"
| "drop_escapes cs = cs"

lemma escaped_name_goes_up:
  "\<exists>v m. validate (\<lambda>_. drop_escapes) (sample_info [([[46, 27, 40, 66, 46], [97]], 5)]) = Inr v \<and> TorrentMetadata_new v [] [] = Inr m
     \<and> map (components \<circ> fi_relative_filename) (tm_file_infos m) = [[ParentDir, Normal [97]]]"
proof -
  let ?files = "[([[46, 27, 40, 66, 46], [97]], 5)] :: (bytes list \<times> u64) list"
  have c: "components (foldl path_push [] (map drop_escapes [[46, 27, 40, 66, 46], [97]])) = [ParentDir, Normal [97]]"
      "foldl path_push [] (map drop_escapes [[46, 27, 40, 66, 46], [97]]) \<noteq> []" by code_simp+
  obtain v where v: "validate (\<lambda>_. drop_escapes) (sample_info ?files) = Inr v" "vi_encoding v = drop_escapes"
    using sample_validate [of ?files "fo_lengths two_files" drop_escapes] c sample_lengths_5 by (auto simp: part_ok_def)
  obtain m where m: "TorrentMetadata_new v [] [] = Inr m"
    using metadata_ok [OF v(1) sample_countable, of "[]" "[]"] by auto
  obtain ds where ds: "iter_file_details_raw drop_escapes (sample_info ?files) = Inr ds" "map fi_relative_filename (tm_file_infos m) = map path_of ds"
    using metadata_details [OF v(1) m] v(2) by auto
  have "map components (map path_of ds) = [[ParentDir, Normal [97]]]"
    using ds(1) c(1) by (auto simp: sample_details to_pathbuf_def iter_components_def iter_components_bytes_def)
  then show ?thesis using v(1) m ds(2) by (metis map_map)
qed

text \<open>A name made of a dot is accepted as well: two files of a torrent can then lie at the same place of the disk.\<close>

lemma dot_makes_files_coincide:
  "(\<exists>v. validate (\<lambda>_ b. b) (sample_info [([dot, [97]], 3), ([[97]], 2)]) = Inr v)
   \<and> components (path_push [47, 100] (foldl path_push [] [dot, [97]])) = components (path_push [47, 100] (foldl path_push [] [[97]]))"
proof -
  have c: "components (foldl path_push [] [dot, [97]]) = [CurDir, Normal [97]]" "components (foldl path_push [] [[97]]) = [Normal [97]]"
      "components (path_push [47, 100] (foldl path_push [] [dot, [97]])) = components (path_push [47, 100] (foldl path_push [] [[97]]))"
    by code_simp+
  have "validate (\<lambda>_ b. b) (sample_info [([dot, [97]], 3), ([[97]], 2)]) = Inr \<lparr> vi_encoding = (\<lambda>b. b), vi_lengths = fo_lengths two_files, vi_info = sample_info [([dot, [97]], 3), ([[97]], 2)] \<rparr>"
    using sample_lengths_5 c by (intro sample_validate) (simp_all add: part_ok_def path_push_def is_absolute_def)
  then show ?thesis using c(3) by blast
qed

text \<open>The total length is a sum that wraps: a torrent with huge files is accepted with a small total length.\<close>

lemma huge_files_wrap:
  "\<exists>v. validate (\<lambda>_ b. b) (sample_info [([[97]], 2 ^ 63), ([[98]], 2 ^ 63), ([[99]], 5)]) = Inr v \<and> ln_total_length (vi_lengths v) = 5"
proof -
  let ?files = "[([[97]], 2 ^ 63), ([[98]], 2 ^ 63), ([[99]], 5)] :: (bytes list \<times> u64) list"
  have c: "components (foldl path_push [] [[97]]) = [Normal [97]]" "components (foldl path_push [] [[98]]) = [Normal [98]]"
      "components (foldl path_push [] [[99]]) = [Normal [99]]" by code_simp+
  have w: "18446744073709551621 = (5 :: u64)" by simp
  have "validate (\<lambda>_ b. b) (sample_info ?files) = Inr \<lparr> vi_encoding = (\<lambda>b. b), vi_lengths = fo_lengths two_files, vi_info = sample_info ?files \<rparr>"
    using sample_lengths_5 c by (intro sample_validate) (simp_all add: part_ok_def path_push_def is_absolute_def w)
  then show ?thesis by (simp add: two_files_def)
qed

text \<open>
  C24: renaming files keeps the torrent sound. If a batch of renames is accepted, then every file of the renamed
  torrent still has a path of its own, the new paths stay in the folder of the torrent, and nothing but the names
  has changed, so that the file operations work as before.
\<close>
theorem renames_keep_layout:
  assumes "validate_renames (tm_file_infos m) renames = Inr ()" and "file_ops_ok (FileOps_new v (tm_file_infos m))"
  shows "let fis = tm_file_infos (with_renamed_files renames m) in
      distinct (map (components \<circ> fi_relative_filename) fis) \<and> file_ops_ok (FileOps_new v fis)
      \<and> map extent fis = map extent (tm_file_infos m)
      \<and> (\<forall>(i, p) \<in> set renames. i < length fis \<and> list_all is_normal (components p))"
proof -
  let ?fis = "tm_file_infos m" and ?new = "foldl rename_file (tm_file_infos m) renames"
  obtain paths r where p: "rfold (rename_path ?fis) (map fi_relative_filename ?fis) renames = Inr paths" "rfold see_path [] paths = Inr r"
    using assms(1) by (auto simp: validate_renames_def rbind_eq_Inr split: if_splits)
  note P = rename_paths [OF p(1) refl]
  have e: "map extent ?new = map extent ?fis" by (rule rename_files_extent)
  have "length ?new = length ?fis" using arg_cong [OF e, of length] by simp
  moreover have "distinct (map components (map fi_relative_filename ?new))" using see_paths [OF p(2)] P by simp
  moreover have "file_ops_ok (FileOps_new v ?new)" using assms(2) extent_ok(1) [OF e] by (simp add: file_ops_ok_def FileOps_new_def)
  ultimately show ?thesis using P e by (simp add: renamed_files Let_def)
qed

lemma renames_keep_layout_witness:
  "\<exists>m. validate_renames (tm_file_infos m) [(0, [100])] = Inr () \<and> tm_file_infos m = fo_file_infos two_files
     \<and> distinct (map (components \<circ> fi_relative_filename) (tm_file_infos (with_renamed_files [(0, [100])] m)))"
proof -
  let ?v = "plain_valid"
  let ?m = "\<lparr> tm_info = ?v, tm_torrent_bytes = [], tm_info_bytes = [], tm_file_infos = fo_file_infos two_files \<rparr>"
  have r: "validate_renames (tm_file_infos ?m) [(0, [100])] = Inr ()" by simp code_simp
  have "file_ops_ok (FileOps_new ?v (tm_file_infos ?m))" using two_files_ok(1) by (simp add: FileOps_new_def file_ops_ok_def)
  then show ?thesis using renames_keep_layout [OF r] r by (intro exI [of _ ?m]) (simp add: Let_def)
qed



end
