(* ===== verification/Spec2Isabelle.thy ===== *)
theory Spec2Isabelle
  imports Lengths_Correct Piece_Tracker_Correct Peer_Protocol_Correct Peer_Handler_Correct Routing_Table_Props
    Metainfo_Correct
begin

text \<open>
  A verification development for the BitTorrent client rtbit (crates under \<^verbatim>\<open>src/crates\<close>).

  \<^bold>\<open>Conventions.\<close> Machine integers are words of their width, so arithmetic wraps as in a release build;
  \<^verbatim>\<open>usize\<close> is \<open>nat\<close>. A fallible function returns a value of \<open>('a, 'e) rust\<close>: \<open>Inr\<close> a result,
  \<open>Inl (Err e)\<close> an error, \<open>Inl Panic\<close> a panic. Hash maps are association lists with distinct keys,
  ordered maps are sorted ones (\<open>Rust_Maps\<close>); both interpret the locale \<open>keyed_store\<close>.

  \<^bold>\<open>Geometry.\<close> \<open>Lengths\<close> models \<^verbatim>\<open>librtbit-core/src/lengths.rs\<close>: the arithmetic of pieces, chunks and
  files, related to an ideal geometry over natural numbers. \<open>Bit_Slices\<close> holds the bit fields and the
  locale \<open>chunk_layout\<close> of a torrent's chunk ranges, interpreted on \<open>Lengths\<close>.

  \<^bold>\<open>Encodings.\<close> \<open>Bencode\<close> models \<^verbatim>\<open>librtbit-bencode\<close>: serializer and deserializer of dynamic values.
  The decoder recurses on fuel twice the length of the input; every level of nesting and every element
  consumes a byte, so this fuel is never exhausted. The number parsers of the \<^verbatim>\<open>atoi\<close> crate are
  parameters constrained by \<open>atoi_spec\<close>. \<open>Compact_Ip\<close> models the compact address forms.

  \<^bold>\<open>Peer protocol.\<close> \<open>Double_Buf\<close> models the reader over the two halves of the receive buffer and
  interprets \<open>byte_reader\<close>: it reads as the concatenation of the halves. \<open>Ut_Pex\<close>, \<open>Ut_Holepunch\<close>,
  \<open>Ut_Metadata\<close>, \<open>Extended\<close> and \<open>Peer_Protocol\<close> model the messages of \<^verbatim>\<open>librtbit-peer-protocol\<close>;
  \<open>Peer_Protocol_Correct\<close> holds their wire format and its theorems. The deserializers that serde derives
  for structs are parameters.

  \<^bold>\<open>Download state.\<close> \<open>File_Info\<close> and \<open>Chunk_Tracker\<close> model the bit fields and byte counters of a torrent,
  \<open>Chunk_Tracker_Correct\<close>, \<open>Chunk_Tracker_Files\<close> and \<open>Chunk_Tracker_Queue\<close> their invariant and what every
  operation does to it. \<open>Piece_Tracker\<close> models the reservation of pieces; \<open>Piece_Tracker_Correct\<close>
  interleaves its operations as the tasks of the peers do and shows that it refines a state machine per
  piece.

  \<^bold>\<open>Files.\<close> \<open>File_Ops\<close> models \<^verbatim>\<open>librtbit/src/file_ops.rs\<close>, the reading, writing and checking of chunks and
  pieces that may span several files, over a record of storage operations, and the memory-mapped storage of
  \<^verbatim>\<open>storage/filesystem/mmap.rs\<close>. \<open>File_Ops_Correct\<close> has the locale \<open>storage_laws\<close>, what the loops need of a
  storage; \<open>File_Ops_Props\<close> interprets it on the memory-mapped storage and shows that chunks are read back,
  that checks see what was written and that the initial check agrees with the check of a piece. The loop
  that feeds the hash runs on fuel, the bytes to read: every pass reads at least one. \<open>Data_Integrity\<close>
  joins the files with the piece tracker: blocks are written and pieces checked in any order, and a piece
  that is marked verified stays intact.

  \<^bold>\<open>Metainfo.\<close> \<open>Paths\<close> holds the paths of the standard library, \<open>Metainfo\<close> the description of a torrent, its
  validation, the list of files derived from it and their renaming (\<^verbatim>\<open>torrent_metainfo.rs\<close>,
  \<^verbatim>\<open>torrent_state/mod.rs\<close>). \<open>Metainfo_Correct\<close> shows that the files of an accepted torrent satisfy what the
  trackers and the file operations rely on, and concludes the integrity of a download for every accepted
  torrent. The detector of the encoding of names is an argument.

  \<^bold>\<open>Peers.\<close> \<open>Peers\<close> models the state machine of a peer and the table of peers (\<^verbatim>\<open>live/peer\<close>, \<^verbatim>\<open>live/peers\<close>);
  \<open>Peers_Correct\<close> has the locales \<open>peer_update\<close> and \<open>pex_update\<close>, the laws of an operation on one peer that
  keep the counters and the addresses for peer exchange right, interpreted on every such operation.
  \<open>Peer_Lifecycle\<close> models what \<^verbatim>\<open>live/mod.rs\<close> and \<^verbatim>\<open>live/peer_handler.rs\<close> do with the table: finding,
  connecting, dying and requeueing peers. \<open>Peer_Lifecycle_Correct\<close> interleaves these operations and shows
  that the counters are exact and that a dead peer's pieces are queued again. \<open>Peer_Handler\<close> models the
  handler of a peer's messages on top of both trackers; \<open>Peer_Handler_Correct\<close> shows which requests are
  served, which blocks are accepted, that every message keeps the invariants of the piece tracker and of
  the table of peers, and which message panics.

  \<^bold>\<open>DHT.\<close> \<open>Hash_Id\<close> models the identifiers of \<^verbatim>\<open>librtbit-core/src/hash_id.rs\<close>, \<open>Routing_Table\<close> the bucket tree
  of \<^verbatim>\<open>librtbit-dht/src/routing_table.rs\<close>, a vector of nodes linked by index. \<open>Routing_Table_Correct\<close> relates
  the vector to a tree, \<open>Routing_Table_Insert\<close> shows what an insertion does and \<open>Routing_Table_Props\<close> states
  the properties. Walks down the tree run on fuel: the length of the vector for a lookup, as an index is
  visited at most once, and 161 for the splits of an insertion, as each halves a range of \<open>2 ^ 160\<close>
  identifiers.

  \<^bold>\<open>Third-party code.\<close> Number parsers, derived deserializers, the random bytes of an identifier, the backoff of
  a peer, the hash function and the clock are arguments of the definitions that use them.

  \<^bold>\<open>Not modelled.\<close> The asynchronous tasks, sockets and timers around the handlers, of which only the atomic
  steps between two waits appear; the opening of files and the file system; the HTTP and UPnP
  services, the session and its persistence, the tracker clients and the DHT's request workers, which are
  I/O over libraries.
\<close>

end
